(* ===== verification/Ftp_Crypto.thy ===== *)
theory Ftp_Crypto
  imports Zf_Prelude
begin

text \<open>
  Model of \<^verbatim>\<open>src/src/ftp_crypto.c\<close>: the ChaCha20 block function, the
  streaming XOR with its buffered keystream, the context reset and the session
  key derivation.  32-bit words and bytes keep their width, so additions wrap.

  The interface the session layer relies on is the locale \<open>stream_cipher\<close>; it
  is interpreted on \<open>ftp_crypto_xor\<close>.
\<close>

unbundle bit_operations_syntax

section \<open>Definitions\<close>

record ftp_crypto_ctx =
  cstate :: "32 word list"
  keystream :: "byte list"
  ks_offset :: byte
  active :: byte
  counter :: "32 word"

definition rotl32 :: "32 word \<Rightarrow> nat \<Rightarrow> 32 word" where
  "rotl32 v n = push_bit n v OR drop_bit (32 - n) v"

fun quarter_round ::
  "32 word \<times> 32 word \<times> 32 word \<times> 32 word \<Rightarrow> 32 word \<times> 32 word \<times> 32 word \<times> 32 word" where
  "quarter_round (a, b, c, d) =
    (let a = a + b; d = d XOR a; d = rotl32 d 16;
         c = c + d; b = b XOR c; b = rotl32 b 12;
         a = a + b; d = d XOR a; d = rotl32 d 8;
         c = c + d; b = b XOR c; b = rotl32 b 7
     in (a, b, c, d))"

definition load32_le :: "byte list \<Rightarrow> 32 word" where
  "load32_le p = ucast (p ! 0) OR push_bit 8 (ucast (p ! 1)) OR
                 push_bit 16 (ucast (p ! 2)) OR push_bit 24 (ucast (p ! 3))"

definition store32_le :: "32 word \<Rightarrow> byte list" where
  "store32_le v = [ucast v, ucast (drop_bit 8 v), ucast (drop_bit 16 v), ucast (drop_bit 24 v)]"

text \<open>A quarter round on four cells of the 16-word array.\<close>

definition quarter_round_at ::
  "nat \<Rightarrow> nat \<Rightarrow> nat \<Rightarrow> nat \<Rightarrow> 32 word list \<Rightarrow> 32 word list" where
  "quarter_round_at i j k l x =
    (case quarter_round (x ! i, x ! j, x ! k, x ! l) of
       (a, b, c, d) \<Rightarrow> x[i := a, j := b, k := c, l := d])"

definition double_round :: "32 word list \<Rightarrow> 32 word list" where
  "double_round x =
    (let x = quarter_round_at 0 4 8 12 x;
         x = quarter_round_at 1 5 9 13 x;
         x = quarter_round_at 2 6 10 14 x;
         x = quarter_round_at 3 7 11 15 x;
         x = quarter_round_at 0 5 10 15 x;
         x = quarter_round_at 1 6 11 12 x;
         x = quarter_round_at 2 7 8 13 x;
         x = quarter_round_at 3 4 9 14 x
     in x)"

definition chacha20_block :: "32 word list \<Rightarrow> byte list" where
  "chacha20_block state =
    (let x = (double_round ^^ 10) state;
         x = map2 (+) x state
     in concat (map store32_le x))"

definition CHACHA_SIGMA :: "32 word list" where
  "CHACHA_SIGMA = [0x61707865, 0x3320646E, 0x79622D32, 0x6B206574]"

text \<open>The words \<open>load32_le(&key[i * 4])\<close> for \<open>i\<close> below \<open>n\<close>.\<close>

definition load_words :: "nat \<Rightarrow> byte list \<Rightarrow> 32 word list" where
  "load_words n p = map (\<lambda>i. load32_le (drop (i * 4) p)) [0..<n]"

definition init_state :: "byte list \<Rightarrow> byte list \<Rightarrow> 32 word list" where
  "init_state key nonce = CHACHA_SIGMA @ load_words 8 key @ [0] @ load_words 3 nonce"

definition ftp_crypto_init :: "byte list \<Rightarrow> byte list \<Rightarrow> ftp_crypto_ctx" where
  "ftp_crypto_init key nonce =
    \<lparr>cstate = init_state key nonce, keystream = replicate 64 0, ks_offset = 64,
     active = 1, counter = 0\<rparr>"

text \<open>Refill of the keystream buffer when the current block is exhausted.\<close>

definition next_block :: "ftp_crypto_ctx \<Rightarrow> ftp_crypto_ctx" where
  "next_block ctx =
    (let st = (cstate ctx)[12 := counter ctx]
     in ctx\<lparr>cstate := st, keystream := chacha20_block st,
            counter := counter ctx + 1, ks_offset := 0\<rparr>)"

definition refill :: "ftp_crypto_ctx \<Rightarrow> ftp_crypto_ctx" where
  "refill ctx = (if ks_offset ctx \<ge> 64 then next_block ctx else ctx)"

lemma refill_offset: "unat (ks_offset (refill ctx)) < 64"
  by (auto simp: refill_def next_block_def Let_def word_le_nat_alt)

function ftp_crypto_xor :: "ftp_crypto_ctx \<Rightarrow> byte list \<Rightarrow> byte list \<times> ftp_crypto_ctx" where
  "ftp_crypto_xor ctx data =
    (if data = [] then ([], ctx)
     else let ctx = refill ctx;
              off = unat (ks_offset ctx);
              avail = 64 - off;
              chunk = (if length data < avail then length data else avail);
              out = map2 (XOR) (take chunk data) (drop off (keystream ctx));
              (rest, ctx) = ftp_crypto_xor (ctx\<lparr>ks_offset := ks_offset ctx + of_nat chunk\<rparr>)
                              (drop chunk data)
          in (out @ rest, ctx))"
  by pat_completeness auto

termination
  using refill_offset
  by (relation "measure (\<lambda>(ctx, data). length data)") (auto simp: Suc_leI)

declare ftp_crypto_xor.simps [simp del]

definition ftp_crypto_reset :: "ftp_crypto_ctx \<Rightarrow> ftp_crypto_ctx" where
  "ftp_crypto_reset ctx =
    \<lparr>cstate = replicate 16 0, keystream = replicate 64 0, ks_offset = 0, active = 0, counter = 0\<rparr>"

definition ftp_crypto_derive_key :: "byte list \<Rightarrow> byte list \<Rightarrow> byte list" where
  "ftp_crypto_derive_key psk nonce = take 32 (chacha20_block (init_state psk nonce))"

text \<open>
  The specification of the keystream: byte \<open>p\<close> is byte \<open>p mod 64\<close> of the block
  whose counter word is \<open>p div 64\<close>.  \<open>ctx_at\<close> says that a context stands at
  position \<open>p\<close> of the stream of the initial state \<open>st\<close>.
\<close>

definition ks_byte :: "32 word list \<Rightarrow> nat \<Rightarrow> byte" where
  "ks_byte st p = chacha20_block (st[12 := of_nat (p div 64)]) ! (p mod 64)"

definition ctx_at :: "32 word list \<Rightarrow> ftp_crypto_ctx \<Rightarrow> nat \<Rightarrow> bool" where
  "ctx_at st ctx p \<longleftrightarrow>
     length st = 16 \<and> (cstate ctx)[12 := 0] = st[12 := 0] \<and>
     counter ctx = of_nat ((p + 63) div 64) \<and>
     ks_offset ctx = (if p mod 64 = 0 then 64 else of_nat (p mod 64)) \<and>
     (p mod 64 \<noteq> 0 \<longrightarrow> keystream ctx = chacha20_block (st[12 := of_nat (p div 64)]))"

section \<open>Lemmas\<close>

lemma length_quarter_round_at [simp]: "length (quarter_round_at i j k l x) = length x"
  by (simp add: quarter_round_at_def split: prod.split)

lemma length_double_round [simp]: "length (double_round x) = length x"
  by (simp add: double_round_def Let_def)

lemma length_double_rounds [simp]: "length ((double_round ^^ n) x) = length x"
  by (induction n) simp_all

lemma length_concat_store32 [simp]: "length (concat (map store32_le xs)) = 4 * length xs"
  by (induction xs) (simp_all add: store32_le_def)

lemma length_chacha20_block [simp]: "length (chacha20_block st) = 4 * length st"
  by (simp add: chacha20_block_def Let_def del: map_map)

lemma block_div:
  fixes p q r :: nat
  assumes "p = 64 * q + r" "r < 64"
  shows "p div 64 = q" and "p mod 64 = r"
  using assms by simp_all

lemma block_split: obtains q r :: nat
  where "p = 64 * q + r" "r < 64" "p div 64 = q" "p mod 64 = r"
  using block_div by (metis mod_less_divisor mult_div_mod_eq zero_less_numeral)

lemma store32_load32:
  assumes "length p = 4"
  shows "store32_le (load32_le p) = p"
proof -
  obtain a b c d where p: "p = [a, b, c, d]"
    using assms by (auto simp: length_Suc_conv eval_nat_numeral)
  have "(ucast (load32_le p) :: byte) = a"
    by (rule bit_eqI) (simp add: p load32_le_def bit_simps)
  moreover have "(ucast (drop_bit 8 (load32_le p)) :: byte) = b"
    by (rule bit_eqI) (auto simp add: p load32_le_def bit_simps dest: bit_imp_le_length)
  moreover have "(ucast (drop_bit 16 (load32_le p)) :: byte) = c"
    by (rule bit_eqI) (auto simp add: p load32_le_def bit_simps dest: bit_imp_le_length)
  moreover have "(ucast (drop_bit 24 (load32_le p)) :: byte) = d"
    by (rule bit_eqI) (auto simp add: p load32_le_def bit_simps dest: bit_imp_le_length)
  ultimately show ?thesis by (simp add: store32_le_def p)
qed

lemma load32_store32: "load32_le (store32_le w) = w"
proof (rule bit_word_eqI)
  fix n
  assume n: "n < LENGTH(32)"
  have "n < 8 \<or> (8 \<le> n \<and> n < 16) \<or> (16 \<le> n \<and> n < 24) \<or> (24 \<le> n \<and> n < 32)"
    using n by auto
  then show "bit (load32_le (store32_le w)) n \<longleftrightarrow> bit w n"
    by (elim disjE) (auto simp: load32_le_def store32_le_def bit_simps)
qed

lemma update_12_eq: "xs[12 := 0] = ys[12 := 0] \<Longrightarrow> xs[12 := c] = ys[12 := c]"
  by (metis list_update_overwrite)

lemma refill_at:
  assumes "ctx_at st ctx p"
  shows "(cstate (refill ctx))[12 := 0] = st[12 := 0] \<and>
    counter (refill ctx) = of_nat (p div 64 + 1) \<and>
    ks_offset (refill ctx) = of_nat (p mod 64) \<and>
    keystream (refill ctx) = chacha20_block (st[12 := of_nat (p div 64)])"
proof -
  have c: "(cstate ctx)[12 := c] = st[12 := c]" for c
    using assms update_12_eq unfolding ctx_at_def by blast
  obtain q r where p: "p = 64 * q + r" "r < 64" "p div 64 = q" "p mod 64 = r"
    by (rule block_split)
  show ?thesis
  proof (cases "r = 0")
    case True
    have "(p + 63) div 64 = q"
      using True p(1) by (intro block_div(1) [where r = 63]) simp_all
    with True assms c p show ?thesis
      by (simp add: ctx_at_def refill_def next_block_def Let_def)
  next
    case False
    have d: "(p + 63) div 64 = q + 1"
      using False p(1,2) by (intro block_div(1) [where r = "r - 1"]) simp_all
    have "unat (of_nat r :: byte) = r" using p(2) by (simp add: unat_of_nat)
    with p(2) have "\<not> (64 :: byte) \<le> of_nat r" by (simp add: word_le_nat_alt)
    with False assms p(3,4) d show ?thesis
      by (simp add: ctx_at_def refill_def)
  qed
qed

lemma advance_at:
  assumes at: "ctx_at st ctx p" and n: "0 < n" "p mod 64 + n \<le> 64"
  shows "ctx_at st ((refill ctx)\<lparr>ks_offset := ks_offset (refill ctx) + of_nat n\<rparr>) (p + n)"
proof -
  obtain q r where p: "p = 64 * q + r" "r < 64" "p div 64 = q" "p mod 64 = r"
    by (rule block_split)
  have n': "r + n \<le> 64" using n(2) p(4) by simp
  have d: "(p + n + 63) div 64 = q + 1"
    using p(1) n(1) n' by (intro block_div(1) [where r = "r + n - 1"]) simp_all
  have off: "ks_offset (refill ctx) + of_nat n = (of_nat (r + n) :: byte)"
    using refill_at [OF at] p(4) by simp
  have len: "length st = 16" using at by (simp add: ctx_at_def)
  show ?thesis
  proof (cases "r + n = 64")
    case True
    have "(p + n) mod 64 = 0"
      using p(1) True by (intro block_div(2) [where q = "q + 1"]) simp_all
    moreover have "ks_offset (refill ctx) + of_nat n = 64" using off True by simp
    ultimately show ?thesis
      using refill_at [OF at] len d p(3,4) by (simp add: ctx_at_def)
  next
    case False
    have "(p + n) mod 64 = r + n"
      using p(1) n' False by (intro block_div(2) [where q = q]) simp_all
    moreover have "(p + n) div 64 = q"
      using p(1) n' False by (intro block_div(1) [where r = "r + n"]) simp_all
    ultimately show ?thesis
      using refill_at [OF at] False len d p(3,4) n(1) by (simp add: ctx_at_def)
  qed
qed

lemma ks_slice:
  assumes len: "length st = 16" and n: "n \<le> 64 - p mod 64"
  shows "take n (drop (p mod 64) (chacha20_block (st[12 := of_nat (p div 64)]))) =
         map (ks_byte st) [p..<p + n]"
proof (rule nth_equalityI)
  show "length (take n (drop (p mod 64) (chacha20_block (st[12 := of_nat (p div 64)])))) =
        length (map (ks_byte st) [p..<p + n])"
    using len n by simp
next
  fix i assume "i < length (take n (drop (p mod 64) (chacha20_block (st[12 := of_nat (p div 64)]))))"
  then have i: "i < n" by simp
  obtain q r where p: "p = 64 * q + r" "r < 64" "p div 64 = q" "p mod 64 = r"
    by (rule block_split)
  have "(p + i) div 64 = q" "(p + i) mod 64 = r + i"
    using p(1,2,4) i n block_div [of "p + i" q "r + i"] by linarith+
  then show "take n (drop (p mod 64) (chacha20_block (st[12 := of_nat (p div 64)]))) ! i =
             map (ks_byte st) [p..<p + n] ! i"
    using i p(2-4) n len by (simp add: ks_byte_def)
qed

lemma map2_take_longer: "map2 f xs ys = map2 f xs (take (length xs) ys)"
  by (induction xs ys rule: list_induct2') simp_all

lemma map2_upt_split:
  assumes "k \<le> length xs"
  shows "map2 f (take k xs) (map g [p..<p + k]) @ map2 f (drop k xs) (map g [p + k..<p + length xs]) =
         map2 f xs (map g [p..<p + length xs])"
proof -
  have "[p..<p + length xs] = [p..<p + k] @ [p + k..<p + length xs]"
    using assms by (metis le_Suc_ex upt_add_eq_append le_add1 add.assoc)
  moreover have "map2 f (take k xs @ drop k xs) (map g [p..<p + k] @ map g [p + k..<p + length xs]) =
      map2 f (take k xs) (map g [p..<p + k]) @ map2 f (drop k xs) (map g [p + k..<p + length xs])"
    using assms by (subst zip_append) simp_all
  ultimately show ?thesis by simp
qed

lemma xor_stream:
  assumes "ctx_at st ctx p"
  shows "fst (ftp_crypto_xor ctx data) = map2 (XOR) data (map (ks_byte st) [p..<p + length data]) \<and>
         ctx_at st (snd (ftp_crypto_xor ctx data)) (p + length data)"
  using assms
proof (induction ctx data arbitrary: p rule: ftp_crypto_xor.induct)
  case (1 ctx data)
  show ?case
  proof (cases "data = []")
    case True
    then show ?thesis using 1(2) by (simp add: ftp_crypto_xor.simps)
  next
    case False
    define c where "c = refill ctx"
    define n where "n = (if length data < 64 - p mod 64 then length data else 64 - p mod 64)"
    define c' where "c' = c\<lparr>ks_offset := ks_offset c + of_nat n\<rparr>"
    have n: "0 < n" "p mod 64 + n \<le> 64" "n \<le> length data" "n \<le> 64 - p mod 64"
      using False by (auto simp: n_def)
    have len: "length st = 16" using 1(2) by (simp add: ctx_at_def)
    have off: "unat (ks_offset c) = p mod 64"
      using refill_at [OF 1(2)] by (simp add: c_def unat_of_nat)
    have at: "ctx_at st c' (p + n)" using advance_at [OF 1(2) n(1,2)] by (simp add: c'_def c_def)
    have step: "ftp_crypto_xor ctx data =
        (map2 (XOR) (take n data) (drop (p mod 64) (keystream c)) @ fst (ftp_crypto_xor c' (drop n data)),
         snd (ftp_crypto_xor c' (drop n data)))"
      by (subst ftp_crypto_xor.simps)
         (simp only: Let_def case_prod_unfold False if_False c_def [symmetric] off
            n_def [symmetric] c'_def [symmetric])
    have ks: "map2 (XOR) (take n data) (drop (p mod 64) (keystream c)) =
        map2 (XOR) (take n data) (map (ks_byte st) [p..<p + n])"
    proof -
      have "length (take n data) = n" using n(3) by simp
      then have "map2 (XOR) (take n data) (drop (p mod 64) (keystream c)) =
          map2 (XOR) (take n data) (take n (drop (p mod 64) (keystream c)))"
        using map2_take_longer [of "(XOR)" "take n data"] by metis
      then show ?thesis using ks_slice [OF len n(4)] refill_at [OF 1(2)] by (simp add: c_def)
    qed
    have IH: "fst (ftp_crypto_xor c' (drop n data)) =
          map2 (XOR) (drop n data) (map (ks_byte st) [p + n..<p + length data]) \<and>
        ctx_at st (snd (ftp_crypto_xor c' (drop n data))) (p + length data)"
      using 1(1) [OF False c_def off [symmetric] refl n_def refl, of "p + n"] at n(3)
      by (simp add: c'_def)
    show ?thesis unfolding step fst_conv snd_conv ks
      using IH map2_upt_split [OF n(3)] by (simp add: add.assoc)
  qed
qed

section \<open>The stream cipher interface\<close>

text \<open>
  Processing a list of buffers one after the other, as the transfer loops do.
\<close>

primrec crypt_chunks ::
  "('c \<Rightarrow> byte list \<Rightarrow> byte list \<times> 'c) \<Rightarrow> 'c \<Rightarrow> byte list list \<Rightarrow> byte list list \<times> 'c" where
  "crypt_chunks f c [] = ([], c)"
| "crypt_chunks f c (xs # xss) =
    (case f c xs of (ys, c') \<Rightarrow> case crypt_chunks f c' xss of (yss, c'') \<Rightarrow> (ys # yss, c''))"

locale stream_cipher =
  fixes crypt :: "'c \<Rightarrow> byte list \<Rightarrow> byte list \<times> 'c"
    and at :: "'k \<Rightarrow> 'c \<Rightarrow> nat \<Rightarrow> bool"
    and ks :: "'k \<Rightarrow> nat \<Rightarrow> byte"
  assumes crypt_out: "at k c p \<Longrightarrow> fst (crypt c xs) = map2 (XOR) xs (map (ks k) [p..<p + length xs])"
    and crypt_at: "at k c p \<Longrightarrow> at k (snd (crypt c xs)) (p + length xs)"
begin

lemma crypt_length: "at k c p \<Longrightarrow> length (fst (crypt c xs)) = length xs"
  by (simp add: crypt_out)

lemma crypt_append:
  assumes "at k c p"
  shows "fst (crypt c (xs @ ys)) = fst (crypt c xs) @ fst (crypt (snd (crypt c xs)) ys)"
proof -
  have "[p..<p + length (xs @ ys)] = [p..<p + length xs] @ [p + length xs..<p + length xs + length ys]"
    using upt_add_eq_append [of p "p + length xs" "length ys"] by (simp add: add.assoc)
  then show ?thesis
    using assms crypt_at [OF assms, of xs] by (simp add: crypt_out)
qed

lemma crypt_involution:
  assumes "at k c p" "at k d p"
  shows "fst (crypt d (fst (crypt c xs))) = xs"
proof -
  have "map2 (XOR) (map2 (XOR) xs zs) zs = xs" if "length zs = length xs" for zs :: "byte list"
    using that by (induction xs zs rule: list_induct2') (simp_all add: xor.assoc)
  then show ?thesis using assms by (simp add: crypt_out)
qed

lemma crypt_chunks_concat:
  assumes "at k c p"
  shows "concat (fst (crypt_chunks crypt c xss)) = fst (crypt c (concat xss)) \<and>
         at k (snd (crypt_chunks crypt c xss)) (p + length (concat xss))"
  using assms
proof (induction xss arbitrary: c p)
  case Nil
  then show ?case using crypt_out [OF Nil, of "[]"] by simp
next
  case (Cons xs xss)
  show ?case
    using Cons.IH [OF crypt_at [OF Cons.prems, of xs]] crypt_append [OF Cons.prems, of xs "concat xss"]
    by (simp add: case_prod_unfold add.assoc)
qed

lemma chunks_round_trip:
  assumes "at k c p" "at k d p" "concat yss = concat (fst (crypt_chunks crypt c xss))"
  shows "concat (fst (crypt_chunks crypt d yss)) = concat xss"
  using crypt_chunks_concat [OF assms(1), of xss] crypt_chunks_concat [OF assms(2), of yss]
    crypt_involution [OF assms(1,2)] assms(3) by simp

end

interpretation chacha: stream_cipher ftp_crypto_xor ctx_at ks_byte
  by unfold_locales (simp_all add: xor_stream)

lemma length_init_state [simp]: "length (init_state key nonce) = 16"
  by (simp add: init_state_def CHACHA_SIGMA_def load_words_def)

lemma init_state_counter [simp]: "(init_state key nonce)[12 := 0] = init_state key nonce"
proof -
  have "length (CHACHA_SIGMA @ load_words 8 key) = 12"
    by (simp add: CHACHA_SIGMA_def load_words_def)
  then show ?thesis
    unfolding init_state_def using list_update_length [of "CHACHA_SIGMA @ load_words 8 key" 0]
    by (metis append.assoc append_Cons append_Nil)
qed

lemma ctx_at_init [simp]: "ctx_at (init_state key nonce) (ftp_crypto_init key nonce) 0"
  by (simp add: ctx_at_def ftp_crypto_init_def)

lemma ks_byte_period: "ks_byte st (2 ^ 38 + p) = ks_byte st p"
proof -
  have e: "(2::nat) ^ 38 = 64 * 2 ^ 32" by simp
  have "(2 ^ 38 + p) div 64 = 2 ^ 32 + p div 64" "(2 ^ 38 + p) mod 64 = p mod 64"
    unfolding e by (simp_all only: div_mult_self4 mod_mult_self4 zero_neq_numeral not_False_eq_True)
  moreover have "(of_nat (2 ^ 32 + p div 64) :: 32 word) = of_nat (p div 64)"
    by (simp add: word_of_nat_eq_iff take_bit_eq_mod)
  ultimately show ?thesis by (simp only: ks_byte_def)
qed

section \<open>Properties\<close>

text \<open>
  C7: Two peers that derive their contexts from the same key and nonce agree
  whatever the buffer boundaries are: if the sender encrypts the buffers
  \<open>xss\<close> and the receiver gets the same bytes cut into other buffers \<open>yss\<close>, the
  receiver's decryption is the sender's plaintext.
\<close>

theorem crypto_round_trip_any_chunking:
  assumes "concat yss = concat (fst (crypt_chunks ftp_crypto_xor (ftp_crypto_init key nonce) xss))"
  shows "concat (fst (crypt_chunks ftp_crypto_xor (ftp_crypto_init key nonce) yss)) = concat xss"
  using chacha.chunks_round_trip [OF ctx_at_init ctx_at_init assms] .

text \<open>
  C10: \<open>ftp_crypto_xor\<close> on a context that stands at position \<open>p\<close> of the stream
  XORs byte \<open>j\<close> of the data with keystream byte \<open>p + j\<close>, and leaves the context
  at position \<open>p + len\<close>: the buffered block and its offset are an
  implementation of the plain counter-mode keystream.
\<close>

theorem crypto_xor_refines_keystream:
  assumes "ctx_at st ctx p"
  shows "case ftp_crypto_xor ctx data of (out, ctx') \<Rightarrow>
           out = map2 (XOR) data (map (ks_byte st) [p..<p + length data]) \<and>
           ctx_at st ctx' (p + length data)"
  using xor_stream [OF assms, of data] by (simp add: case_prod_unfold)

text \<open>
  C14: the cipher starts over after \<open>2 ^ 38\<close> bytes, because the block counter is a 32-bit word
  with no guard against wrap-around.  Whatever was encrypted before, the bytes that follow the
  first \<open>2 ^ 38\<close> of a context are encrypted with the same key stream as the first ones.
\<close>

theorem crypto_starts_over:
  assumes "length xs = 2 ^ 38" "ftp_crypto_xor (ftp_crypto_init key nonce) xs = (out, ctx)"
  shows "fst (ftp_crypto_xor ctx ys) = fst (ftp_crypto_xor (ftp_crypto_init key nonce) ys)"
proof -
  let ?st = "init_state key nonce"
  have at: "ctx_at ?st ctx (2 ^ 38)" using xor_stream [OF ctx_at_init, of key nonce xs] assms by simp
  have ks: "map (ks_byte ?st) [2 ^ 38..<2 ^ 38 + n] = map (ks_byte ?st) [0..<n]" for n
    by (rule nth_equalityI) (simp_all del: power_numeral add: ks_byte_period)
  have "fst (ftp_crypto_xor ctx ys) = map2 (XOR) ys (map (ks_byte ?st) [2 ^ 38..<2 ^ 38 + length ys])"
    using xor_stream [OF at, of ys] by blast
  also have "\<dots> = map2 (XOR) ys (map (ks_byte ?st) [0..<length ys])" by (simp only: ks)
  also have "\<dots> = fst (ftp_crypto_xor (ftp_crypto_init key nonce) ys)"
    using xor_stream [OF ctx_at_init, of key nonce ys] by simp
  finally show ?thesis .
qed

section \<open>Witnesses\<close>

theorem crypto_round_trip_any_chunking_witness:
  "concat (fst (crypt_chunks ftp_crypto_xor (ftp_crypto_init (replicate 32 7) (replicate 12 9))
     [concat (fst (crypt_chunks ftp_crypto_xor (ftp_crypto_init (replicate 32 7) (replicate 12 9))
        [[1, 2], [3]]))])) = [1, 2, 3]"
  using crypto_round_trip_any_chunking
    [of "[concat (fst (crypt_chunks ftp_crypto_xor (ftp_crypto_init (replicate 32 7) (replicate 12 9))
            [[1, 2], [3]]))]" "replicate 32 7" "replicate 12 9" "[[1, 2], [3]]"]
  by simp

theorem crypto_xor_refines_keystream_witness:
  "case ftp_crypto_xor (ftp_crypto_init (replicate 32 7) (replicate 12 9)) [1, 2, 3] of (out, ctx') \<Rightarrow>
     out = map2 (XOR) [1, 2, 3] (map (ks_byte (init_state (replicate 32 7) (replicate 12 9))) [0..<0 + length [1, 2, 3 :: byte]]) \<and>
     ctx_at (init_state (replicate 32 7) (replicate 12 9)) ctx' (0 + length [1, 2, 3 :: byte])"
  by (rule crypto_xor_refines_keystream [OF ctx_at_init])

theorem crypto_starts_over_witness:
  "fst (ftp_crypto_xor (snd (ftp_crypto_xor (ftp_crypto_init (replicate 32 7) (replicate 12 9)) (replicate (2 ^ 38) 0))) [1, 2, 3]) =
   fst (ftp_crypto_xor (ftp_crypto_init (replicate 32 7) (replicate 12 9)) [1, 2, 3])"
  by (rule crypto_starts_over [OF length_replicate surjective_pairing])

end
