(* ===== verification/Ftp_Crypto_Vectors.thy ===== *)
theory Ftp_Crypto_Vectors
  imports Ftp_Crypto
begin

text \<open>
  The block function of \<^verbatim>\<open>src/src/ftp_crypto.c\<close> evaluated on the test
  vector of RFC 8439, section 2.3.2.  One lemma per double round keeps each
  evaluation short.
\<close>

definition rfc_key :: "byte list" where
  "rfc_key = map of_nat [0..<32]"

definition rfc_nonce :: "byte list" where
  "rfc_nonce = [0, 0, 0, 9, 0, 0, 0, 0x4a, 0, 0, 0, 0]"

lemma rfc_state:
  "(init_state rfc_key rfc_nonce)[12 := 1] =
    [0x61707865, 0x3320646e, 0x79622d32, 0x6b206574, 0x03020100, 0x07060504,
     0x0b0a0908, 0x0f0e0d0c, 0x13121110, 0x17161514, 0x1b1a1918, 0x1f1e1d1c,
     0x00000001, 0x09000000, 0x4a000000, 0x00000000]"
  by code_simp

lemma rfc_double_round_1:
  "double_round
    [0x61707865, 0x3320646e, 0x79622d32, 0x6b206574, 0x03020100, 0x07060504,
     0x0b0a0908, 0x0f0e0d0c, 0x13121110, 0x17161514, 0x1b1a1918, 0x1f1e1d1c,
     0x00000001, 0x09000000, 0x4a000000, 0x00000000] =
    [0xcd52e917, 0x85ab03b4, 0xb3457395, 0xf96de7dd, 0xc4b7cd22, 0x5c2e187a,
     0xc95eb461, 0x316c801a, 0x7bf7d740, 0x7eddd644, 0xf1a1bdf5, 0x761246ca,
     0x6b0d58a3, 0x6798471a, 0xd737f167, 0xf173888d]"
  by code_simp

lemma rfc_double_round_2:
  "double_round
    [0xcd52e917, 0x85ab03b4, 0xb3457395, 0xf96de7dd, 0xc4b7cd22, 0x5c2e187a,
     0xc95eb461, 0x316c801a, 0x7bf7d740, 0x7eddd644, 0xf1a1bdf5, 0x761246ca,
     0x6b0d58a3, 0x6798471a, 0xd737f167, 0xf173888d] =
    [0xcf1a7584, 0x048927ec, 0x54051fda, 0xc244ff28, 0x901d2f40, 0x7974b81c,
     0x378dcfb4, 0xcd47fd0e, 0x2dafb216, 0x27c89cd6, 0xcd3c9aa0, 0x79fc89c7,
     0x10aef18d, 0x16218765, 0x68f76705, 0x04d6ee22]"
  by code_simp

lemma rfc_double_round_3:
  "double_round
    [0xcf1a7584, 0x048927ec, 0x54051fda, 0xc244ff28, 0x901d2f40, 0x7974b81c,
     0x378dcfb4, 0xcd47fd0e, 0x2dafb216, 0x27c89cd6, 0xcd3c9aa0, 0x79fc89c7,
     0x10aef18d, 0x16218765, 0x68f76705, 0x04d6ee22] =
    [0x03a14032, 0x66b15927, 0x9d6b6b42, 0xb84c4109, 0xa7143ae0, 0xa09b33dd,
     0xa5daaf88, 0x2fd91a73, 0xc90c6b18, 0x5a202413, 0xc20e01b6, 0x72cd6b74,
     0xba35d777, 0xb360f1bf, 0x8178315b, 0x2cd11b1a]"
  by code_simp

lemma rfc_double_round_4:
  "double_round
    [0x03a14032, 0x66b15927, 0x9d6b6b42, 0xb84c4109, 0xa7143ae0, 0xa09b33dd,
     0xa5daaf88, 0x2fd91a73, 0xc90c6b18, 0x5a202413, 0xc20e01b6, 0x72cd6b74,
     0xba35d777, 0xb360f1bf, 0x8178315b, 0x2cd11b1a] =
    [0x9a2d3589, 0x0b23fc4e, 0x40af3b6b, 0xceea8144, 0x0a1bffc6, 0x5e5993f7,
     0x9904c2e7, 0x0d334718, 0xe46c6354, 0xc9503229, 0x04fef5aa, 0xf8933f72,
     0x2687d476, 0x54e65231, 0x3594ffc5, 0x2b3bb2ca]"
  by code_simp

lemma rfc_double_round_5:
  "double_round
    [0x9a2d3589, 0x0b23fc4e, 0x40af3b6b, 0xceea8144, 0x0a1bffc6, 0x5e5993f7,
     0x9904c2e7, 0x0d334718, 0xe46c6354, 0xc9503229, 0x04fef5aa, 0xf8933f72,
     0x2687d476, 0x54e65231, 0x3594ffc5, 0x2b3bb2ca] =
    [0xc53318c5, 0xca325d96, 0x7e7d11cb, 0x3404e2ca, 0x26d7cf73, 0x6088d379,
     0xc0f0e9bd, 0xe310cdb9, 0xae2ca8db, 0x42f67c72, 0x71669aca, 0x975c171d,
     0x9e5ec228, 0x7d85a9f3, 0x201d0756, 0x63fa6953]"
  by code_simp

lemma rfc_double_round_6:
  "double_round
    [0xc53318c5, 0xca325d96, 0x7e7d11cb, 0x3404e2ca, 0x26d7cf73, 0x6088d379,
     0xc0f0e9bd, 0xe310cdb9, 0xae2ca8db, 0x42f67c72, 0x71669aca, 0x975c171d,
     0x9e5ec228, 0x7d85a9f3, 0x201d0756, 0x63fa6953] =
    [0x04a3131a, 0x66176309, 0x0415bab1, 0x61b880a2, 0x36cc86c7, 0xbf8a4465,
     0xf77dd720, 0xfc0bdc90, 0x07d13aca, 0xeb0be9af, 0x61599491, 0x918512dc,
     0x33b6686d, 0x795cc671, 0xc0049972, 0xa0a81bde]"
  by code_simp

lemma rfc_double_round_7:
  "double_round
    [0x04a3131a, 0x66176309, 0x0415bab1, 0x61b880a2, 0x36cc86c7, 0xbf8a4465,
     0xf77dd720, 0xfc0bdc90, 0x07d13aca, 0xeb0be9af, 0x61599491, 0x918512dc,
     0x33b6686d, 0x795cc671, 0xc0049972, 0xa0a81bde] =
    [0x9b70f51f, 0x7ea8ac11, 0x21e54da9, 0xca393b2f, 0x93b08686, 0x6a4c50ae,
     0x19212a5a, 0x9b032958, 0xd839165e, 0x4c06e28a, 0xd3fde99e, 0x26acc13d,
     0xa609f555, 0x2c246549, 0x95151853, 0x2c847a0d]"
  by code_simp

lemma rfc_double_round_8:
  "double_round
    [0x9b70f51f, 0x7ea8ac11, 0x21e54da9, 0xca393b2f, 0x93b08686, 0x6a4c50ae,
     0x19212a5a, 0x9b032958, 0xd839165e, 0x4c06e28a, 0xd3fde99e, 0x26acc13d,
     0xa609f555, 0x2c246549, 0x95151853, 0x2c847a0d] =
    [0xca5c85dd, 0x93a4f90e, 0xd9f0df58, 0x26dd82dd, 0x982563f8, 0x712aa9ff,
     0x279a61e8, 0x970f72bd, 0x1c25931a, 0x5180bb10, 0x779c27e7, 0x54077e08,
     0xa9b751fb, 0x382f3ce2, 0x8db1757d, 0xcc38080b]"
  by code_simp

lemma rfc_double_round_9:
  "double_round
    [0xca5c85dd, 0x93a4f90e, 0xd9f0df58, 0x26dd82dd, 0x982563f8, 0x712aa9ff,
     0x279a61e8, 0x970f72bd, 0x1c25931a, 0x5180bb10, 0x779c27e7, 0x54077e08,
     0xa9b751fb, 0x382f3ce2, 0x8db1757d, 0xcc38080b] =
    [0xb6b87de6, 0x9a016148, 0x93859815, 0x4915e6cc, 0xdc33c122, 0x98e18fa3,
     0x5ffbe8fc, 0xf7154b8b, 0x28c1fcb3, 0xc4b38f9d, 0x83e2f5d7, 0x7d24b98b,
     0x21078b22, 0xb193e7a3, 0xb2f49389, 0x6cde6026]"
  by code_simp

lemma rfc_double_round_10:
  "double_round
    [0xb6b87de6, 0x9a016148, 0x93859815, 0x4915e6cc, 0xdc33c122, 0x98e18fa3,
     0x5ffbe8fc, 0xf7154b8b, 0x28c1fcb3, 0xc4b38f9d, 0x83e2f5d7, 0x7d24b98b,
     0x21078b22, 0xb193e7a3, 0xb2f49389, 0x6cde6026] =
    [0x837778ab, 0xe238d763, 0xa67ae21e, 0x5950bb2f, 0xc4f2d0c7, 0xfc62bb2f,
     0x8fa018fc, 0x3f5ec7b7, 0x335271c2, 0xf29489f3, 0xeabda8fc, 0x82e46ebd,
     0xd19c12b4, 0xb04e16de, 0x9e83d0cb, 0x4e3c50a2]"
  by code_simp

lemmas rfc_double_rounds =
  rfc_double_round_1 rfc_double_round_2 rfc_double_round_3 rfc_double_round_4
  rfc_double_round_5 rfc_double_round_6 rfc_double_round_7 rfc_double_round_8
  rfc_double_round_9 rfc_double_round_10

lemma ten_Suc: "(10::nat) = Suc (Suc (Suc (Suc (Suc (Suc (Suc (Suc (Suc (Suc 0)))))))))"
  by simp

lemma rfc_rounds:
  "(double_round ^^ 10)
    [0x61707865, 0x3320646e, 0x79622d32, 0x6b206574, 0x03020100, 0x07060504,
     0x0b0a0908, 0x0f0e0d0c, 0x13121110, 0x17161514, 0x1b1a1918, 0x1f1e1d1c,
     0x00000001, 0x09000000, 0x4a000000, 0x00000000] =
    [0x837778ab, 0xe238d763, 0xa67ae21e, 0x5950bb2f, 0xc4f2d0c7, 0xfc62bb2f,
     0x8fa018fc, 0x3f5ec7b7, 0x335271c2, 0xf29489f3, 0xeabda8fc, 0x82e46ebd,
     0xd19c12b4, 0xb04e16de, 0x9e83d0cb, 0x4e3c50a2]"
  by (simp only: ten_Suc funpow.simps comp_apply id_apply rfc_double_rounds)

lemma rfc_serialize:
  "concat (map store32_le (map2 (+)
    [0x837778ab, 0xe238d763, 0xa67ae21e, 0x5950bb2f, 0xc4f2d0c7, 0xfc62bb2f,
     0x8fa018fc, 0x3f5ec7b7, 0x335271c2, 0xf29489f3, 0xeabda8fc, 0x82e46ebd,
     0xd19c12b4, 0xb04e16de, 0x9e83d0cb, 0x4e3c50a2]
    [0x61707865, 0x3320646e, 0x79622d32, 0x6b206574, 0x03020100, 0x07060504,
     0x0b0a0908, 0x0f0e0d0c, 0x13121110, 0x17161514, 0x1b1a1918, 0x1f1e1d1c,
     0x00000001, 0x09000000, 0x4a000000, 0x00000000])) =
   [0x10, 0xf1, 0xe7, 0xe4, 0xd1, 0x3b, 0x59, 0x15, 0x50, 0x0f, 0xdd, 0x1f, 0xa3, 0x20, 0x71, 0xc4,
    0xc7, 0xd1, 0xf4, 0xc7, 0x33, 0xc0, 0x68, 0x03, 0x04, 0x22, 0xaa, 0x9a, 0xc3, 0xd4, 0x6c, 0x4e,
    0xd2, 0x82, 0x64, 0x46, 0x07, 0x9f, 0xaa, 0x09, 0x14, 0xc2, 0xd7, 0x05, 0xd9, 0x8b, 0x02, 0xa2,
    0xb5, 0x12, 0x9c, 0xd1, 0xde, 0x16, 0x4e, 0xb9, 0xcb, 0xd0, 0x83, 0xe8, 0xa2, 0x50, 0x3c, 0x4e]"
  by code_simp

text \<open>
  On the key, nonce and block counter of RFC 8439 the block function gives
  the 64 bytes of the standard's test vector.
\<close>

theorem chacha20_block_rfc8439:
  "chacha20_block ((init_state rfc_key rfc_nonce)[12 := 1]) =
   [0x10, 0xf1, 0xe7, 0xe4, 0xd1, 0x3b, 0x59, 0x15, 0x50, 0x0f, 0xdd, 0x1f, 0xa3, 0x20, 0x71, 0xc4,
    0xc7, 0xd1, 0xf4, 0xc7, 0x33, 0xc0, 0x68, 0x03, 0x04, 0x22, 0xaa, 0x9a, 0xc3, 0xd4, 0x6c, 0x4e,
    0xd2, 0x82, 0x64, 0x46, 0x07, 0x9f, 0xaa, 0x09, 0x14, 0xc2, 0xd7, 0x05, 0xd9, 0x8b, 0x02, 0xa2,
    0xb5, 0x12, 0x9c, 0xd1, 0xde, 0x16, 0x4e, 0xb9, 0xcb, 0xd0, 0x83, 0xe8, 0xa2, 0x50, 0x3c, 0x4e]"
  unfolding rfc_state chacha20_block_def Let_def rfc_rounds rfc_serialize ..

end
