(* ===== verification/Ftp_Types.thy ===== *)
theory Ftp_Types
  imports Zf_Prelude Ftp_Crypto
begin

text \<open>
  The data types of \<^verbatim>\<open>src/include/ftp_types.h\<close>, the constants of
  \<^verbatim>\<open>src/include/ftp_config.h\<close> for the generic POSIX build, and the operating
  system as the code sees it.

  The operating system is a parameter \<open>os :: 'w \<Rightarrow> syscall \<Rightarrow> sysres \<times> 'w\<close> over an
  arbitrary type of worlds: a call gets a return value, an error number and the
  contents of its output arguments, and may change the world in any way.  So a
  theorem that quantifies over \<open>os\<close> also covers other processes and threads that
  act between two calls.  The program state \<open>st\<close> keeps the world, \<open>errno\<close>, the
  trace of all calls made with their results, the session and the mask of the
  shared transfer buffers.
\<close>

section \<open>Constants\<close>

definition FTP_PATH_MAX :: nat where [simp]: "FTP_PATH_MAX = 4096"
definition FTP_CMD_BUFFER_SIZE :: nat where [simp]: "FTP_CMD_BUFFER_SIZE = 512"
definition FTP_REPLY_BUFFER_SIZE :: nat where [simp]: "FTP_REPLY_BUFFER_SIZE = 1024"
definition FTP_LIST_LINE_SIZE :: nat where [simp]: "FTP_LIST_LINE_SIZE = 512"
definition FTP_MAX_SESSIONS :: nat where [simp]: "FTP_MAX_SESSIONS = 32"
definition FTP_SESSION_TIMEOUT :: int where [simp]: "FTP_SESSION_TIMEOUT = 300"
definition FTP_STREAM_BUFFER_SIZE :: nat where [simp]: "FTP_STREAM_BUFFER_SIZE = 524288"
definition FTP_STREAM_BUFFER_COUNT :: nat where [simp]: "FTP_STREAM_BUFFER_COUNT = 32"
definition FTP_CTRL_IO_TIMEOUT_MS :: nat where [simp]: "FTP_CTRL_IO_TIMEOUT_MS = 1000"
definition FTP_DATA_IO_TIMEOUT_MS :: nat where [simp]: "FTP_DATA_IO_TIMEOUT_MS = 120000"
definition FTP_DATA_CONNECT_TIMEOUT_MS :: nat where [simp]: "FTP_DATA_CONNECT_TIMEOUT_MS = 15000"
definition FTP_DATA_LINGER_TIMEOUT_S :: int where [simp]: "FTP_DATA_LINGER_TIMEOUT_S = 10"
definition FTP_TCP_SNDBUF :: int where [simp]: "FTP_TCP_SNDBUF = 1048576"
definition FTP_LISTEN_BACKLOG :: nat where [simp]: "FTP_LISTEN_BACKLOG = 8"
definition FTP_TCP_RCVBUF :: int where [simp]: "FTP_TCP_RCVBUF = 1048576"
definition FTP_RETR_SENDFILE_CHUNK :: nat where [simp]: "FTP_RETR_SENDFILE_CHUNK = 2097152"
definition FTP_SENDFILE_EAGAIN_RETRIES :: nat where [simp]: "FTP_SENDFILE_EAGAIN_RETRIES = 256"
definition FTP_SENDFILE_EAGAIN_SLEEP_US :: nat where [simp]: "FTP_SENDFILE_EAGAIN_SLEEP_US = 500"
definition FTP_TRANSFER_RATE_LIMIT_BPS :: "64 word" where [simp]: "FTP_TRANSFER_RATE_LIMIT_BPS = 0"
definition FTP_TRANSFER_RATE_BURST_BYTES :: "64 word" where [simp]: "FTP_TRANSFER_RATE_BURST_BYTES = 0"
definition SENDFILE_COOLDOWN_BYTES :: nat where [simp]: "SENDFILE_COOLDOWN_BYTES = 4194304"
definition PAL_FILE_WRITE_CHUNK_MAX :: nat where [simp]: "PAL_FILE_WRITE_CHUNK_MAX = 262144"
definition INET_ADDRSTRLEN :: nat where [simp]: "INET_ADDRSTRLEN = 16"

text \<open>Error numbers of the C library the code tests for (Linux values).\<close>

abbreviation (input) EPERM :: int where "EPERM \<equiv> 1"
abbreviation (input) ENOENT :: int where "ENOENT \<equiv> 2"
abbreviation (input) EINTR :: int where "EINTR \<equiv> 4"
abbreviation (input) EIO :: int where "EIO \<equiv> 5"
abbreviation (input) EBADF :: int where "EBADF \<equiv> 9"
abbreviation (input) EAGAIN :: int where "EAGAIN \<equiv> 11"
abbreviation (input) EACCES :: int where "EACCES \<equiv> 13"
abbreviation (input) EFAULT :: int where "EFAULT \<equiv> 14"
abbreviation (input) EEXIST :: int where "EEXIST \<equiv> 17"
abbreviation (input) EXDEV :: int where "EXDEV \<equiv> 18"
abbreviation (input) ENOTDIR :: int where "ENOTDIR \<equiv> 20"
abbreviation (input) EISDIR :: int where "EISDIR \<equiv> 21"
abbreviation (input) EINVAL :: int where "EINVAL \<equiv> 22"
abbreviation (input) ENFILE :: int where "ENFILE \<equiv> 23"
abbreviation (input) EMFILE :: int where "EMFILE \<equiv> 24"
abbreviation (input) ENOSPC :: int where "ENOSPC \<equiv> 28"
abbreviation (input) EPIPE :: int where "EPIPE \<equiv> 32"
abbreviation (input) ENAMETOOLONG :: int where "ENAMETOOLONG \<equiv> 36"
abbreviation (input) ENOTEMPTY :: int where "ENOTEMPTY \<equiv> 39"
abbreviation (input) ETIMEDOUT :: int where "ETIMEDOUT \<equiv> 110"
abbreviation (input) ESTALE :: int where "ESTALE \<equiv> 116"

section \<open>Enumerations\<close>

datatype (plugins only: code) ftp_error =
    FTP_OK | FTP_ERR_INVALID_PARAM | FTP_ERR_OUT_OF_MEMORY | FTP_ERR_SOCKET_CREATE
  | FTP_ERR_SOCKET_BIND | FTP_ERR_SOCKET_LISTEN | FTP_ERR_SOCKET_ACCEPT
  | FTP_ERR_SOCKET_SEND | FTP_ERR_SOCKET_RECV | FTP_ERR_THREAD_CREATE
  | FTP_ERR_FILE_OPEN | FTP_ERR_FILE_READ | FTP_ERR_FILE_WRITE | FTP_ERR_FILE_STAT
  | FTP_ERR_DIR_OPEN | FTP_ERR_PATH_INVALID | FTP_ERR_PATH_TOO_LONG
  | FTP_ERR_NOT_FOUND | FTP_ERR_PERMISSION | FTP_ERR_TIMEOUT | FTP_ERR_MAX_SESSIONS
  | FTP_ERR_AUTH_FAILED | FTP_ERR_PROTOCOL | FTP_ERR_DIR_EXISTS
  | FTP_ERR_CROSS_DEVICE | FTP_ERR_UNKNOWN

fun err_code :: "ftp_error \<Rightarrow> int" where
  "err_code FTP_OK = 0"
| "err_code FTP_ERR_INVALID_PARAM = -1"
| "err_code FTP_ERR_OUT_OF_MEMORY = -2"
| "err_code FTP_ERR_SOCKET_CREATE = -3"
| "err_code FTP_ERR_SOCKET_BIND = -4"
| "err_code FTP_ERR_SOCKET_LISTEN = -5"
| "err_code FTP_ERR_SOCKET_ACCEPT = -6"
| "err_code FTP_ERR_SOCKET_SEND = -7"
| "err_code FTP_ERR_SOCKET_RECV = -8"
| "err_code FTP_ERR_THREAD_CREATE = -9"
| "err_code FTP_ERR_FILE_OPEN = -10"
| "err_code FTP_ERR_FILE_READ = -11"
| "err_code FTP_ERR_FILE_WRITE = -12"
| "err_code FTP_ERR_FILE_STAT = -13"
| "err_code FTP_ERR_DIR_OPEN = -14"
| "err_code FTP_ERR_PATH_INVALID = -15"
| "err_code FTP_ERR_PATH_TOO_LONG = -16"
| "err_code FTP_ERR_NOT_FOUND = -17"
| "err_code FTP_ERR_PERMISSION = -18"
| "err_code FTP_ERR_TIMEOUT = -19"
| "err_code FTP_ERR_MAX_SESSIONS = -20"
| "err_code FTP_ERR_AUTH_FAILED = -21"
| "err_code FTP_ERR_PROTOCOL = -22"
| "err_code FTP_ERR_DIR_EXISTS = -23"
| "err_code FTP_ERR_CROSS_DEVICE = -24"
| "err_code FTP_ERR_UNKNOWN = -99"

datatype (plugins only: code) ftp_reply_code =
    R150_FILE_OK
  | R200_OK | R211_SYSTEM_STATUS | R212_DIR_STATUS | R213_FILE_STATUS | R214_HELP
  | R215_SYSTEM_TYPE | R220_SERVICE_READY | R221_GOODBYE | R225_DATA_OPEN
  | R226_TRANSFER_COMPLETE | R227_PASV_MODE | R229_EPSV_MODE | R230_LOGGED_IN
  | R234_AUTH_OK | R250_FILE_ACTION_OK | R257_PATH_CREATED
  | R331_NEED_PASSWORD | R350_PENDING
  | R421_SERVICE_UNAVAIL | R425_CANT_OPEN_DATA | R426_TRANSFER_ABORTED
  | R450_FILE_UNAVAILABLE | R451_LOCAL_ERROR | R452_INSUFFICIENT_STORAGE
  | R500_SYNTAX_ERROR | R501_SYNTAX_ARGS | R502_NOT_IMPLEMENTED | R503_BAD_SEQUENCE
  | R504_NOT_IMPL_PARAM | R530_NOT_LOGGED_IN | R532_NEED_ACCOUNT | R550_FILE_ERROR
  | R551_PAGE_TYPE_UNKNOWN | R552_STORAGE_EXCEEDED | R553_FILENAME_INVALID

fun reply_num :: "ftp_reply_code \<Rightarrow> nat" where
  "reply_num R150_FILE_OK = 150"
| "reply_num R200_OK = 200"
| "reply_num R211_SYSTEM_STATUS = 211"
| "reply_num R212_DIR_STATUS = 212"
| "reply_num R213_FILE_STATUS = 213"
| "reply_num R214_HELP = 214"
| "reply_num R215_SYSTEM_TYPE = 215"
| "reply_num R220_SERVICE_READY = 220"
| "reply_num R221_GOODBYE = 221"
| "reply_num R225_DATA_OPEN = 225"
| "reply_num R226_TRANSFER_COMPLETE = 226"
| "reply_num R227_PASV_MODE = 227"
| "reply_num R229_EPSV_MODE = 229"
| "reply_num R230_LOGGED_IN = 230"
| "reply_num R234_AUTH_OK = 234"
| "reply_num R250_FILE_ACTION_OK = 250"
| "reply_num R257_PATH_CREATED = 257"
| "reply_num R331_NEED_PASSWORD = 331"
| "reply_num R350_PENDING = 350"
| "reply_num R421_SERVICE_UNAVAIL = 421"
| "reply_num R425_CANT_OPEN_DATA = 425"
| "reply_num R426_TRANSFER_ABORTED = 426"
| "reply_num R450_FILE_UNAVAILABLE = 450"
| "reply_num R451_LOCAL_ERROR = 451"
| "reply_num R452_INSUFFICIENT_STORAGE = 452"
| "reply_num R500_SYNTAX_ERROR = 500"
| "reply_num R501_SYNTAX_ARGS = 501"
| "reply_num R502_NOT_IMPLEMENTED = 502"
| "reply_num R503_BAD_SEQUENCE = 503"
| "reply_num R504_NOT_IMPL_PARAM = 504"
| "reply_num R530_NOT_LOGGED_IN = 530"
| "reply_num R532_NEED_ACCOUNT = 532"
| "reply_num R550_FILE_ERROR = 550"
| "reply_num R551_PAGE_TYPE_UNKNOWN = 551"
| "reply_num R552_STORAGE_EXCEEDED = 552"
| "reply_num R553_FILENAME_INVALID = 553"

datatype ftp_session_state =
  FTP_STATE_INIT | FTP_STATE_CONNECTED | FTP_STATE_AUTHENTICATED
  | FTP_STATE_TRANSFERRING | FTP_STATE_TERMINATING

datatype ftp_data_mode = FTP_DATA_MODE_NONE | FTP_DATA_MODE_ACTIVE | FTP_DATA_MODE_PASSIVE

datatype ftp_transfer_type = FTP_TYPE_ASCII | FTP_TYPE_BINARY
datatype ftp_transfer_mode = FTP_MODE_STREAM | FTP_MODE_BLOCK | FTP_MODE_COMPRESS
datatype ftp_file_structure = FTP_STRU_FILE | FTP_STRU_RECORD | FTP_STRU_PAGE

datatype ftp_args_req = FTP_ARGS_NONE | FTP_ARGS_REQUIRED | FTP_ARGS_OPTIONAL

section \<open>Structures\<close>

text \<open>
  An IPv4 socket address.  The port is the 16-bit value in memory, which is in network byte
  order; the address is the number whose highest byte is the first octet.
\<close>

record sockaddr_in =
  sin_addr :: "32 word"
  sin_port :: "16 word"

record ftp_session_stats =
  bytes_sent :: "64 word"
  bytes_received :: "64 word"
  files_sent :: "64 word"
  files_received :: "64 word"
  commands_processed :: "64 word"
  errors :: "64 word"

record ftp_session =
  ctrl_fd :: int
  ctrl_addr :: sockaddr_in
  data_fd :: int
  pasv_fd :: int
  data_addr :: sockaddr_in
  data_mode :: ftp_data_mode
  sstate :: ftp_session_state
  transfer_type :: ftp_transfer_type
  transfer_mode :: ftp_transfer_mode
  file_structure :: ftp_file_structure
  restart_offset :: int
  root_path :: string
  cwd :: string
  rename_from :: string
  copy_from :: string
  copy_in_progress :: bool
  copy_thread_valid :: bool
  copy_is_move :: bool
  auth_attempts :: nat
  authenticated :: bool
  user_ok :: bool
  ctrl_rxbuf :: string
  ctrl_rx_len :: nat
  ctrl_rx_off :: nat
  session_id :: "32 word"
  connect_time :: int
  last_activity :: int
  rl_tokens :: "64 word"
  rl_last_ns :: "64 word"
  crypto :: ftp_crypto_ctx
  client_ip :: string
  client_port :: "16 word"
  stats :: ftp_session_stats

section \<open>The operating system\<close>

datatype open_flag = O_RDONLY | O_WRONLY | O_CREAT | O_TRUNC | O_APPEND | O_CLOEXEC

datatype sockopt =
    TCP_NODELAY | TCP_CORK | SO_REUSEADDR | SO_SNDBUF | SO_RCVBUF | SO_SNDTIMEO | SO_RCVTIMEO
  | SO_LINGER | SO_KEEPALIVE | TCP_KEEPIDLE | TCP_KEEPINTVL | TCP_KEEPCNT

record fstat =
  st_mode :: "32 word"
  st_size :: "64 word"
  st_mtime :: int

datatype (plugins only: code size) syscall =
    Sys_time | Sys_usleep nat | Sys_clock | Sys_gettimeofday
  | Sys_stat string | Sys_realpath string | Sys_fstat int
  | Sys_open string "open_flag list" nat | Sys_close int
  | Sys_read int nat | Sys_write int "byte list" | Sys_lseek int int | Sys_fdatasync int
  | Sys_sendfile int int int nat
  | Sys_unlink string | Sys_rmdir string | Sys_mkdir string nat | Sys_rename string string
  | Sys_opendir string | Sys_readdir int | Sys_closedir int
  | Sys_socket | Sys_bind int sockaddr_in | Sys_listen int nat | Sys_accept int
  | Sys_connect int sockaddr_in | Sys_getsockname int
  | Sys_select int bool nat | Sys_setsockopt int sockopt int | Sys_getsockopt int sockopt
  | Sys_send int "byte list" | Sys_recv int nat
  | Sys_malloc nat | Sys_copy_thread string string bool | Sys_copy_running | Sys_join_copy
  | Sys_writer_thread | Sys_sched
  | Sys_shutdown int | Sys_mutex_init | Sys_accept_thread | Sys_reader_thread
  | Sys_ftruncate int int | Sys_fadvise int | Sys_statvfs string | Sys_getpid
  | Sys_getfl int | Sys_setfl int "32 word"

text \<open>
  The result of a call: the return value (negative for failure, and for a NULL
  pointer), the value of \<open>errno\<close> after a failure, and what the call stored
  through its pointer arguments; \<open>r_vfs\<close> holds the free blocks and the block size of
  \<open>statvfs\<close>.
\<close>

record sysres =
  r_ret :: int
  r_errno :: int
  r_data :: "byte list"
  r_str :: string
  r_stat :: fstat
  r_addr :: sockaddr_in
  r_vfs :: "64 word \<times> 64 word"

type_synonym 'w os = "'w \<Rightarrow> syscall \<Rightarrow> sysres \<times> 'w"
type_synonym event = "syscall \<times> sysres"

record 'w st =
  world :: 'w
  errno :: int
  trace :: "event list"
  sess :: ftp_session
  pool :: "64 word"

text \<open>
  \<open>adv w e t st\<close> is \<open>st\<close> with world \<open>w\<close>, error number \<open>e\<close> and the events \<open>t\<close> added
  to the trace; every call advances the state this way.
\<close>

definition adv :: "'w \<Rightarrow> int \<Rightarrow> event list \<Rightarrow> 'w st \<Rightarrow> 'w st" where
  "adv w e t st = st\<lparr>world := w, errno := e, trace := trace st @ t\<rparr>"

definition syscall :: "'w os \<Rightarrow> syscall \<Rightarrow> 'w st \<Rightarrow> (sysres \<times> 'w st) ret" where
  "syscall os c st =
    (case os (world st) c of (r, w) \<Rightarrow>
      Some (r, adv w (if r_ret r < 0 then r_errno r else errno st) [(c, r)] st))"

definition set_errno :: "int \<Rightarrow> 'w st \<Rightarrow> 'w st" where
  "set_errno e st = adv (world st) e [] st"

definition upd :: "(ftp_session \<Rightarrow> ftp_session) \<Rightarrow> 'w st \<Rightarrow> 'w st" where
  "upd f st = st\<lparr>sess := f (sess st)\<rparr>"

definition set_pool :: "64 word \<Rightarrow> 'w st \<Rightarrow> 'w st" where
  "set_pool m st = st\<lparr>pool := m\<rparr>"

text \<open>\<open>time(NULL)\<close>, and the common \<open>session->last_activity = time(NULL)\<close>.\<close>

definition sys_time :: "'w os \<Rightarrow> 'w st \<Rightarrow> (int \<times> 'w st) ret" where
  "sys_time os st = do { (r, st) \<leftarrow> syscall os Sys_time st; Some (r_ret r, st) }"

definition touch :: "'w os \<Rightarrow> 'w st \<Rightarrow> (unit \<times> 'w st) ret" where
  "touch os st = do {
     (t, st) \<leftarrow> sys_time os st;
     Some ((), upd (\<lambda>s. s\<lparr>last_activity := t\<rparr>) st) }"

text \<open>
  What the code relies on of the documented behaviour of the system calls: a
  resolved path is absolute and has no \<open>..\<close> component, a transfer call never reports more bytes
  than it was asked for, the byte count is the number of bytes delivered, a failed
  read or write leaves a positive error number, and the name of a directory entry has no slash.
  Theorems that need it assume \<open>os_sat os posix\<close>.
\<close>

definition path_components :: "string \<Rightarrow> string list" where
  "path_components p = filter (\<lambda>c. c \<noteq> []) (split_on SLASH p)"

definition no_dotdot :: "string \<Rightarrow> bool" where
  "no_dotdot p \<longleftrightarrow> ''..'' \<notin> set (path_components p)"

definition posix :: "syscall \<Rightarrow> sysres \<Rightarrow> bool" where
  "posix c r \<longleftrightarrow>
    (case c of
       Sys_realpath _ \<Rightarrow> r_ret r \<ge> 0 \<longrightarrow> no_dotdot (r_str r) \<and> take 1 (r_str r) = ''/''
     | Sys_recv _ n \<Rightarrow> r_ret r \<ge> 0 \<longrightarrow> r_ret r = int (length (r_data r)) \<and> length (r_data r) \<le> n
     | Sys_read _ n \<Rightarrow>
         (if r_ret r \<ge> 0 then r_ret r = int (length (r_data r)) \<and> length (r_data r) \<le> n else r_errno r > 0)
     | Sys_send _ bs \<Rightarrow> r_ret r \<le> int (length bs)
     | Sys_write _ bs \<Rightarrow> r_ret r \<le> int (length bs) \<and> (r_ret r < 0 \<longrightarrow> r_errno r > 0)
     | Sys_sendfile _ _ _ n \<Rightarrow> r_ret r \<le> int n
     | Sys_readdir _ \<Rightarrow> r_ret r \<ge> 0 \<longrightarrow> SLASH \<notin> set (r_str r)
     | _ \<Rightarrow> True)"

definition os_sat :: "'w os \<Rightarrow> (syscall \<Rightarrow> sysres \<Rightarrow> bool) \<Rightarrow> bool" where
  "os_sat os A \<longleftrightarrow> (\<forall>w c. A c (fst (os w c)))"

text \<open>
  Quiet calls read or tune something: they move no data, create or close no
  descriptor and name no file they change.
\<close>

definition quiet :: "event \<Rightarrow> bool" where
  "quiet e \<longleftrightarrow>
    (case fst e of
       Sys_time \<Rightarrow> True | Sys_usleep _ \<Rightarrow> True | Sys_clock \<Rightarrow> True
     | Sys_gettimeofday \<Rightarrow> True
     | Sys_stat _ \<Rightarrow> True | Sys_realpath _ \<Rightarrow> True | Sys_fstat _ \<Rightarrow> True
     | Sys_fdatasync _ \<Rightarrow> True | Sys_bind _ _ \<Rightarrow> True | Sys_listen _ _ \<Rightarrow> True
     | Sys_connect _ _ \<Rightarrow> True | Sys_getsockname _ \<Rightarrow> True | Sys_select _ _ _ \<Rightarrow> True
     | Sys_setsockopt _ _ _ \<Rightarrow> True | Sys_getsockopt _ _ \<Rightarrow> True
     | Sys_malloc _ \<Rightarrow> True | Sys_copy_running \<Rightarrow> True | Sys_join_copy \<Rightarrow> True | Sys_sched \<Rightarrow> True
     | Sys_writer_thread \<Rightarrow> True | Sys_reader_thread \<Rightarrow> True | Sys_accept_thread \<Rightarrow> True
     | Sys_mutex_init \<Rightarrow> True | Sys_fadvise _ \<Rightarrow> True | Sys_statvfs _ \<Rightarrow> True | Sys_getpid \<Rightarrow> True
     | Sys_getfl _ \<Rightarrow> True | Sys_setfl _ _ \<Rightarrow> True
     | _ \<Rightarrow> False)"

text \<open>The bytes the peer of a socket, or a file, was given by the calls of a trace.\<close>

fun ev_sent :: "int \<Rightarrow> event \<Rightarrow> byte list" where
  "ev_sent fd (c, r) =
    (case c of Sys_send fd' bs \<Rightarrow> if fd' = fd then take (nat (r_ret r)) bs else [] | _ \<Rightarrow> [])"

fun ev_written :: "int \<Rightarrow> event \<Rightarrow> byte list" where
  "ev_written fd (c, r) =
    (case c of Sys_write fd' bs \<Rightarrow> if fd' = fd then take (nat (r_ret r)) bs else [] | _ \<Rightarrow> [])"

definition sent_to :: "int \<Rightarrow> event list \<Rightarrow> byte list" where
  "sent_to fd t = concat (map (ev_sent fd) t)"

definition written_to :: "int \<Rightarrow> event list \<Rightarrow> byte list" where
  "written_to fd t = concat (map (ev_written fd) t)"

text \<open>
  A scripted operating system for concrete runs: the world is the list of the
  results still to be returned.  A result that breaks the contract \<open>posix\<close>, and an
  exhausted script, become a failure with \<open>EIO\<close>.
\<close>

definition io_res :: "int \<Rightarrow> sysres" where
  "io_res n = \<lparr>r_ret = n, r_errno = EIO, r_data = [], r_str = [],
               r_stat = \<lparr>st_mode = 0, st_size = 0, st_mtime = 0\<rparr>,
               r_addr = \<lparr>sin_addr = 0, sin_port = 0\<rparr>, r_vfs = (0, 0)\<rparr>"

fun script_os :: "sysres list os" where
  "script_os [] c = (io_res (-1), [])"
| "script_os (r # rs) c = (if posix c r then r else io_res (-1), rs)"

text \<open>The structure after \<open>memset(session, 0, sizeof(*session))\<close>.\<close>

definition zero_session :: ftp_session where
  "zero_session =
    \<lparr>ctrl_fd = 0, ctrl_addr = \<lparr>sin_addr = 0, sin_port = 0\<rparr>, data_fd = 0, pasv_fd = 0,
     data_addr = \<lparr>sin_addr = 0, sin_port = 0\<rparr>, data_mode = FTP_DATA_MODE_NONE,
     sstate = FTP_STATE_INIT, transfer_type = FTP_TYPE_ASCII, transfer_mode = FTP_MODE_STREAM,
     file_structure = FTP_STRU_FILE, restart_offset = 0, root_path = [], cwd = [],
     rename_from = [], copy_from = [], copy_in_progress = False, copy_thread_valid = False, copy_is_move = False,
     auth_attempts = 0, authenticated = False, user_ok = False, ctrl_rxbuf = [],
     ctrl_rx_len = 0, ctrl_rx_off = 0, session_id = 0, connect_time = 0, last_activity = 0,
     rl_tokens = 0, rl_last_ns = 0,
     crypto = \<lparr>cstate = replicate 16 0, keystream = replicate 64 0, ks_offset = 0,
               active = 0, counter = 0\<rparr>,
     client_ip = [], client_port = 0,
     stats = \<lparr>bytes_sent = 0, bytes_received = 0, files_sent = 0, files_received = 0,
              commands_processed = 0, errors = 0\<rparr>\<rparr>"

text \<open>A program state at the start of a run.\<close>

definition start_st :: "'w \<Rightarrow> ftp_session \<Rightarrow> 'w st" where
  "start_st w s = \<lparr>world = w, errno = 0, trace = [], sess = s, pool = 0\<rparr>"

section \<open>Lemmas\<close>

lemma io_res_fields [simp]:
  "r_ret (io_res n) = n" "r_errno (io_res n) = EIO" "r_data (io_res n) = []" "r_str (io_res n) = []"
  by (simp_all add: io_res_def)

lemma posix_io_fail [simp]: "posix c (io_res (-1))"
  by (simp add: posix_def io_res_def split: syscall.split)

lemma script_os_posix [simp]: "os_sat script_os posix"
proof -
  have "posix c (fst (script_os w c))" for w c
    by (cases w) simp_all
  then show ?thesis by (simp add: os_sat_def)
qed

lemma start_st_simps [simp]:
  "world (start_st w s) = w" "errno (start_st w s) = 0" "trace (start_st w s) = []"
  "sess (start_st w s) = s" "pool (start_st w s) = 0"
  by (simp_all add: start_st_def)

lemma adv_simps [simp]:
  "world (adv w e t st) = w" "errno (adv w e t st) = e" "trace (adv w e t st) = trace st @ t"
  "sess (adv w e t st) = sess st" "pool (adv w e t st) = pool st"
  by (simp_all add: adv_def)

lemma upd_simps [simp]:
  "world (upd f st) = world st" "errno (upd f st) = errno st" "trace (upd f st) = trace st"
  "sess (upd f st) = f (sess st)" "pool (upd f st) = pool st"
  by (simp_all add: upd_def)

lemma set_pool_simps [simp]:
  "world (set_pool m st) = world st" "errno (set_pool m st) = errno st"
  "trace (set_pool m st) = trace st" "sess (set_pool m st) = sess st" "pool (set_pool m st) = m"
  by (simp_all add: set_pool_def)

lemma set_errno_simps [simp]:
  "world (set_errno e st) = world st" "errno (set_errno e st) = e"
  "trace (set_errno e st) = trace st" "sess (set_errno e st) = sess st"
  "pool (set_errno e st) = pool st"
  by (simp_all add: set_errno_def)

lemma adv_adv [simp]: "adv w e t (adv w' e' t' st) = adv w e (t' @ t) st"
  by (simp add: adv_def)

lemma upd_adv [simp]: "upd f (adv w e t st) = adv w e t (upd f st)"
  by (simp add: adv_def upd_def)

lemma upd_upd [simp]: "upd f (upd g st) = upd (\<lambda>s. f (g s)) st"
  by (simp add: upd_def)

lemma set_pool_adv [simp]: "set_pool m (adv w e t st) = adv w e t (set_pool m st)"
  by (simp add: adv_def set_pool_def)

lemma set_pool_set_pool [simp]: "set_pool m (set_pool n st) = set_pool m st"
  by (simp add: set_pool_def)

lemma set_pool_same [simp]: "set_pool (pool st) st = st"
  by (simp add: set_pool_def)

lemma set_pool_same_upd [simp]: "set_pool (pool st) (upd f st) = upd f st"
  by (simp add: set_pool_def upd_def)

lemma upd_set_pool [simp]: "upd f (set_pool m st) = set_pool m (upd f st)"
  by (simp add: upd_def set_pool_def)

lemma set_errno_adv [simp]: "set_errno e (adv w e' t st) = adv w e t st"
  by (simp add: set_errno_def)

lemma adv_same [simp]: "w = world st \<Longrightarrow> e = errno st \<Longrightarrow> adv w e [] st = st"
  by (simp add: adv_def)

lemma post_syscall [wp]:
  "(\<And>r w. Q r (adv w (if r_ret r < 0 then r_errno r else errno st) [(c, r)] st)) \<Longrightarrow>
   post (syscall os c st) Q"
  by (auto simp: syscall_def post_def split: prod.splits)

lemma post_syscall_sat:
  assumes "os_sat os A"
    and "\<And>r w. A c r \<Longrightarrow> Q r (adv w (if r_ret r < 0 then r_errno r else errno st) [(c, r)] st)"
  shows "post (syscall os c st) Q"
proof (cases "os (world st) c")
  case (Pair r w)
  moreover have "A c r" using assms(1) Pair unfolding os_sat_def by (metis fst_conv)
  ultimately show ?thesis using assms(2) by (simp add: syscall_def post_def)
qed

lemma sent_to_simps [simp]:
  "sent_to fd [] = []" "sent_to fd (a @ b) = sent_to fd a @ sent_to fd b"
  "sent_to fd (e # t) = ev_sent fd e @ sent_to fd t"
  by (simp_all add: sent_to_def)

lemma written_to_simps [simp]:
  "written_to fd [] = []" "written_to fd (a @ b) = written_to fd a @ written_to fd b"
  "written_to fd (e # t) = ev_written fd e @ written_to fd t"
  by (simp_all add: written_to_def)

lemma quiet_moves_nothing:
  "quiet e \<Longrightarrow> ev_sent fd e = []" "quiet e \<Longrightarrow> ev_written fd e = []"
  by (cases e; simp add: quiet_def split: syscall.splits)+

lemma quiet_trace:
  "list_all quiet t \<Longrightarrow> sent_to fd t = []" "list_all quiet t \<Longrightarrow> written_to fd t = []"
  by (induction t) (auto simp: quiet_moves_nothing)

lemma post_sys_time [wp]:
  "(\<And>t w e tr. list_all quiet tr \<Longrightarrow> Q t (adv w e tr st)) \<Longrightarrow> post (sys_time os st) Q"
  unfolding sys_time_def by (intro wp) (simp add: quiet_def)

lemma post_touch_time:
  "(\<And>t w e q. Q () (adv w e [(Sys_time, q)] (upd (\<lambda>s. s\<lparr>last_activity := t\<rparr>) st))) \<Longrightarrow> post (touch os st) Q"
  unfolding touch_def sys_time_def by (intro wp) simp

lemma post_touch [wp]:
  "(\<And>t w e tr. list_all quiet tr \<Longrightarrow>
      Q () (adv w e tr (upd (\<lambda>s. s\<lparr>last_activity := t\<rparr>) st))) \<Longrightarrow> post (touch os st) Q"
  unfolding touch_def by (intro wp) simp

lemma reply_num_range: "150 \<le> reply_num c \<and> reply_num c \<le> 553"
  by (cases c) simp_all

lemma err_code_nonpos: "err_code e \<le> 0"
  by (cases e) simp_all

end
