(* ===== verification/Os_Trace.thy ===== *)
theory Os_Trace
  imports Ftp_Types
begin

text \<open>
  Reading the trace of system calls: which descriptors it opened and closed, which
  calls name a path, and what the transfer loops of the platform layer have in
  common.  Such a loop repeats a call that moves a prefix of what is left until the
  buffer is empty or the call fails.  The locale \<open>transfer\<close> is the view of the events
  such a loop makes; the socket loop and the file loop interpret it.
\<close>

text \<open>One state is another after some calls whose events satisfy \<open>P\<close>.\<close>

definition advances :: "(event list \<Rightarrow> bool) \<Rightarrow> 'w st \<Rightarrow> 'w st \<Rightarrow> bool" where
  "advances P st st' \<longleftrightarrow> (\<exists>w e t. st' = adv w e t st \<and> P t)"

lemma advancesI: "P t \<Longrightarrow> advances P st (adv w e t st)"
  unfolding advances_def by blast

lemma advances_refl: "P [] \<Longrightarrow> advances P st st"
  using advancesI [of P "[]" st "world st" "errno st"] by simp

lemma advancesE:
  assumes "advances P st st'"
  obtains w e t where "st' = adv w e t st" "P t"
  using assms unfolding advances_def by blast

lemma advances_adv:
  assumes "advances P' (adv w e t st) st'" "\<And>t'. P' t' \<Longrightarrow> P (t @ t')"
  shows "advances P st st'"
  using assms(1) by (rule advancesE) (simp add: advancesI assms(2))

section \<open>Descriptors and paths\<close>

datatype handle = Fd int | Dir int

text \<open>
  The change a call makes to the number of times a handle is open: \<open>open\<close>, \<open>socket\<close>,
  \<open>accept\<close> and \<open>opendir\<close> add one when they succeed, \<open>close\<close> and \<open>closedir\<close> take one.
\<close>

fun ev_bal :: "handle \<Rightarrow> event \<Rightarrow> int" where
  "ev_bal h (c, r) =
    (case c of
       Sys_open _ _ _ \<Rightarrow> of_bool (0 \<le> r_ret r \<and> h = Fd (r_ret r))
     | Sys_socket \<Rightarrow> of_bool (0 \<le> r_ret r \<and> h = Fd (r_ret r))
     | Sys_accept _ \<Rightarrow> of_bool (0 \<le> r_ret r \<and> h = Fd (r_ret r))
     | Sys_opendir _ \<Rightarrow> of_bool (0 \<le> r_ret r \<and> h = Dir (r_ret r))
     | Sys_close fd \<Rightarrow> - of_bool (h = Fd fd)
     | Sys_closedir d \<Rightarrow> - of_bool (h = Dir d)
     | _ \<Rightarrow> 0)"

definition bal :: "handle \<Rightarrow> event list \<Rightarrow> int" where
  "bal h t = sum_list (map (ev_bal h) t)"

text \<open>The paths a call opens or changes, and the paths it only looks at.\<close>

fun ev_paths :: "event \<Rightarrow> string list" where
  "ev_paths (c, r) =
    (case c of
       Sys_open p _ _ \<Rightarrow> [p] | Sys_unlink p \<Rightarrow> [p] | Sys_rmdir p \<Rightarrow> [p] | Sys_mkdir p _ \<Rightarrow> [p]
     | Sys_rename p q \<Rightarrow> [p, q] | Sys_opendir p \<Rightarrow> [p] | Sys_copy_thread p q _ \<Rightarrow> [p, q]
     | _ \<Rightarrow> [])"

text \<open>All paths a call names, also those it only looks at.\<close>

fun ev_names :: "event \<Rightarrow> string list" where
  "ev_names (c, r) =
    (case c of
       Sys_stat p \<Rightarrow> [p] | Sys_realpath p \<Rightarrow> [p] | Sys_statvfs p \<Rightarrow> [p]
     | _ \<Rightarrow> ev_paths (c, r))"

text \<open>Events that name no path and leave every descriptor as it was.\<close>

definition neutral :: "event list \<Rightarrow> bool" where
  "neutral t \<longleftrightarrow> list_all (\<lambda>e. ev_paths e = []) t \<and> (\<forall>h. bal h t = 0)"

lemma bal_simps [simp]:
  "bal h [] = 0" "bal h (e # t) = ev_bal h e + bal h t" "bal h (a @ b) = bal h a + bal h b"
  by (simp_all add: bal_def)

lemma neutralD:
  "neutral t \<Longrightarrow> bal h t = 0" "neutral t \<Longrightarrow> list_all (\<lambda>e. ev_paths e = []) t"
  by (simp_all add: neutral_def)

lemma neutral_Nil [simp]: "neutral []"
  by (simp add: neutral_def)

lemma neutral_append: "neutral a \<Longrightarrow> neutral b \<Longrightarrow> neutral (a @ b)"
  by (simp add: neutral_def)

lemma neutral_Cons: "ev_paths e = [] \<Longrightarrow> (\<And>h. ev_bal h e = 0) \<Longrightarrow> neutral t \<Longrightarrow> neutral (e # t)"
  by (simp add: neutral_def)

lemma quiet_event: "quiet e \<Longrightarrow> ev_paths e = []" "quiet e \<Longrightarrow> ev_bal h e = 0"
  by (cases e; simp add: quiet_def split: syscall.splits)+

lemma quiet_neutral: "list_all quiet t \<Longrightarrow> neutral t"
  by (induction t) (simp_all add: neutral_Cons quiet_event)

text \<open>Calls that move bytes or a file position, and the bytes that came in from a descriptor.\<close>

fun ev_moves :: "event \<Rightarrow> bool" where
  "ev_moves (c, r) \<longleftrightarrow>
    (case c of
       Sys_send _ _ \<Rightarrow> True | Sys_recv _ _ \<Rightarrow> True | Sys_read _ _ \<Rightarrow> True | Sys_write _ _ \<Rightarrow> True
     | Sys_sendfile _ _ _ _ \<Rightarrow> True | Sys_lseek _ _ \<Rightarrow> True | _ \<Rightarrow> False)"

fun ev_received :: "int \<Rightarrow> event \<Rightarrow> byte list" where
  "ev_received fd (c, r) =
    (case c of Sys_recv fd' n \<Rightarrow> if fd' = fd \<and> 0 < r_ret r then r_data r else [] | _ \<Rightarrow> [])"

fun ev_read :: "int \<Rightarrow> event \<Rightarrow> byte list" where
  "ev_read fd (c, r) =
    (case c of Sys_read fd' n \<Rightarrow> if fd' = fd \<and> 0 < r_ret r then r_data r else [] | _ \<Rightarrow> [])"

definition received_from :: "int \<Rightarrow> event list \<Rightarrow> byte list" where
  "received_from fd t = concat (map (ev_received fd) t)"

definition read_from :: "int \<Rightarrow> event list \<Rightarrow> byte list" where
  "read_from fd t = concat (map (ev_read fd) t)"

text \<open>
  All receiving was on the socket \<open>fd\<close>; the peer of \<open>fd\<close> has closed its side; \<open>fd\<close> is a socket that was
  created or accepted.
\<close>

definition recv_only :: "int \<Rightarrow> event list \<Rightarrow> bool" where
  "recv_only fd t \<longleftrightarrow> list_all (\<lambda>(c, r). case c of Sys_recv x n \<Rightarrow> x = fd | _ \<Rightarrow> True) t"

definition peer_closed :: "int \<Rightarrow> event list \<Rightarrow> bool" where
  "peer_closed fd t \<longleftrightarrow> list_ex (\<lambda>(c, r). case c of Sys_recv x n \<Rightarrow> x = fd \<and> r_ret r = 0 | _ \<Rightarrow> False) t"

definition socket_opened :: "int \<Rightarrow> event list \<Rightarrow> bool" where
  "socket_opened fd t \<longleftrightarrow>
    list_ex (\<lambda>(c, r). case c of Sys_socket \<Rightarrow> r_ret r = fd | Sys_accept x \<Rightarrow> r_ret r = fd | _ \<Rightarrow> False) t"

text \<open>Events that may name the paths \<open>ps\<close> but move nothing and leave no descriptor open.\<close>

definition touches :: "string list \<Rightarrow> event list \<Rightarrow> bool" where
  "touches ps t \<longleftrightarrow>
    list_all (\<lambda>e. set (ev_paths e) \<subseteq> set ps \<and> \<not> ev_moves e) t \<and> (\<forall>h. bal h t = 0)"

lemma received_from_simps [simp]:
  "received_from fd [] = []" "received_from fd (a @ b) = received_from fd a @ received_from fd b"
  "received_from fd (e # t) = ev_received fd e @ received_from fd t"
  by (simp_all add: received_from_def)

lemma read_from_simps [simp]:
  "read_from fd [] = []" "read_from fd (a @ b) = read_from fd a @ read_from fd b"
  "read_from fd (e # t) = ev_read fd e @ read_from fd t"
  by (simp_all add: read_from_def)

lemma recv_only_simps [simp]:
  "recv_only fd []" "recv_only fd (a @ b) \<longleftrightarrow> recv_only fd a \<and> recv_only fd b"
  "recv_only fd ((c, r) # t) \<longleftrightarrow> (case c of Sys_recv x n \<Rightarrow> x = fd | _ \<Rightarrow> True) \<and> recv_only fd t"
  by (simp_all add: recv_only_def)

lemma peer_closed_simps [simp]:
  "\<not> peer_closed fd []" "peer_closed fd (a @ b) \<longleftrightarrow> peer_closed fd a \<or> peer_closed fd b"
  "peer_closed fd ((c, r) # t) \<longleftrightarrow> (case c of Sys_recv x n \<Rightarrow> x = fd \<and> r_ret r = 0 | _ \<Rightarrow> False) \<or> peer_closed fd t"
  by (simp_all add: peer_closed_def)

lemma socket_opened_simps [simp]:
  "\<not> socket_opened fd []" "socket_opened fd (a @ b) \<longleftrightarrow> socket_opened fd a \<or> socket_opened fd b"
  "socket_opened fd ((c, r) # t) \<longleftrightarrow>
    (case c of Sys_socket \<Rightarrow> r_ret r = fd | Sys_accept x \<Rightarrow> r_ret r = fd | _ \<Rightarrow> False) \<or> socket_opened fd t"
  by (simp_all add: socket_opened_def)

lemma still_recv_only: "list_all (\<lambda>e. \<not> ev_moves e) t \<Longrightarrow> recv_only fd t"
  unfolding recv_only_def by (induction t) (auto split: syscall.splits)

lemma still_event:
  "\<not> ev_moves e \<Longrightarrow> ev_sent fd e = []" "\<not> ev_moves e \<Longrightarrow> ev_written fd e = []"
  "\<not> ev_moves e \<Longrightarrow> ev_received fd e = []" "\<not> ev_moves e \<Longrightarrow> ev_read fd e = []"
  by (cases e; simp split: syscall.splits)+

lemma still_trace:
  "list_all (\<lambda>e. \<not> ev_moves e) t \<Longrightarrow> sent_to fd t = []"
  "list_all (\<lambda>e. \<not> ev_moves e) t \<Longrightarrow> written_to fd t = []"
  "list_all (\<lambda>e. \<not> ev_moves e) t \<Longrightarrow> received_from fd t = []"
  "list_all (\<lambda>e. \<not> ev_moves e) t \<Longrightarrow> read_from fd t = []"
  by (induction t) (simp_all add: still_event)

lemma touchesD:
  assumes "touches ps t"
  shows "bal h t = 0" "list_all (\<lambda>e. set (ev_paths e) \<subseteq> set ps) t"
    "sent_to fd t = []" "written_to fd t = []" "received_from fd t = []" "read_from fd t = []"
  using assms by (auto simp: touches_def list_all_iff intro!: still_trace)

lemma quiet_still: "quiet e \<Longrightarrow> \<not> ev_moves e"
  by (cases e) (auto simp: quiet_def split: syscall.splits)

lemma quiet_touches: "list_all quiet t \<Longrightarrow> touches ps t"
  by (induction t) (simp_all add: touches_def quiet_event quiet_still)

lemma quiet_recv_only: "list_all quiet t \<Longrightarrow> recv_only fd t"
  by (rule still_recv_only) (simp add: list_all_iff quiet_still)

lemma touches_Nil [simp]: "touches ps []"
  by (simp add: touches_def)

lemma touches_neutral: "touches [] t \<Longrightarrow> neutral t"
  by (auto simp: touches_def neutral_def list_all_iff)

section \<open>Transfer loops\<close>

text \<open>
  The result of a loop over the buffer \<open>rest\<close> that has moved \<open>tot\<close> bytes already:
  all its events are of the kind \<open>ok\<close>, the bytes they moved are a prefix of
  \<open>rest\<close>, and the result is either -1 or the full count with all of \<open>rest\<close> moved.
\<close>

definition xfer_post ::
  "(event \<Rightarrow> bool) \<Rightarrow> (event list \<Rightarrow> byte list) \<Rightarrow> byte list \<Rightarrow> nat \<Rightarrow> 'w st \<Rightarrow> int \<Rightarrow> 'w st \<Rightarrow> bool" where
  "xfer_post ok out rest tot st r st' \<longleftrightarrow>
    (\<exists>w e t. st' = adv w e t st \<and> list_all ok t \<and> prefix (out t) rest \<and>
      (r = -1 \<or> r = int (tot + length rest) \<and> out t = rest))"

lemma xfer_postE:
  assumes "xfer_post ok out rest tot st r st'"
  obtains w e t where "st' = adv w e t st" "list_all ok t" "prefix (out t) rest"
    "r = -1 \<or> r = int (tot + length rest) \<and> out t = rest"
  using assms unfolding xfer_post_def by blast

text \<open>
  A call is made again after \<open>EINTR\<close> and \<open>EAGAIN\<close>.  The loops return when only finitely
  many calls are answered that way: some measure of the world goes down with each of
  them and never goes up.
\<close>

definition retry_bound :: "'w os \<Rightarrow> ('w \<Rightarrow> nat) \<Rightarrow> bool" where
  "retry_bound os \<mu> \<longleftrightarrow>
    (\<forall>w c r w'. os w c = (r, w') \<longrightarrow>
      \<mu> w' \<le> \<mu> w \<and> (r_ret r < 0 \<and> (r_errno r = EINTR \<or> r_errno r = EAGAIN) \<longrightarrow> \<mu> w' < \<mu> w))"

lemma script_retry_bound: "retry_bound script_os length"
proof -
  have "length w' \<le> length w \<and>
      (r_ret r < 0 \<and> (r_errno r = EINTR \<or> r_errno r = EAGAIN) \<longrightarrow> length w' < length w)"
    if "script_os w c = (r, w')" for w c r w'
    using that by (cases w) (auto simp: io_res_def)
  then show ?thesis unfolding retry_bound_def by blast
qed

locale transfer =
  fixes ok :: "event \<Rightarrow> bool"
    and out :: "event list \<Rightarrow> byte list"
  assumes out_Nil [simp]: "out [] = []"
    and out_append [simp]: "out (t @ t') = out t @ out t'"
begin

lemma finished: "xfer_post ok out [] tot st (int tot) st"
  unfolding xfer_post_def
  by (rule exI [of _ "world st"], rule exI [of _ "errno st"], rule exI [of _ "[]"]) simp

lemma stop:
  "list_all ok t \<Longrightarrow> prefix (out t) rest \<Longrightarrow> xfer_post ok out rest tot st (-1) (adv w e t st)"
  unfolding xfer_post_def by blast

lemma step:
  assumes "xfer_post ok out rest' tot' (adv w e t st) r st'" "list_all ok t"
    "rest = out t @ rest'" "tot' = tot + length (out t)"
  shows "xfer_post ok out rest tot st r st'"
proof -
  obtain w' e' t' where t': "st' = adv w' e' t' (adv w e t st)" "list_all ok t'"
    "prefix (out t') rest'" "r = -1 \<or> r = int (tot' + length rest') \<and> out t' = rest'"
    using assms(1) by (rule xfer_postE)
  then show ?thesis
    unfolding xfer_post_def using assms(2-4)
    by (intro exI [of _ w'] exI [of _ e'] exI [of _ "t @ t'"]) auto
qed

end

end
