(* ===== verification/Pal_Fileio.thy ===== *)
theory Pal_Fileio
  imports Os_Trace
begin

text \<open>
  Model of the file part of the platform layer: the wrappers of
  \<^verbatim>\<open>src/src/pal_fileio.c\<close> with their mapping from \<open>errno\<close> to error codes, the
  write loop, \<open>sendfile\<close> for Linux, and the node layer of
  \<^verbatim>\<open>src/src/pal_filesystem.c\<close>.  The recursive copy and move are in
  \<open>Pal_Copy\<close>.
\<close>

section \<open>Definitions\<close>

definition S_IFMT :: "32 word" where "S_IFMT = 0xF000"
definition S_IFDIR :: "32 word" where "S_IFDIR = 0x4000"
definition S_IFREG :: "32 word" where "S_IFREG = 0x8000"

definition is_dir_mode :: "32 word \<Rightarrow> bool" where
  "is_dir_mode m \<longleftrightarrow> and m S_IFMT = S_IFDIR"

definition is_reg_mode :: "32 word \<Rightarrow> bool" where
  "is_reg_mode m \<longleftrightarrow> and m S_IFMT = S_IFREG"

definition pal_file_open ::
  "'w os \<Rightarrow> string \<Rightarrow> open_flag list \<Rightarrow> nat \<Rightarrow> 'w st \<Rightarrow> (int \<times> 'w st) ret" where
  "pal_file_open os path flags mode st =
    (if length path \<ge> FTP_PATH_MAX
     then Some (err_code FTP_ERR_PATH_TOO_LONG, set_errno ENAMETOOLONG st)
     else do {
       (r, st) \<leftarrow> syscall os (Sys_open path flags mode) st;
       if r_ret r < 0 then
         Some (err_code (if errno st = ENOENT then FTP_ERR_NOT_FOUND
                         else if errno st = EACCES \<or> errno st = EPERM then FTP_ERR_PERMISSION
                         else if errno st = EMFILE \<or> errno st = ENFILE then FTP_ERR_OUT_OF_MEMORY
                         else FTP_ERR_FILE_OPEN), st)
       else Some (r_ret r, st) })"

definition pal_file_close :: "'w os \<Rightarrow> int \<Rightarrow> 'w st \<Rightarrow> (ftp_error \<times> 'w st) ret" where
  "pal_file_close os fd st =
    (if fd < 0 then Some (FTP_ERR_INVALID_PARAM, st)
     else do {
       (r, st) \<leftarrow> syscall os (Sys_close fd) st;
       if r_ret r < 0 \<and> errno st \<noteq> EINTR then Some (FTP_ERR_FILE_WRITE, st)
       else Some (FTP_OK, st) })"

definition pal_file_stat :: "'w os \<Rightarrow> string \<Rightarrow> 'w st \<Rightarrow> ((ftp_error + fstat) \<times> 'w st) ret" where
  "pal_file_stat os path st = do {
     (r, st) \<leftarrow> syscall os (Sys_stat path) st;
     if r_ret r < 0 then
       Some (Inl (if errno st = ENOENT then FTP_ERR_NOT_FOUND
                  else if errno st = EACCES then FTP_ERR_PERMISSION
                  else FTP_ERR_FILE_STAT), st)
     else Some (Inr (r_stat r), st) }"

definition pal_file_fstat :: "'w os \<Rightarrow> int \<Rightarrow> 'w st \<Rightarrow> ((ftp_error + fstat) \<times> 'w st) ret" where
  "pal_file_fstat os fd st =
    (if fd < 0 then Some (Inl FTP_ERR_INVALID_PARAM, st)
     else do {
       (r, st) \<leftarrow> syscall os (Sys_fstat fd) st;
       if r_ret r < 0 then Some (Inl FTP_ERR_FILE_STAT, st) else Some (Inr (r_stat r), st) })"

text \<open>\<open>pal_file_read\<close> returns the count and the bytes stored in the buffer.\<close>

definition pal_file_read :: "'w os \<Rightarrow> int \<Rightarrow> nat \<Rightarrow> 'w st \<Rightarrow> ((int \<times> byte list) \<times> 'w st) ret" where
  "pal_file_read os fd count st =
    (if fd < 0 \<or> count = 0 then Some ((-1, []), set_errno EINVAL st)
     else do {
       (r, st) \<leftarrow> syscall os (Sys_read fd count) st;
       Some ((r_ret r, r_data r), st) })"

definition pal_file_write :: "'w os \<Rightarrow> int \<Rightarrow> byte list \<Rightarrow> 'w st \<Rightarrow> (int \<times> 'w st) ret" where
  "pal_file_write os fd buf st =
    (if fd < 0 \<or> buf = [] then Some (-1, set_errno EINVAL st)
     else do { (r, st) \<leftarrow> syscall os (Sys_write fd buf) st; Some (r_ret r, st) })"

text \<open>
  The loop of \<open>pal_file_write_all\<close>: \<open>rest\<close> is the buffer from \<open>p + total\<close> on.
  It does not end if every \<open>write\<close> is interrupted.
\<close>

partial_function (option) write_all_loop ::
  "'w os \<Rightarrow> int \<Rightarrow> byte list \<Rightarrow> nat \<Rightarrow> 'w st \<Rightarrow> (int \<times> 'w st) ret" where
  "write_all_loop os fd rest tot st =
    (if rest = [] then Some (int tot, st)
     else do {
       (r, st) \<leftarrow> syscall os (Sys_write fd (take PAL_FILE_WRITE_CHUNK_MAX rest)) st;
       if r_ret r > 0
       then write_all_loop os fd (drop (nat (r_ret r)) rest) (tot + nat (r_ret r)) st
       else if r_ret r = 0 then Some (-1, set_errno ENOSPC st)
       else if errno st = EINTR then write_all_loop os fd rest tot st
       else Some (-1, st) })"

definition pal_file_write_all :: "'w os \<Rightarrow> int \<Rightarrow> byte list \<Rightarrow> 'w st \<Rightarrow> (int \<times> 'w st) ret" where
  "pal_file_write_all os fd buf st =
    (if fd < 0 \<or> buf = [] then Some (-1, set_errno EINVAL st)
     else write_all_loop os fd buf 0 st)"

definition pal_file_seek :: "'w os \<Rightarrow> int \<Rightarrow> int \<Rightarrow> 'w st \<Rightarrow> (int \<times> 'w st) ret" where
  "pal_file_seek os fd off st =
    (if fd < 0 then Some (-1, set_errno EINVAL st)
     else do { (r, st) \<leftarrow> syscall os (Sys_lseek fd off) st; Some (r_ret r, st) })"

definition pal_file_truncate :: "'w os \<Rightarrow> int \<Rightarrow> int \<Rightarrow> 'w st \<Rightarrow> (ftp_error \<times> 'w st) ret" where
  "pal_file_truncate os fd len st =
    (if fd < 0 \<or> len < 0 then Some (FTP_ERR_INVALID_PARAM, st)
     else do {
       (r, st) \<leftarrow> syscall os (Sys_ftruncate fd len) st;
       if r_ret r < 0 then Some (FTP_ERR_FILE_WRITE, st) else Some (FTP_OK, st) })"

definition pal_file_delete :: "'w os \<Rightarrow> string \<Rightarrow> 'w st \<Rightarrow> (ftp_error \<times> 'w st) ret" where
  "pal_file_delete os path st = do {
     (r, st) \<leftarrow> syscall os (Sys_unlink path) st;
     if r_ret r < 0 then
       Some (if errno st = ENOENT then FTP_ERR_NOT_FOUND
             else if errno st = EACCES \<or> errno st = EPERM then FTP_ERR_PERMISSION
             else if errno st = EISDIR then FTP_ERR_INVALID_PARAM
             else FTP_ERR_FILE_WRITE, st)
     else Some (FTP_OK, st) }"

definition pal_file_rename :: "'w os \<Rightarrow> string \<Rightarrow> string \<Rightarrow> 'w st \<Rightarrow> (ftp_error \<times> 'w st) ret" where
  "pal_file_rename os old new st = do {
     (r, st) \<leftarrow> syscall os (Sys_rename old new) st;
     if r_ret r < 0 then
       Some (if errno st = ENOENT then FTP_ERR_NOT_FOUND
             else if errno st = EACCES \<or> errno st = EPERM then FTP_ERR_PERMISSION
             else if errno st = EXDEV then FTP_ERR_CROSS_DEVICE
             else FTP_ERR_FILE_WRITE, st)
     else Some (FTP_OK, st) }"

definition pal_dir_create :: "'w os \<Rightarrow> string \<Rightarrow> nat \<Rightarrow> 'w st \<Rightarrow> (ftp_error \<times> 'w st) ret" where
  "pal_dir_create os path mode st = do {
     (r, st) \<leftarrow> syscall os (Sys_mkdir path mode) st;
     if r_ret r < 0 then
       Some (if errno st = EEXIST then FTP_ERR_DIR_EXISTS
             else if errno st = EACCES \<or> errno st = EPERM then FTP_ERR_PERMISSION
             else if errno st = ENOENT then FTP_ERR_NOT_FOUND
             else FTP_ERR_FILE_WRITE, st)
     else Some (FTP_OK, st) }"

definition pal_dir_remove :: "'w os \<Rightarrow> string \<Rightarrow> 'w st \<Rightarrow> (ftp_error \<times> 'w st) ret" where
  "pal_dir_remove os path st = do {
     (r, st) \<leftarrow> syscall os (Sys_rmdir path) st;
     if r_ret r < 0 then
       Some (if errno st = ENOENT then FTP_ERR_NOT_FOUND
             else if errno st = EACCES \<or> errno st = EPERM then FTP_ERR_PERMISSION
             else if errno st = ENOTEMPTY \<or> errno st = ENOTDIR then FTP_ERR_INVALID_PARAM
             else FTP_ERR_FILE_WRITE, st)
     else Some (FTP_OK, st) }"

definition pal_path_exists :: "'w os \<Rightarrow> string \<Rightarrow> 'w st \<Rightarrow> (int \<times> 'w st) ret" where
  "pal_path_exists os path st = do {
     (r, st) \<leftarrow> syscall os (Sys_stat path) st;
     if r_ret r = 0 then Some (1, st)
     else if errno st = ENOENT then Some (0, st)
     else Some (err_code FTP_ERR_FILE_STAT, st) }"

definition pal_path_is_directory :: "'w os \<Rightarrow> string \<Rightarrow> 'w st \<Rightarrow> (int \<times> 'w st) ret" where
  "pal_path_is_directory os path st = do {
     (r, st) \<leftarrow> syscall os (Sys_stat path) st;
     if r_ret r < 0 then Some (err_code FTP_ERR_FILE_STAT, st)
     else Some (if is_dir_mode (st_mode (r_stat r)) then 1 else 0, st) }"

definition pal_path_is_file :: "'w os \<Rightarrow> string \<Rightarrow> 'w st \<Rightarrow> (int \<times> 'w st) ret" where
  "pal_path_is_file os path st = do {
     (r, st) \<leftarrow> syscall os (Sys_stat path) st;
     if r_ret r < 0 then Some (err_code FTP_ERR_FILE_STAT, st)
     else Some (if is_reg_mode (st_mode (r_stat r)) then 1 else 0, st) }"

text \<open>
  \<open>pal_sendfile\<close> on Linux: the kernel advances \<open>*offset\<close> by the number of bytes
  it sent.  Returns the count and the new offset.
\<close>

definition pal_sendfile ::
  "'w os \<Rightarrow> int \<Rightarrow> int \<Rightarrow> int \<Rightarrow> nat \<Rightarrow> 'w st \<Rightarrow> ((int \<times> int) \<times> 'w st) ret" where
  "pal_sendfile os sock fd off count st =
    (if sock < 0 \<or> fd < 0 \<or> off < 0 then Some ((-1, off), set_errno EINVAL st)
     else if count = 0 then Some ((0, off), st)
     else do {
       (r, st) \<leftarrow> syscall os (Sys_sendfile sock fd off count) st;
       Some ((r_ret r, (if r_ret r > 0 then off + r_ret r else off)), st) })"

subsection \<open>Nodes\<close>

record vfs_node =
  vn_fd :: int
  vn_size :: "64 word"
  vn_offset :: "64 word"
  vn_sendfile :: bool

definition vfs_stat :: "'w os \<Rightarrow> string \<Rightarrow> 'w st \<Rightarrow> ((ftp_error + fstat) \<times> 'w st) ret" where
  "vfs_stat os path st = pal_file_stat os path st"

definition vfs_open :: "'w os \<Rightarrow> string \<Rightarrow> 'w st \<Rightarrow> ((ftp_error + vfs_node) \<times> 'w st) ret" where
  "vfs_open os path st = do {
     (fd, st) \<leftarrow> pal_file_open os path [O_RDONLY] 0 st;
     if fd < 0 then Some (Inl FTP_ERR_FILE_OPEN, st)
     else do {
       (s, st) \<leftarrow> pal_file_fstat os fd st;
       case s of
         Inl _ \<Rightarrow> do { (_, st) \<leftarrow> pal_file_close os fd st; Some (Inl FTP_ERR_FILE_STAT, st) }
       | Inr s \<Rightarrow> Some (Inr \<lparr>vn_fd = fd, vn_size = st_size s, vn_offset = 0, vn_sendfile = True\<rparr>, st) } }"

definition vfs_close :: "'w os \<Rightarrow> vfs_node \<Rightarrow> 'w st \<Rightarrow> (vfs_node \<times> 'w st) ret" where
  "vfs_close os node st =
    (if vn_fd node \<ge> 0
     then do { (_, st) \<leftarrow> pal_file_close os (vn_fd node) st; Some (node\<lparr>vn_fd := -1\<rparr>, st) }
     else Some (node, st))"

definition vfs_set_offset :: "'w os \<Rightarrow> vfs_node \<Rightarrow> 64 word \<Rightarrow> 'w st \<Rightarrow> (vfs_node \<times> 'w st) ret" where
  "vfs_set_offset os node off st =
    (let node = node\<lparr>vn_offset := off\<rparr> in
     if vn_fd node \<ge> 0
     then do { (_, st) \<leftarrow> pal_file_seek os (vn_fd node) (uint off) st; Some (node, st) }
     else Some (node, st))"

definition vfs_read ::
  "'w os \<Rightarrow> vfs_node \<Rightarrow> nat \<Rightarrow> 'w st \<Rightarrow> ((int \<times> byte list \<times> vfs_node) \<times> 'w st) ret" where
  "vfs_read os node len st =
    (if len = 0 then Some ((-1, [], node), set_errno EINVAL st)
     else if vn_fd node < 0 then Some ((-1, [], node), set_errno EBADF st)
     else do {
       ((n, bs), st) \<leftarrow> pal_file_read os (vn_fd node) len st;
       Some ((n, bs, if n > 0 then node\<lparr>vn_offset := vn_offset node + of_int n\<rparr> else node), st) })"

section \<open>Lemmas\<close>

lemma err_code_neg [simp]: "err_code e < 0 \<longleftrightarrow> e \<noteq> FTP_OK"
  by (cases e) simp_all

lemma post_file_open [wp]:
  assumes "\<And>r w e t. r < 0 \<Longrightarrow> touches [path] t \<Longrightarrow> Q r (adv w e t st)"
    and "\<And>res w e. 0 \<le> r_ret res \<Longrightarrow> Q (r_ret res) (adv w e [(Sys_open path flags mode, res)] st)"
  shows "post (pal_file_open os path flags mode st) Q"
  unfolding pal_file_open_def
  by (intro wp) (simp_all add: assms(2) set_errno_def assms(1) touches_def)

lemma post_file_close [wp]:
  assumes "\<And>r. fd < 0 \<Longrightarrow> Q r st"
    and "\<And>r res w e. 0 \<le> fd \<Longrightarrow> Q r (adv w e [(Sys_close fd, res)] st)"
  shows "post (pal_file_close os fd st) Q"
  unfolding pal_file_close_def by (intro wp) (simp_all add: assms)

lemma post_file_stat [wp]:
  assumes "\<And>r w e t. list_all quiet t \<Longrightarrow> Q r (adv w e t st)"
  shows "post (pal_file_stat os path st) Q" "post (vfs_stat os path st) Q"
  unfolding vfs_stat_def pal_file_stat_def by (intro wp; simp add: assms quiet_def)+

lemma post_file_fstat [wp]:
  assumes "\<And>r w e t. list_all quiet t \<Longrightarrow> (fd < 0 \<Longrightarrow> isl r) \<Longrightarrow> Q r (adv w e t st)"
  shows "post (pal_file_fstat os fd st) Q"
  using assms [of "[]" _ "world st" "errno st"] unfolding pal_file_fstat_def
  by (intro wp) (simp_all add: assms quiet_def)

lemma post_path_kind [wp]:
  assumes "\<And>r w e t. list_all quiet t \<Longrightarrow> Q r (adv w e t st)"
  shows "post (pal_path_is_directory os path st) Q" "post (pal_path_is_file os path st) Q"
    "post (pal_path_exists os path st) Q"
  unfolding pal_path_is_directory_def pal_path_is_file_def pal_path_exists_def
  by (intro wp; simp add: assms quiet_def)+

lemma post_file_changes [wp]:
  "(\<And>r res w e. r = FTP_OK \<longleftrightarrow> 0 \<le> r_ret res \<Longrightarrow> Q r (adv w e [(Sys_unlink path, res)] st)) \<Longrightarrow>
    post (pal_file_delete os path st) Q"
  "(\<And>r res w e. r = FTP_OK \<longleftrightarrow> 0 \<le> r_ret res \<Longrightarrow> Q r (adv w e [(Sys_rename path new, res)] st)) \<Longrightarrow>
    post (pal_file_rename os path new st) Q"
  "(\<And>r res w e. r = FTP_OK \<longleftrightarrow> 0 \<le> r_ret res \<Longrightarrow> Q r (adv w e [(Sys_mkdir path mode, res)] st)) \<Longrightarrow>
    post (pal_dir_create os path mode st) Q"
  "(\<And>r res w e. r = FTP_OK \<longleftrightarrow> 0 \<le> r_ret res \<Longrightarrow> Q r (adv w e [(Sys_rmdir path, res)] st)) \<Longrightarrow>
    post (pal_dir_remove os path st) Q"
  unfolding pal_file_delete_def pal_file_rename_def pal_dir_create_def pal_dir_remove_def
  by (intro wp; simp)+

lemma post_seek [wp]:
  assumes "\<And>r w e t. neutral t \<Longrightarrow> Q r (adv w e t st)"
  shows "post (pal_file_seek os fd off st) Q"
  unfolding pal_file_seek_def set_errno_def
  by (intro wp assms) (simp_all add: neutral_Cons)

subsection \<open>The write loop\<close>

definition writes :: "int \<Rightarrow> event \<Rightarrow> bool" where
  "writes fd e \<longleftrightarrow> (case fst e of Sys_write fd' _ \<Rightarrow> fd' = fd | _ \<Rightarrow> False)"

interpretation wr_loop: transfer "writes fd" "written_to fd" for fd
  by unfold_locales simp_all

lemma writes_neutral: "list_all (writes fd) t \<Longrightarrow> neutral t"
proof (induction t)
  case (Cons e t)
  then show ?case by (cases e) (auto simp: writes_def intro!: neutral_Cons split: syscall.splits)
qed simp

lemma writes_only:
  "list_all (writes fd) t \<Longrightarrow> sent_to fd' t = [] \<and> received_from fd' t = [] \<and> read_from fd' t = []"
proof (induction t)
  case (Cons e t)
  then show ?case by (cases e) (auto simp: writes_def split: syscall.splits)
qed simp

lemma write_all_loop_spec:
  assumes sat: "os_sat os posix"
  shows "post (write_all_loop os fd rest tot st) (xfer_post (writes fd) (written_to fd) rest tot st)"
proof (rule postI)
  fix r st' assume ret: "write_all_loop os fd rest tot st = Some (r, st')"
  let ?P = "\<lambda>os fd rest tot st y. os_sat os posix \<longrightarrow>
    xfer_post (writes fd) (written_to fd) rest tot st (fst y) (snd y)"
  have "?P os fd rest tot st (r, st')"
  proof (rule write_all_loop.raw_induct [where P = ?P, OF _ ret], rule impI, goal_cases)
    case (1 loop os fd rest tot st y)
    have IH: "post (loop os fd rest tot st) (xfer_post (writes fd) (written_to fd) rest tot st)"
      for rest tot st
      using 1(1,3) by (fastforce simp: post_def)
    have "post (Some y) (xfer_post (writes fd) (written_to fd) rest tot st)"
      unfolding 1(2) [symmetric]
      apply (intro post_syscall_sat [OF 1(3)] wp post_mono [OF IH])
      subgoal by (simp add: wr_loop.finished)
      subgoal by (erule wr_loop.step) (auto simp: writes_def posix_def min_def split: if_splits)
      subgoal by (simp add: wr_loop.stop writes_def)
      subgoal by (erule wr_loop.step) (simp_all add: writes_def)
      subgoal by (simp add: wr_loop.stop writes_def)
      done
    then show ?case by (cases y) (simp add: post_def)
  qed
  then show "xfer_post (writes fd) (written_to fd) rest tot st r st'" using sat by simp
qed

lemma post_write_all:
  assumes sat: "os_sat os posix"
    and Q: "\<And>r w e t. list_all (writes fd) t \<Longrightarrow> prefix (written_to fd t) buf \<Longrightarrow>
      r = -1 \<or> r = int (length buf) \<and> written_to fd t = buf \<Longrightarrow> Q r (adv w e t st)"
  shows "post (pal_file_write_all os fd buf st) Q"
  unfolding pal_file_write_all_def
proof (intro wp post_mono [OF write_all_loop_spec [OF sat]])
  show "Q (-1) (set_errno EINVAL st)"
    unfolding set_errno_def by (rule Q; simp)
next
  fix r s assume "xfer_post (writes fd) (written_to fd) buf 0 st r s"
  then show "Q r s" by (rule xfer_postE) (simp add: Q)
qed

text \<open>A failure leaves a reason in \<open>errno\<close>.\<close>

lemma write_all_loop_errno:
  assumes sat: "os_sat os posix" and ret: "write_all_loop os fd rest tot st = Some (r, st')" and "r < 0"
  shows "0 < errno st'"
proof -
  let ?P = "\<lambda>os fd rest tot st y. os_sat os posix \<longrightarrow> fst y < 0 \<longrightarrow> 0 < errno (snd y)"
  have "?P os fd rest tot st (r, st')"
  proof (rule write_all_loop.raw_induct [where P = ?P, OF _ ret], rule impI, goal_cases)
    case (1 loop os fd rest tot st y)
    have IH: "post (loop os fd rest tot st) (\<lambda>r s. r < 0 \<longrightarrow> 0 < errno s)" for rest tot st
      using 1(1,3) by (fastforce simp: post_def)
    have "post (Some y) (\<lambda>r s. r < 0 \<longrightarrow> 0 < errno s)"
      unfolding 1(2) [symmetric]
      by (intro post_syscall_sat [OF 1(3)] wp post_mono [OF IH]) (simp_all add: posix_def set_errno_def)
    then show ?case by (cases y) (simp add: post_def)
  qed
  then show ?thesis using sat assms(3) by simp
qed

lemma post_write_all_errno:
  assumes sat: "os_sat os posix"
    and Q: "\<And>r w e t. list_all (writes fd) t \<Longrightarrow> prefix (written_to fd t) buf \<Longrightarrow>
      r = -1 \<and> 0 < e \<or> r = int (length buf) \<and> written_to fd t = buf \<Longrightarrow> Q r (adv w e t st)"
  shows "post (pal_file_write_all os fd buf st) Q"
proof (rule postI)
  fix r st' assume ret: "pal_file_write_all os fd buf st = Some (r, st')"
  have "0 < errno st'" if "r < 0"
    using ret that write_all_loop_errno [OF sat] by (auto simp: pal_file_write_all_def set_errno_def split: if_splits)
  moreover have "post (pal_file_write_all os fd buf st) (\<lambda>r s. (r < 0 \<longrightarrow> 0 < errno s) \<longrightarrow> Q r s)"
    by (rule post_write_all [OF sat]) (auto intro!: Q)
  ultimately show "Q r st'" using postD [OF _ ret] by blast
qed

lemma write_all_loop_returns:
  assumes "retry_bound os \<mu>"
  shows "\<exists>r st'. write_all_loop os fd rest tot st = Some (r, st')"
proof (induction "length rest + \<mu> (world st)" arbitrary: rest tot st rule: less_induct)
  case less
  let ?c = "Sys_write fd (take PAL_FILE_WRITE_CHUNK_MAX rest)"
  show ?case
  proof (cases "os (world st) ?c")
    case (Pair r w)
    then have \<mu>: "\<mu> w \<le> \<mu> (world st)"
      "r_ret r < 0 \<Longrightarrow> r_errno r = EINTR \<or> r_errno r = EAGAIN \<Longrightarrow> \<mu> w < \<mu> (world st)"
      using assms unfolding retry_bound_def by blast+
    let ?st = "adv w (if r_ret r < 0 then r_errno r else errno st) [(?c, r)] st"
    have wrote: "\<exists>ra st'. write_all_loop os fd (drop (nat (r_ret r)) rest) (tot + nat (r_ret r)) ?st = Some (ra, st')"
      if "rest \<noteq> []" "0 < r_ret r"
      by (rule less) (use that \<mu>(1) in \<open>cases rest; simp; linarith\<close>)
    have again: "\<exists>ra st'. write_all_loop os fd rest tot ?st = Some (ra, st')"
      if "r_ret r < 0" "r_errno r = EINTR"
      by (rule less) (use that \<mu>(2) in simp)
    show ?thesis
      using wrote again
      by (subst write_all_loop.simps) (auto simp: syscall_def Pair simp del: PAL_FILE_WRITE_CHUNK_MAX_def)
  qed
qed

section \<open>Properties\<close>

text \<open>
  C25: \<open>pal_file_write_all\<close> returns whenever only finitely many calls are interrupted.
  It writes a prefix of the buffer, in pieces of bounded size, and reports success only
  if all of the buffer was written.
\<close>

theorem write_all_delivers:
  assumes "os_sat os posix" "retry_bound os \<mu>"
  shows "\<exists>r st' t. pal_file_write_all os fd buf st = Some (r, st') \<and> trace st' = trace st @ t \<and>
    prefix (written_to fd t) buf \<and> (r = -1 \<or> r = int (length buf) \<and> written_to fd t = buf)"
proof -
  have "post (pal_file_write_all os fd buf st) (\<lambda>r st'. \<exists>t. trace st' = trace st @ t \<and>
      prefix (written_to fd t) buf \<and> (r = -1 \<or> r = int (length buf) \<and> written_to fd t = buf))"
    by (rule post_write_all [OF assms(1)]) auto
  moreover have "\<exists>r st'. pal_file_write_all os fd buf st = Some (r, st')"
    using write_all_loop_returns [OF assms(2)] by (auto simp: pal_file_write_all_def)
  ultimately show ?thesis by (auto simp: post_def)
qed

section \<open>Witnesses\<close>

theorem write_all_delivers_witness:
  "\<exists>r st' t. pal_file_write_all script_os 4 [1, 2, 3] (start_st [io_res 1, (io_res (-1))\<lparr>r_errno := EINTR\<rparr>, io_res 2] zero_session)
      = Some (r, st') \<and>
     trace st' = trace (start_st [io_res 1, (io_res (-1))\<lparr>r_errno := EINTR\<rparr>, io_res 2] zero_session) @ t \<and>
     prefix (written_to 4 t) [1, 2, 3] \<and> (r = -1 \<or> r = int (length [1, 2, 3 :: byte]) \<and> written_to 4 t = [1, 2, 3])"
  by (rule write_all_delivers [OF script_os_posix script_retry_bound])

end
