(* ===== verification/Ftp_Path.thy ===== *)
theory Ftp_Path
  imports Pal_Fileio
begin

text \<open>
  Model of \<^verbatim>\<open>src/src/ftp_path.c\<close>: normalization, resolution against the
  session, the root check, and the path helpers.  A function that fills an output
  buffer of a given size returns \<open>Inr\<close> the string, or \<open>Inl\<close> its error code.

  The reference definitions are \<open>push_all\<close> (dot resolution of a list of
  components with the depth limit) and \<open>path_of\<close> (printing a list of components).
\<close>

section \<open>Definitions\<close>

definition MAX_PATH_COMPONENTS :: nat where [simp]: "MAX_PATH_COMPONENTS = 128"

lemma scan_rest_shorter:
  assumes "t = dropWhile P s" "t \<noteq> []"
  shows "length (drop 1 (dropWhile Q t)) < length s"
proof -
  have "length (dropWhile Q t) \<le> length t" "length t \<le> length s"
    using assms by (auto simp: length_dropWhile_le)
  moreover have "0 < length t" using assms by simp
  ultimately show ?thesis unfolding length_drop by linarith
qed

text \<open>The tokenizer loop: \<open>stack\<close> is \<open>components[0 .. depth)\<close>; \<open>None\<close> is "path too deep".\<close>

function scan_components :: "string \<Rightarrow> string list \<Rightarrow> string list option" where
  "scan_components s stack =
    (let s = dropWhile (\<lambda>c. c = SLASH) s in
     if s = [] then Some stack
     else
       let token = takeWhile (\<lambda>c. c \<noteq> SLASH) s;
           rest = drop 1 (dropWhile (\<lambda>c. c \<noteq> SLASH) s)
       in if token = ''.'' then scan_components rest stack
          else if token = ''..''
          then scan_components rest (if length stack > 0 then butlast stack else stack)
          else if length token > 0
          then (if length stack \<ge> MAX_PATH_COMPONENTS then None
                else scan_components rest (stack @ [token]))
          else scan_components rest stack)"
  by pat_completeness auto

termination
  apply (relation "measure (\<lambda>(s, stack). length s)")
  apply (rule wf_measure)
  apply (simp_all only: in_measure prod.case)
  apply (blast intro: scan_rest_shorter)+
  done

declare scan_components.simps [simp del]

text \<open>The output loop: \<open>out\<close> is \<open>output[0 .. offset)\<close>.\<close>

fun build_path :: "nat \<Rightarrow> string list \<Rightarrow> string \<Rightarrow> ftp_error + string" where
  "build_path sz [] out = Inr out"
| "build_path sz (c # cs) out =
    (if length out + length c + 2 > sz then Inl FTP_ERR_PATH_TOO_LONG
     else build_path sz cs (out @ SLASH # c))"

definition ftp_path_normalize :: "string \<Rightarrow> nat \<Rightarrow> ftp_error + string" where
  "ftp_path_normalize path sz =
    (if sz = 0 then Inl FTP_ERR_INVALID_PARAM
     else if length path \<ge> FTP_PATH_MAX then Inl FTP_ERR_PATH_TOO_LONG
     else if length path = 0
     then (if sz < 2 then Inl FTP_ERR_PATH_TOO_LONG else Inr ''/'')
     else case scan_components path [] of
            None \<Rightarrow> Inl FTP_ERR_PATH_TOO_LONG
          | Some comps \<Rightarrow>
              if comps = [] then (if sz < 2 then Inl FTP_ERR_PATH_TOO_LONG else Inr ''/'')
              else build_path sz comps [])"

definition ftp_path_is_within_root :: "string \<Rightarrow> string \<Rightarrow> int" where
  "ftp_path_is_within_root path root =
    (if take 1 path \<noteq> ''/'' \<or> take 1 root \<noteq> ''/'' then 0
     else if length root = 1 then 1
     else if length path < length root then 0
     else if take (length root) path \<noteq> root then 0
     else if length path > length root \<and> path ! length root \<noteq> SLASH then 0
     else 1)"

text \<open>
  \<open>memchr(path, 0, len)\<close> searches the \<open>len\<close> bytes before the terminator: the
  index of a NUL among them, or \<open>None\<close> for NULL.  The code compares the result
  with \<open>path + len\<close>.
\<close>

fun memchr :: "string \<Rightarrow> char \<Rightarrow> nat option" where
  "memchr [] c = None"
| "memchr (x # xs) c = (if x = c then Some 0 else map_option Suc (memchr xs c))"

definition ftp_path_is_safe :: "string \<Rightarrow> int" where
  "ftp_path_is_safe path =
    (if length path \<ge> FTP_PATH_MAX then 0
     else if memchr path NUL \<noteq> Some (length path) then 0
     else if list_all (\<lambda>c. isalnum c \<or> c \<in> set ''/.-_ '') path then 1 else 0)"

definition ftp_path_basename :: "string \<Rightarrow> nat \<Rightarrow> ftp_error + string" where
  "ftp_path_basename path sz =
    (if sz = 0 then Inl FTP_ERR_INVALID_PARAM
     else let name = (if SLASH \<notin> set path then path else after_last SLASH path)
          in if length name + 1 > sz then Inl FTP_ERR_PATH_TOO_LONG else Inr name)"

definition ftp_path_dirname :: "string \<Rightarrow> nat \<Rightarrow> ftp_error + string" where
  "ftp_path_dirname path sz =
    (if sz = 0 then Inl FTP_ERR_INVALID_PARAM
     else if SLASH \<notin> set path
     then (if sz < 2 then Inl FTP_ERR_PATH_TOO_LONG else Inr ''.'')
     else let dir = before_last SLASH path
          in if dir = [] then (if sz < 2 then Inl FTP_ERR_PATH_TOO_LONG else Inr ''/'')
             else if length dir + 1 > sz then Inl FTP_ERR_PATH_TOO_LONG
             else Inr dir)"

definition ftp_path_join :: "string \<Rightarrow> string \<Rightarrow> nat \<Rightarrow> ftp_error + string" where
  "ftp_path_join base app sz =
    (if sz < FTP_PATH_MAX then Inl FTP_ERR_INVALID_PARAM
     else if length base + length app + 2 \<ge> sz then Inl FTP_ERR_PATH_TOO_LONG
     else let temp = (if base \<noteq> [] \<and> last base \<noteq> SLASH then base @ ''/'' else base)
          in ftp_path_normalize (temp @ app) sz)"

text \<open>The path the client names: absolute as it is, relative behind the working directory.\<close>

definition absolute_path :: "string \<Rightarrow> string \<Rightarrow> ftp_error + string" where
  "absolute_path wd path =
    (if path \<noteq> [] \<and> hd path = SLASH then Inr path
     else if length wd + length path + 2 \<ge> FTP_PATH_MAX then Inl FTP_ERR_PATH_TOO_LONG
     else Inr (wd @ ''/'' @ path))"

text \<open>The case of a path that exists: its real path must be inside the root again.\<close>

definition resolve_existing ::
  "'w os \<Rightarrow> string \<Rightarrow> nat \<Rightarrow> 'w st \<Rightarrow> ((ftp_error + string) \<times> 'w st) ret" where
  "resolve_existing os out sz st = do {
     (r, st) \<leftarrow> syscall os (Sys_realpath out) st;
     if r_ret r \<ge> 0 \<and> length (r_str r) + 1 \<le> sz
     then (if ftp_path_is_within_root (r_str r) (root_path (sess st)) \<noteq> 1
           then Some (Inl FTP_ERR_PATH_INVALID, st)
           else Some (Inr (r_str r), st))
     else Some (Inr out, st) }"

text \<open>The case of a path that does not exist: the real path of its directory is used.\<close>

definition resolve_missing ::
  "'w os \<Rightarrow> string \<Rightarrow> nat \<Rightarrow> 'w st \<Rightarrow> ((ftp_error + string) \<times> 'w st) ret" where
  "resolve_missing os out sz st =
    (case ftp_path_dirname out FTP_PATH_MAX of
       Inl _ \<Rightarrow> Some (Inr out, st)
     | Inr dir \<Rightarrow>
       (case ftp_path_basename out FTP_PATH_MAX of
          Inl _ \<Rightarrow> Some (Inr out, st)
        | Inr base \<Rightarrow> do {
            (ex, st) \<leftarrow> pal_path_exists os dir st;
            if ex \<noteq> 1 then Some (Inr out, st)
            else do {
              (r, st) \<leftarrow> syscall os (Sys_realpath dir) st;
              if r_ret r < 0 then Some (Inr out, st)
              else if length (r_str r) + 1 + length base \<ge> FTP_PATH_MAX
              then Some (Inl FTP_ERR_PATH_TOO_LONG, st)
              else case ftp_path_normalize (r_str r @ ''/'' @ base) sz of
                     Inl e \<Rightarrow> Some (Inl e, st)
                   | Inr out' \<Rightarrow>
                       if ftp_path_is_within_root out' (root_path (sess st)) \<noteq> 1
                       then Some (Inl FTP_ERR_PATH_INVALID, st)
                       else Some (Inr out', st) } }))"

definition ftp_path_resolve ::
  "'w os \<Rightarrow> string \<Rightarrow> nat \<Rightarrow> 'w st \<Rightarrow> ((ftp_error + string) \<times> 'w st) ret" where
  "ftp_path_resolve os path sz st =
    (if sz < FTP_PATH_MAX then Some (Inl FTP_ERR_INVALID_PARAM, st)
     else if length path \<ge> FTP_PATH_MAX then Some (Inl FTP_ERR_PATH_TOO_LONG, st)
     else case absolute_path (cwd (sess st)) path of
       Inl e \<Rightarrow> Some (Inl e, st)
     | Inr temp \<Rightarrow>
       (case ftp_path_normalize temp sz of
          Inl e \<Rightarrow> Some (Inl e, st)
        | Inr out \<Rightarrow>
            if ftp_path_is_within_root out (root_path (sess st)) \<noteq> 1
            then Some (Inl FTP_ERR_PATH_INVALID, st)
            else do {
              (ex, st) \<leftarrow> pal_path_exists os out st;
              if ex = 1 then resolve_existing os out sz st
              else resolve_missing os out sz st }))"

subsection \<open>Reference definitions\<close>

fun push_all :: "string list \<Rightarrow> string list \<Rightarrow> string list option" where
  "push_all stack [] = Some stack"
| "push_all stack (c # cs) =
    (if c = [] \<or> c = ''.'' then push_all stack cs
     else if c = ''..'' then push_all (butlast stack) cs
     else if length stack \<ge> MAX_PATH_COMPONENTS then None
     else push_all (stack @ [c]) cs)"

definition path_of :: "string list \<Rightarrow> string" where
  "path_of cs = (if cs = [] then ''/'' else concat (map (\<lambda>c. SLASH # c) cs))"

definition proper :: "string \<Rightarrow> bool" where
  "proper c \<longleftrightarrow> c \<notin> {'''', ''.'', ''..''} \<and> SLASH \<notin> set c"

text \<open>A canonical path prints proper components.\<close>

definition canonical :: "string \<Rightarrow> bool" where
  "canonical p \<longleftrightarrow> p = path_of (path_components p) \<and> list_all proper (path_components p)"

section \<open>Normalization\<close>

lemma push_all_drop_sep:
  "push_all stack (split_on c (dropWhile (\<lambda>x. x = c) s)) = push_all stack (split_on c s)"
  by (induction s) auto

lemma split_on_token:
  "split_on c s = takeWhile (\<lambda>x. x \<noteq> c) s #
     (case dropWhile (\<lambda>x. x \<noteq> c) s of [] \<Rightarrow> [] | _ # r \<Rightarrow> split_on c r)"
  by (induction s) auto

lemma scan_push: "scan_components s stack = push_all stack (split_on SLASH s)"
proof (induction s stack rule: scan_components.induct)
  case (1 s stack)
  define t where "t = dropWhile (\<lambda>c. c = SLASH) s"
  show ?case
  proof (cases "t = []")
    case True
    have "push_all stack (split_on SLASH t) = Some stack" unfolding True by simp
    then have "push_all stack (split_on SLASH s) = Some stack"
      unfolding t_def push_all_drop_sep .
    then show ?thesis
      by (subst scan_components.simps) (simp only: Let_def t_def [symmetric] True simp_thms if_True)
  next
    case False
    then have hd: "hd t \<noteq> SLASH" unfolding t_def using hd_dropWhile [of "\<lambda>c. c = SLASH" s] by simp
    define tok where "tok = takeWhile (\<lambda>c. c \<noteq> SLASH) t"
    define rest where "rest = drop 1 (dropWhile (\<lambda>c. c \<noteq> SLASH) t)"
    have tok: "tok \<noteq> []" using False hd by (cases t) (auto simp: tok_def)
    have sp: "push_all stack' (case l of [] \<Rightarrow> [] | _ # r \<Rightarrow> split_on SLASH r) =
        push_all stack' (split_on SLASH (drop 1 l))" for stack' l
      by (cases l) simp_all
    have "push_all stack (split_on SLASH s) = push_all stack (split_on SLASH t)"
      by (simp add: t_def push_all_drop_sep)
    also have "\<dots> = push_all stack (tok # (case dropWhile (\<lambda>c. c \<noteq> SLASH) t of [] \<Rightarrow> [] | _ # r \<Rightarrow> split_on SLASH r))"
      by (subst split_on_token) (simp add: tok_def)
    finally have eq: "push_all stack (split_on SLASH s) =
      (if tok = ''.'' then push_all stack (split_on SLASH rest)
       else if tok = ''..'' then push_all (butlast stack) (split_on SLASH rest)
       else if length stack \<ge> MAX_PATH_COMPONENTS then None
       else push_all (stack @ [tok]) (split_on SLASH rest))"
      using tok by (simp add: sp rest_def)
    note IH = 1(1)[OF t_def False tok_def rest_def] 1(2)[OF t_def False tok_def rest_def]
      1(3)[OF t_def False tok_def rest_def]
    have step: "scan_components s stack =
       (if tok = ''.'' then scan_components rest stack
        else if tok = ''..''
        then scan_components rest (if length stack > 0 then butlast stack else stack)
        else if length tok > 0
        then (if length stack \<ge> MAX_PATH_COMPONENTS then None
              else scan_components rest (stack @ [tok]))
        else scan_components rest stack)"
      by (subst scan_components.simps)
         (simp only: Let_def t_def [symmetric] tok_def [symmetric] rest_def [symmetric]
            False if_False)
    show ?thesis unfolding eq step using IH tok by auto
  qed
qed

lemma build_path_spec:
  "build_path sz cs out =
    (if cs \<noteq> [] \<and> length out + length (concat (map (\<lambda>c. SLASH # c) cs)) + 1 > sz
     then Inl FTP_ERR_PATH_TOO_LONG else Inr (out @ concat (map (\<lambda>c. SLASH # c) cs)))"
  by (induction sz cs out rule: build_path.induct) auto

lemma normalize_reference:
  "ftp_path_normalize path sz =
    (if sz = 0 then Inl FTP_ERR_INVALID_PARAM
     else if length path \<ge> FTP_PATH_MAX then Inl FTP_ERR_PATH_TOO_LONG
     else case push_all [] (split_on SLASH path) of
            None \<Rightarrow> Inl FTP_ERR_PATH_TOO_LONG
          | Some cs \<Rightarrow> if length (path_of cs) + 1 > sz then Inl FTP_ERR_PATH_TOO_LONG
                       else Inr (path_of cs))"
  by (auto simp: ftp_path_normalize_def scan_push build_path_spec path_of_def split: option.splits)

lemma list_all_butlast: "list_all P xs \<Longrightarrow> list_all P (butlast xs)"
  by (induction xs) auto

lemma push_all_proper:
  "push_all stack cs = Some r \<Longrightarrow> list_all proper stack \<Longrightarrow> list_all (\<lambda>c. SLASH \<notin> set c) cs \<Longrightarrow>
   list_all proper r"
proof (induction stack cs rule: push_all.induct)
  case (2 stack c cs)
  consider "c = [] \<or> c = ''.''" | "c = ''..''" | "proper c" "c \<notin> {'''', ''.'', ''..''}"
    using 2(6) by (auto simp: proper_def)
  then show ?case
  proof cases
    case 1
    then show ?thesis using 2 by auto
  next
    case b: 2
    then show ?thesis using 2 by (simp add: list_all_butlast)
  next
    case 3
    then show ?thesis using 2 by (simp split: if_splits)
  qed
qed simp

lemma push_all_depth:
  "push_all stack cs = Some r \<Longrightarrow> length stack \<le> MAX_PATH_COMPONENTS \<Longrightarrow> length r \<le> MAX_PATH_COMPONENTS"
  by (induction stack cs rule: push_all.induct) (auto split: if_splits)

lemma push_all_id:
  "list_all proper cs \<Longrightarrow> length stack + length cs \<le> MAX_PATH_COMPONENTS \<Longrightarrow>
   push_all stack cs = Some (stack @ cs)"
  by (induction stack cs rule: push_all.induct) (auto simp: proper_def)

lemma split_on_printed:
  "list_all proper cs \<Longrightarrow> cs \<noteq> [] \<Longrightarrow> split_on SLASH (concat (map (\<lambda>c. SLASH # c) cs)) = [] # cs"
proof (induction cs)
  case (Cons c cs)
  have c: "SLASH \<notin> set c" using Cons.prems by (simp add: proper_def)
  show ?case
  proof (cases cs)
    case Nil
    then show ?thesis using c by (simp add: split_on_single)
  next
    case (Cons d ds)
    have "split_on SLASH (concat (map (\<lambda>c. SLASH # c) cs)) = [] # cs"
      using Cons.IH Cons.prems Cons by simp
    then have "split_on SLASH (d @ concat (map (\<lambda>c. SLASH # c) ds)) = cs"
      using Cons by simp
    then show ?thesis
      using Cons c by (simp add: split_on_append_sep split_on_single)
  qed
qed simp

lemma path_components_path_of [simp]: "list_all proper cs \<Longrightarrow> path_components (path_of cs) = cs"
  by (auto simp: path_components_def path_of_def split_on_printed filter_id_conv proper_def list_all_iff)

lemma canonical_path_of [simp]: "list_all proper cs \<Longrightarrow> canonical (path_of cs)"
  by (simp add: canonical_def)

lemma canonical_no_dotdot: "canonical p \<Longrightarrow> no_dotdot p"
  by (auto simp: canonical_def no_dotdot_def proper_def list_all_iff)

lemma normalize_cases:
  assumes "ftp_path_normalize path sz = Inr q"
  obtains cs where "q = path_of cs" "list_all proper cs" "length cs \<le> MAX_PATH_COMPONENTS"
    "length q < sz" "push_all [] (split_on SLASH path) = Some cs"
proof -
  from assms obtain cs where cs: "push_all [] (split_on SLASH path) = Some cs"
      "q = path_of cs" "length q + 1 \<le> sz"
    by (auto simp: normalize_reference split: if_splits option.splits)
  moreover have "list_all proper cs"
    using push_all_proper [OF cs(1)] split_on_no_sep by (auto simp: list_all_iff)
  moreover have "length cs \<le> MAX_PATH_COMPONENTS"
    using push_all_depth [OF cs(1)] by simp
  ultimately show ?thesis using that by simp
qed

lemma normalize_canonical: "ftp_path_normalize path sz = Inr q \<Longrightarrow> canonical q \<and> length q < sz"
  by (erule normalize_cases) simp

lemma normalize_idem:
  assumes "ftp_path_normalize path sz = Inr q" "sz \<le> FTP_PATH_MAX"
  shows "ftp_path_normalize q sz = Inr q"
proof -
  obtain cs where cs: "q = path_of cs" "list_all proper cs" "length cs \<le> MAX_PATH_COMPONENTS"
      "length q < sz" using assms(1) by (rule normalize_cases)
  have "push_all [] (split_on SLASH q) = Some cs"
  proof (cases "cs = []")
    case True
    then show ?thesis by (simp add: cs(1) path_of_def)
  next
    case False
    then have "split_on SLASH q = [] # cs" using cs by (simp add: path_of_def split_on_printed)
    then show ?thesis using push_all_id [OF cs(2), of "[]"] cs(3) by simp
  qed
  then show ?thesis using cs assms(2) by (simp add: normalize_reference)
qed

section \<open>The root check\<close>

lemma within_root_split:
  assumes "ftp_path_is_within_root p r = 1" "length r \<noteq> 1"
  obtains "p = r" | s where "p = r @ SLASH # s"
proof -
  from assms have le: "length r \<le> length p" and pre: "take (length r) p = r"
    and nxt: "length p > length r \<Longrightarrow> p ! length r = SLASH"
    by (auto simp: ftp_path_is_within_root_def split: if_splits)
  have "p = r @ drop (length r) p" using pre by (metis append_take_drop_id)
  moreover have "drop (length r) p = [] \<or> (\<exists>s. drop (length r) p = SLASH # s)"
    using nxt le by (metis Cons_nth_drop_Suc drop_all le_neq_implies_less order_refl)
  ultimately show ?thesis using that by (metis append_Nil2)
qed

lemma within_root_refl: "take 1 r = ''/'' \<Longrightarrow> ftp_path_is_within_root r r = 1"
  by (simp add: ftp_path_is_within_root_def)

lemma within_root_extend:
  "take 1 r = ''/'' \<Longrightarrow> ftp_path_is_within_root (r @ SLASH # s) r = 1"
  by (cases r) (simp_all add: ftp_path_is_within_root_def)

lemma path_components_append_sep:
  "path_components (a @ SLASH # b) = path_components a @ path_components b"
  by (simp add: path_components_def split_on_append_sep)

lemma take1_path_of: "take 1 (path_of cs) = ''/''"
  by (cases cs) (simp_all add: path_of_def)

lemma within_root_prefix:
  assumes "ftp_path_is_within_root p r = 1"
  shows "prefix (path_components r) (path_components p)"
proof (cases "length r = 1")
  case True
  then have "r = ''/''" using assms by (auto simp: ftp_path_is_within_root_def split: if_splits)
  then show ?thesis by (simp add: path_components_def)
next
  case False
  with assms show ?thesis
    by (cases rule: within_root_split) (auto simp: path_components_append_sep)
qed

lemma prefix_within_root:
  assumes "canonical p" "canonical r" "prefix (path_components r) (path_components p)"
  shows "ftp_path_is_within_root p r = 1"
proof -
  obtain ds where ds: "path_components p = path_components r @ ds"
    using assms(3) by (auto simp: prefix_def)
  have p: "p = path_of (path_components r @ ds)" and r: "r = path_of (path_components r)"
    using assms(1,2) ds by (auto simp: canonical_def)
  have r1: "take 1 r = ''/''" by (subst r) (rule take1_path_of)
  have p1: "take 1 p = ''/''" unfolding p by (rule take1_path_of)
  show ?thesis
  proof (cases "path_components r = []")
    case True
    then have "r = ''/''" using r by (simp add: path_of_def)
    then show ?thesis using p1 by (simp add: ftp_path_is_within_root_def)
  next
    case False
    then have "p = r @ concat (map (\<lambda>c. SLASH # c) ds)"
      using p r by (simp add: path_of_def)
    then show ?thesis
      using r1 within_root_refl within_root_extend by (cases ds) auto
  qed
qed

section \<open>Resolution\<close>

text \<open>What a successful resolution guarantees, for any behaviour of the system.\<close>

definition resolved_ok :: "string \<Rightarrow> nat \<Rightarrow> ftp_error + string \<Rightarrow> bool" where
  "resolved_ok root sz r \<longleftrightarrow>
    (\<forall>q. r = Inr q \<longrightarrow> ftp_path_is_within_root q root = 1 \<and> length q < sz \<and> no_dotdot q)"

lemma resolved_ok_simps [simp]:
  "resolved_ok root sz (Inl e)"
  "resolved_ok root sz (Inr q) \<longleftrightarrow>
     ftp_path_is_within_root q root = 1 \<and> length q < sz \<and> no_dotdot q"
  by (simp_all add: resolved_ok_def)

lemma post_resolve_existing:
  assumes "os_sat os posix" "resolved_ok (root_path (sess st)) sz (Inr out)"
    and "\<And>r w e t. resolved_ok (root_path (sess st)) sz r \<Longrightarrow> list_all quiet t \<Longrightarrow> Q r (adv w e t st)"
  shows "post (resolve_existing os out sz st) Q"
  unfolding resolve_existing_def
  apply (rule wp, rule post_syscall_sat [OF assms(1)])
  apply (intro wp assms(3))
  using assms(2) apply (simp_all add: posix_def quiet_def)
  done

lemma post_resolve_missing:
  assumes "os_sat os posix" "resolved_ok (root_path (sess st)) sz (Inr out)"
    and "\<And>r w e t. resolved_ok (root_path (sess st)) sz r \<Longrightarrow> list_all quiet t \<Longrightarrow> Q r (adv w e t st)"
  shows "post (resolve_missing os out sz st) Q"
proof -
  have here: "Q r st" if "resolved_ok (root_path (sess st)) sz r" for r
    using assms(3) [of r "[]" "world st" "errno st"] that by simp
  have norm: "resolved_ok (root_path (sess st)) sz (Inr p)"
    if "ftp_path_normalize q sz = Inr p" "ftp_path_is_within_root p (root_path (sess st)) = 1" for q p
    using that normalize_canonical canonical_no_dotdot by auto
  show ?thesis
    unfolding resolve_missing_def
    using assms(2)
    by (intro wp) (auto intro!: here assms(3) norm simp: quiet_def simp del: resolved_ok_simps(2))
qed

lemma post_resolve [wp]:
  assumes "os_sat os posix"
    and "\<And>r w e t. resolved_ok (root_path (sess st)) sz r \<Longrightarrow> list_all quiet t \<Longrightarrow> Q r (adv w e t st)"
  shows "post (ftp_path_resolve os path sz st) Q"
proof -
  have here: "Q (Inl e) st" for e
    using assms(2) [of "Inl e" "[]" "world st" "errno st"] by simp
  have norm: "resolved_ok (root_path (sess st)) sz (Inr p)"
    if "ftp_path_normalize q sz = Inr p" "ftp_path_is_within_root p (root_path (sess st)) = 1" for q p
    using that normalize_canonical canonical_no_dotdot by auto
  show ?thesis
    unfolding ftp_path_resolve_def
    by (intro wp here post_resolve_existing [OF assms(1)] post_resolve_missing [OF assms(1)])
       (auto intro!: assms(2) norm simp del: resolved_ok_simps(2))
qed

lemma resolve_returns: "\<exists>r st'. ftp_path_resolve os path sz st = Some (r, st')"
proof -
  have ex: "\<exists>r st'. pal_path_exists os p st = Some (r, st')" for p st
    by (simp add: pal_path_exists_def syscall_def case_prod_unfold)
  have "\<exists>r st'. resolve_existing os out sz st = Some (r, st')" for out st
    by (simp add: resolve_existing_def syscall_def case_prod_unfold)
  moreover have "\<exists>r st'. resolve_missing os out sz st = Some (r, st')" for out st
  proof -
    obtain r1 st1 where "pal_path_exists os (projr (ftp_path_dirname out FTP_PATH_MAX)) st = Some (r1, st1)"
      using ex by blast
    then show ?thesis
      by (auto simp: resolve_missing_def syscall_def case_prod_unfold split: sum.splits)
  qed
  moreover obtain r2 st2 where
    "pal_path_exists os (projr (ftp_path_normalize (projr (absolute_path (cwd (sess st)) path)) sz)) st
       = Some (r2, st2)"
    using ex by blast
  ultimately show ?thesis
    by (auto simp: ftp_path_resolve_def split: sum.splits)
qed

section \<open>Splitting and joining\<close>

lemma takeWhile_rev_sep: "c \<notin> set b \<Longrightarrow> takeWhile (\<lambda>x. x \<noteq> c) (rev b @ c # a) = rev b"
  by (subst takeWhile_append2) auto

lemma dropWhile_rev_sep: "c \<notin> set b \<Longrightarrow> dropWhile (\<lambda>x. x \<noteq> c) (rev b @ c # a) = c # a"
  by (subst dropWhile_append2) auto

lemma after_last_append: "c \<notin> set b \<Longrightarrow> after_last c (a @ c # b) = b"
  by (simp add: after_last_def takeWhile_rev_sep)

lemma before_last_append: "c \<notin> set b \<Longrightarrow> before_last c (a @ c # b) = a"
  by (simp add: before_last_def dropWhile_rev_sep)

lemma join_split:
  assumes "ftp_path_normalize p FTP_PATH_MAX = Inr p" "p \<noteq> ''/''" "length p + 2 < FTP_PATH_MAX"
  shows "\<exists>d b. ftp_path_dirname p FTP_PATH_MAX = Inr d \<and> ftp_path_basename p FTP_PATH_MAX = Inr b \<and>
               ftp_path_join d b FTP_PATH_MAX = Inr p"
proof -
  obtain cs where cs: "p = path_of cs" "list_all proper cs"
    using assms(1) by (rule normalize_cases)
  with assms(2) have "cs \<noteq> []" by (auto simp: path_of_def)
  then obtain ds c where ds: "cs = ds @ [c]" by (cases cs rule: rev_cases) auto
  define a where "a = concat (map (\<lambda>c. SLASH # c) ds)"
  have c: "SLASH \<notin> set c" "c \<noteq> []" using cs(2) ds by (auto simp: proper_def)
  have p: "p = a @ SLASH # c" using cs(1) ds by (simp add: path_of_def a_def)
  have ab: "before_last SLASH p = a" "after_last SLASH p = c"
    unfolding p using c(1) by (simp_all add: before_last_append after_last_append)
  have base: "ftp_path_basename p FTP_PATH_MAX = Inr c"
    using assms(3) ab by (simp add: ftp_path_basename_def p)
  have dir: "ftp_path_dirname p FTP_PATH_MAX = Inr (if a = [] then ''/'' else a)"
    using assms(3) ab by (simp add: ftp_path_dirname_def p)
  have last: "a \<noteq> [] \<Longrightarrow> last a \<noteq> SLASH"
  proof -
    assume "a \<noteq> []"
    then obtain es e where "ds = es @ [e]" unfolding a_def by (cases ds rule: rev_cases) auto
    then have "last a = last e" "SLASH \<notin> set e" "e \<noteq> []"
      using cs(2) ds by (auto simp: a_def proper_def)
    then show ?thesis by (metis last_in_set)
  qed
  have "ftp_path_join (if a = [] then ''/'' else a) c FTP_PATH_MAX = ftp_path_normalize p FTP_PATH_MAX"
    using assms(3) last p by (simp add: ftp_path_join_def)
  then show ?thesis using base dir assms(1) by auto
qed

lemma memchr_bound: "memchr s c = Some i \<Longrightarrow> i < length s"
  by (induction s c arbitrary: i rule: memchr.induct) (auto split: if_splits)

section \<open>Properties\<close>

text \<open>
  C4: For every behaviour of the system that meets the contract, resolution
  returns, changes nothing in the session, and a path it accepts is inside the
  session's root, component by component, has no \<open>..\<close> component and fits the
  buffer.
\<close>

theorem path_resolve_confined:
  assumes "os_sat os posix"
  shows "\<exists>r st'. ftp_path_resolve os path sz st = Some (r, st') \<and> sess st' = sess st \<and>
    (\<forall>q. r = Inr q \<longrightarrow>
       ftp_path_is_within_root q (root_path (sess st)) = 1 \<and> no_dotdot q \<and> length q < sz \<and>
       prefix (path_components (root_path (sess st))) (path_components q))"
proof -
  obtain r st' where res: "ftp_path_resolve os path sz st = Some (r, st')"
    using resolve_returns by blast
  have "post (ftp_path_resolve os path sz st)
      (\<lambda>r st'. resolved_ok (root_path (sess st)) sz r \<and> sess st' = sess st)"
    by (rule post_resolve [OF assms]) simp
  from postD [OF this res] show ?thesis
    using res within_root_prefix by (auto simp: resolved_ok_def)
qed

text \<open>
  C15: Normalization computes exactly the reference: cut the path at its slashes,
  drop empty and \<open>.\<close> components, let \<open>..\<close> remove the last component if there is
  one, refuse a stack of more than 128 components, and print the rest if it fits.
\<close>

theorem path_normalize_is_reference:
  "ftp_path_normalize path sz =
    (if sz = 0 then Inl FTP_ERR_INVALID_PARAM
     else if length path \<ge> FTP_PATH_MAX then Inl FTP_ERR_PATH_TOO_LONG
     else case push_all [] (split_on SLASH path) of
            None \<Rightarrow> Inl FTP_ERR_PATH_TOO_LONG
          | Some cs \<Rightarrow> if length (path_of cs) + 1 > sz then Inl FTP_ERR_PATH_TOO_LONG
                       else Inr (path_of cs))"
  by (rule normalize_reference)

text \<open>
  C16: A normalized path is canonical (absolute, no empty, \<open>.\<close> or \<open>..\<close> component,
  no trailing slash), fits its buffer with the terminator, and is a fixed point of
  normalization.
\<close>

theorem path_normalize_canonical:
  assumes "ftp_path_normalize path sz = Inr q" "sz \<le> FTP_PATH_MAX"
  shows "canonical q \<and> length q < sz \<and> ftp_path_normalize q sz = Inr q"
  using normalize_canonical [OF assms(1)] normalize_idem [OF assms] by simp

text \<open>
  On canonical paths the root check by string comparison is the prefix order
  on components, so \<open>/home\<close> does not contain \<open>/homeother\<close>.
\<close>

theorem path_root_check_components:
  assumes "canonical p" "canonical r"
  shows "ftp_path_is_within_root p r = (if prefix (path_components r) (path_components p) then 1 else 0)"
proof (cases "ftp_path_is_within_root p r = 1")
  case True
  then show ?thesis using within_root_prefix by simp
next
  case False
  then have "ftp_path_is_within_root p r = 0"
    by (auto simp: ftp_path_is_within_root_def split: if_splits)
  with False show ?thesis using prefix_within_root [OF assms] by auto
qed

text \<open>
  C17: Splitting a normalized path other than the root into directory and base name
  and joining them again gives the path back.
\<close>

theorem path_join_inverts_split:
  assumes "ftp_path_normalize p FTP_PATH_MAX = Inr p" "p \<noteq> ''/''" "length p + 2 < FTP_PATH_MAX"
  shows "\<exists>d b. ftp_path_dirname p FTP_PATH_MAX = Inr d \<and> ftp_path_basename p FTP_PATH_MAX = Inr b \<and>
               ftp_path_join d b FTP_PATH_MAX = Inr p"
  using join_split [OF assms] .

text \<open>
  C18: \<open>ftp_path_is_safe\<close> accepts no path at all: \<open>memchr\<close> over the bytes before
  the terminator never returns the address of the terminator, which the code
  requires.
\<close>

theorem path_is_safe_rejects_all: "ftp_path_is_safe p = 0"
  using memchr_bound by (fastforce simp: ftp_path_is_safe_def)

subsection \<open>Witnesses\<close>

definition demo_session :: ftp_session where
  "demo_session = zero_session\<lparr>ctrl_fd := 4, data_fd := -1, pasv_fd := -1,
     root_path := ''/srv'', cwd := ''/srv/a'', client_ip := ''10.0.0.9''\<rparr>"

theorem path_resolve_confined_witness:
  "\<exists>r st'. ftp_path_resolve script_os ''../b/./c'' FTP_PATH_MAX (start_st [] demo_session) = Some (r, st') \<and>
     sess st' = demo_session \<and> r = Inr ''/srv/b/c'' \<and>
     prefix (path_components ''/srv'') (path_components ''/srv/b/c'')"
proof -
  have "ftp_path_resolve script_os ''../b/./c'' FTP_PATH_MAX (start_st [] demo_session) =
      Some (Inr ''/srv/b/c'', adv [] EIO
        [(Sys_stat ''/srv/b/c'', io_res (-1)), (Sys_stat ''/srv/b'', io_res (-1))]
        (start_st [] demo_session))"
    by code_simp
  with path_resolve_confined [OF script_os_posix, of "''../b/./c''" FTP_PATH_MAX "start_st [] demo_session"]
  show ?thesis by (auto simp: demo_session_def)
qed

theorem path_normalize_canonical_witness:
  "ftp_path_normalize ''/home//user/../admin/.'' FTP_PATH_MAX = Inr ''/home/admin'' \<and>
   canonical ''/home/admin''"
proof -
  have "ftp_path_normalize ''/home//user/../admin/.'' FTP_PATH_MAX = Inr ''/home/admin''"
    by code_simp
  with path_normalize_canonical [OF this] show ?thesis by simp
qed

theorem path_root_check_components_witness:
  "ftp_path_is_within_root ''/homeother'' ''/home'' = 0 \<and>
   ftp_path_is_within_root ''/home/x'' ''/home'' = 1"
proof -
  have c: "canonical ''/homeother''" "canonical ''/home''" "canonical ''/home/x''"
    by code_simp+
  have "\<not> prefix (path_components ''/home'') (path_components ''/homeother'')"
    "prefix (path_components ''/home'') (path_components ''/home/x'')"
    by code_simp+
  with path_root_check_components [OF c(1,2)] path_root_check_components [OF c(3,2)]
  show ?thesis by simp
qed

theorem path_join_inverts_split_witness:
  "\<exists>d b. ftp_path_dirname ''/a/b'' FTP_PATH_MAX = Inr d \<and> ftp_path_basename ''/a/b'' FTP_PATH_MAX = Inr b \<and>
     ftp_path_join d b FTP_PATH_MAX = Inr ''/a/b''"
proof -
  have "ftp_path_normalize ''/a/b'' FTP_PATH_MAX = Inr ''/a/b''" by code_simp
  from path_join_inverts_split [OF this] show ?thesis by simp
qed

end
