(* ===== verification/Ftp_Protocol.thy ===== *)
theory Ftp_Protocol
  imports Ftp_Types
begin

text \<open>
  Model of the parsing and formatting functions of \<^verbatim>\<open>src/src/ftp_protocol.c\<close>.
  The command table itself names the handlers and is in the theory of the
  dispatcher.
\<close>

section \<open>Definitions\<close>

definition get_default_message :: "ftp_reply_code \<Rightarrow> string" where
  "get_default_message code =
    (case code of
       R150_FILE_OK \<Rightarrow> ''File status okay; about to open data connection.''
     | R200_OK \<Rightarrow> ''Command okay.''
     | R211_SYSTEM_STATUS \<Rightarrow> ''System status.''
     | R214_HELP \<Rightarrow> ''Help message.''
     | R215_SYSTEM_TYPE \<Rightarrow> ''UNIX Type: L8''
     | R220_SERVICE_READY \<Rightarrow> ''Service ready for new user.''
     | R221_GOODBYE \<Rightarrow> ''Service closing control connection.''
     | R227_PASV_MODE \<Rightarrow> ''Entering Passive Mode.''
     | R229_EPSV_MODE \<Rightarrow> ''Entering Extended Passive Mode.''
     | R225_DATA_OPEN \<Rightarrow> ''Data connection open; no transfer in progress.''
     | R226_TRANSFER_COMPLETE \<Rightarrow> ''Closing data connection. Transfer complete.''
     | R230_LOGGED_IN \<Rightarrow> ''User logged in, proceed.''
     | R250_FILE_ACTION_OK \<Rightarrow> ''Requested file action okay, completed.''
     | R331_NEED_PASSWORD \<Rightarrow> ''User name okay, need password.''
     | R350_PENDING \<Rightarrow> ''Requested file action pending further information.''
     | R421_SERVICE_UNAVAIL \<Rightarrow> ''Service not available, closing control connection.''
     | R425_CANT_OPEN_DATA \<Rightarrow> ''Can'' @ [CHR 0x27] @ ''t open data connection.''
     | R426_TRANSFER_ABORTED \<Rightarrow> ''Connection closed; transfer aborted.''
     | R450_FILE_UNAVAILABLE \<Rightarrow> ''Requested file action not taken.''
     | R451_LOCAL_ERROR \<Rightarrow> ''Requested action aborted: local error.''
     | R500_SYNTAX_ERROR \<Rightarrow> ''Syntax error, command unrecognized.''
     | R501_SYNTAX_ARGS \<Rightarrow> ''Syntax error in parameters or arguments.''
     | R502_NOT_IMPLEMENTED \<Rightarrow> ''Command not implemented.''
     | R503_BAD_SEQUENCE \<Rightarrow> ''Bad sequence of commands.''
     | R530_NOT_LOGGED_IN \<Rightarrow> ''Not logged in.''
     | R550_FILE_ERROR \<Rightarrow> ''Requested action not taken. File unavailable.''
     | R553_FILENAME_INVALID \<Rightarrow> ''Requested action not taken. File name not allowed.''
     | _ \<Rightarrow> ''Unknown reply code.'')"

text \<open>
  \<open>ftp_parse_command_line\<close> returns the upper-case command and the arguments; an
  empty argument string is what the code stores when there are none.
\<close>

definition ftp_parse_command_line :: "string \<Rightarrow> nat \<Rightarrow> nat \<Rightarrow> ftp_error + (string \<times> string)" where
  "ftp_parse_command_line line cmd_size args_size =
    (if cmd_size = 0 then Inl FTP_ERR_INVALID_PARAM
     else
       let has_space = CHR '' '' \<in> set line;
           cmd = takeWhile (\<lambda>c. c \<noteq> CHR '' '') line
       in if length cmd = 0 \<or> length cmd \<ge> cmd_size then Inl FTP_ERR_PROTOCOL
          else let command = map toupper cmd
               in if has_space
                  then let arg_start = dropWhile isspace (drop (length cmd + 1) line);
                           arg = strip_right isspace arg_start
                       in if length arg \<ge> args_size then Inl FTP_ERR_PROTOCOL
                          else Inr (command, arg)
                  else Inr (command, []))"

definition ftp_validate_command_args :: "ftp_args_req \<Rightarrow> string option \<Rightarrow> ftp_error" where
  "ftp_validate_command_args req args =
    (let has_args = (case args of None \<Rightarrow> False | Some a \<Rightarrow> a \<noteq> [])
     in case req of
          FTP_ARGS_NONE \<Rightarrow> if has_args then FTP_ERR_PROTOCOL else FTP_OK
        | FTP_ARGS_REQUIRED \<Rightarrow> if \<not> has_args then FTP_ERR_PROTOCOL else FTP_OK
        | FTP_ARGS_OPTIONAL \<Rightarrow> FTP_OK)"

definition ftp_format_reply :: "ftp_reply_code \<Rightarrow> string option \<Rightarrow> nat \<Rightarrow> ftp_error + string" where
  "ftp_format_reply code message sz =
    (if sz < 64 then Inl FTP_ERR_INVALID_PARAM
     else let msg = (case message of None \<Rightarrow> get_default_message code | Some m \<Rightarrow> m);
              s = show_nat (reply_num code) @ '' '' @ msg @ CRLF
          in if length s \<ge> sz then Inl FTP_ERR_INVALID_PARAM else Inr s)"

section \<open>Lemmas\<close>

lemma show_nat_three:
  assumes "100 \<le> n" "n < 1000"
  shows "length (show_nat n) = 3"
proof -
  have "\<not> n < 10" "\<not> n div 10 < 10" "n div 10 div 10 < 10"
    using assms by (simp_all add: div_less_iff_less_mult)
  then show ?thesis
    by (subst show_nat.simps, subst show_nat.simps, subst show_nat.simps) simp
qed

lemma reply_code_digits [simp]: "length (show_nat (reply_num code)) = 3"
  by (rule show_nat_three) (use reply_num_range [of code] in simp_all)

lemma format_reply_cases:
  "64 \<le> sz \<Longrightarrow> ftp_format_reply code message sz =
    (let msg = (case message of None \<Rightarrow> get_default_message code | Some m \<Rightarrow> m)
     in if length msg + 6 \<ge> sz then Inl FTP_ERR_INVALID_PARAM
        else Inr (show_nat (reply_num code) @ '' '' @ msg @ CRLF))"
  by (simp add: ftp_format_reply_def Let_def)

lemma length_get_default_message: "length (get_default_message code) \<le> 50"
  by (cases code) (simp_all add: get_default_message_def)

lemma strip_right_Nil [simp]: "strip_right P [] = []"
  by (simp add: strip_right_def)

lemma strip_right_last: "strip_right P s \<noteq> [] \<Longrightarrow> \<not> P (last (strip_right P s))"
proof -
  assume "strip_right P s \<noteq> []"
  then have "dropWhile P (rev s) \<noteq> []" by (simp add: strip_right_def)
  then show ?thesis
    using hd_dropWhile [of P "rev s"] by (simp add: strip_right_def last_rev)
qed

lemma strip_right_prefix: "\<exists>t. s = strip_right P s @ t"
  unfolding strip_right_def
  by (metis rev_append rev_rev_ident takeWhile_dropWhile_id)

lemma strip_right_hd: "strip_right P s \<noteq> [] \<Longrightarrow> hd (strip_right P s) = hd s"
  by (metis hd_append2 strip_right_prefix)

lemma strip_right_trimmed: "s \<noteq> [] \<Longrightarrow> \<not> P (last s) \<Longrightarrow> strip_right P s = s"
  by (cases s rule: rev_cases) (simp_all add: strip_right_def)

lemma strip_right_split: "\<exists>t. s = strip_right P s @ t \<and> list_all P t"
  unfolding strip_right_def
  by (rule exI [of _ "rev (takeWhile P (rev s))"])
     (auto simp: list_all_iff rev_append [symmetric] simp del: rev_append dest: set_takeWhileD)

lemma split_first_space:
  assumes "x \<in> set s"
  shows "s = takeWhile (\<lambda>y. y \<noteq> x) s @ [x] @ drop (length (takeWhile (\<lambda>y. y \<noteq> x) s) + 1) s"
  using assms by (induction s) auto

lemma hd_dropWhile_not: "dropWhile P s \<noteq> [] \<Longrightarrow> \<not> P (hd (dropWhile P s))"
  by (rule hd_dropWhile)

text \<open>White space at both ends is what trimming removes.\<close>

lemma trim_split:
  "\<exists>u v. s = u @ strip_right P (dropWhile P s) @ v \<and> list_all P u \<and> list_all P v \<and>
    (strip_right P (dropWhile P s) \<noteq> [] \<longrightarrow>
      \<not> P (hd (strip_right P (dropWhile P s))) \<and> \<not> P (last (strip_right P (dropWhile P s))))"
proof -
  obtain v where v: "dropWhile P s = strip_right P (dropWhile P s) @ v" "list_all P v"
    using strip_right_split by metis
  have "s = takeWhile P s @ strip_right P (dropWhile P s) @ v" using v(1) by (metis takeWhile_dropWhile_id)
  moreover have "list_all P (takeWhile P s)" by (auto simp: list_all_iff dest: set_takeWhileD)
  moreover have "\<not> P (hd (strip_right P (dropWhile P s)))" if "strip_right P (dropWhile P s) \<noteq> []"
    using strip_right_hd [OF that] hd_dropWhile_not [of P s] that by fastforce
  ultimately show ?thesis using v(2) strip_right_last by blast
qed

section \<open>Properties\<close>

text \<open>
  C19: what a parsed command is.  The command is the text before the first space, or the whole line if there
  is no space, in upper case; it is not empty, has no lower-case letter and fits its buffer.  The arguments
  are the rest of the line without the white space at both ends, and fit theirs.  Nothing else is
  removed: without a space, a line end would stay in the command.
\<close>

theorem parse_command_line_result:
  assumes "ftp_parse_command_line line cmd_size args_size = Inr (cmd, args)"
  shows "\<exists>c. 0 < length c \<and> length c < cmd_size \<and> CHR '' '' \<notin> set c \<and>
     cmd = map toupper c \<and> list_all (\<lambda>x. \<not> islower x) cmd \<and>
     (line = c \<and> args = [] \<or>
      (\<exists>u v. line = c @ '' '' @ u @ args @ v \<and> list_all isspace u \<and> list_all isspace v \<and> length args < args_size \<and>
         (args \<noteq> [] \<longrightarrow> \<not> isspace (hd args) \<and> \<not> isspace (last args))))"
proof -
  let ?c = "takeWhile (\<lambda>x. x \<noteq> CHR '' '') line"
  let ?rest = "drop (length ?c + 1) line"
  have c: "0 < length ?c" "length ?c < cmd_size" "cmd = map toupper ?c" "CHR '' '' \<notin> set ?c"
    using assms by (auto simp: ftp_parse_command_line_def Let_def dest: set_takeWhileD split: if_splits)
  have low: "list_all (\<lambda>x. \<not> islower x) cmd" by (simp add: c(3) list_all_iff)
  show ?thesis
  proof (cases "CHR '' '' \<in> set line")
    case False
    then have "line = ?c" by (intro sym [OF takeWhile_eq_all_conv [THEN iffD2]]) auto
    moreover have "args = []" using assms False by (auto simp: ftp_parse_command_line_def Let_def split: if_splits)
    ultimately show ?thesis by (intro exI [of _ ?c] conjI disjI1 c low)
  next
    case True
    have line: "line = ?c @ '' '' @ ?rest" by (rule split_first_space [OF True])
    have args: "args = strip_right isspace (dropWhile isspace ?rest)" "length args < args_size"
      using assms True by (auto simp: ftp_parse_command_line_def Let_def split: if_splits)
    obtain u v where uv: "?rest = u @ args @ v" "list_all isspace u" "list_all isspace v"
      "args \<noteq> [] \<longrightarrow> \<not> isspace (hd args) \<and> \<not> isspace (last args)"
      using trim_split [of ?rest isspace] unfolding args(1) [symmetric] by blast
    have "line = ?c @ '' '' @ u @ args @ v" using line unfolding uv(1) .
    then show ?thesis
      by (intro exI [of _ ?c] exI [of _ u] exI [of _ v] conjI disjI2 c low uv args(2))
  qed
qed

text \<open>
  C20: Parsing inverts printing: an upper-case command without spaces, followed by
  a space and trimmed arguments, is parsed into the same command and arguments.
\<close>

theorem parse_command_line_round_trip:
  assumes "cmd \<noteq> []" "map toupper cmd = cmd" "CHR '' '' \<notin> set cmd" "length cmd < cmd_size"
    and "args \<noteq> []" "\<not> isspace (hd args)" "\<not> isspace (last args)" "length args < args_size"
  shows "ftp_parse_command_line (cmd @ '' '' @ args) cmd_size args_size = Inr (cmd, args)"
proof -
  have tw: "takeWhile (\<lambda>c. c \<noteq> CHR '' '') (cmd @ '' '' @ args) = cmd"
    using assms(3) by (subst takeWhile_append2) auto
  have "dropWhile isspace args = args" using assms(5,6) by (cases args) auto
  then show ?thesis
    using assms strip_right_trimmed [of args isspace, OF assms(5,7)]
    by (simp add: ftp_parse_command_line_def tw [simplified] Let_def)
qed

text \<open>
  C21: A formatted reply is the three-digit code, a space, the message and CRLF,
  fits the reply buffer, and the code can be read back; formatting fails exactly
  when the message leaves no room for them.  Every default message fits.
\<close>

theorem format_reply_wire_format:
  "(case ftp_format_reply code (Some msg) FTP_REPLY_BUFFER_SIZE of
      Inl e \<Rightarrow> e = FTP_ERR_INVALID_PARAM \<and> length msg + 6 \<ge> FTP_REPLY_BUFFER_SIZE
    | Inr s \<Rightarrow> length s = length msg + 6 \<and> length s < FTP_REPLY_BUFFER_SIZE \<and>
              read_nat (take 3 s) = reply_num code \<and> drop 3 s = '' '' @ msg @ CRLF) \<and>
   (\<exists>s. ftp_format_reply code None FTP_REPLY_BUFFER_SIZE = Inr s)"
  using length_get_default_message [of code]
  by (auto simp: format_reply_cases Let_def split: sum.splits)

subsection \<open>Witnesses\<close>

theorem parse_command_line_result_witness:
  "\<exists>c u v. ''pwd'' @ CRLF = c \<and> ftp_parse_command_line c 64 512 = Inr (map toupper c, []) \<and>
     ftp_parse_command_line (''cwd   /srv/x '' @ CRLF) 64 512 = Inr (''CWD'', ''/srv/x'') \<and>
     ''cwd   /srv/x '' @ CRLF = ''cwd '' @ u @ ''/srv/x'' @ v \<and> list_all isspace u \<and> list_all isspace v"
proof -
  have a: "ftp_parse_command_line (''pwd'' @ CRLF) 64 512 = Inr (''PWD'' @ CRLF, [])" by code_simp
  have b: "ftp_parse_command_line (''cwd   /srv/x '' @ CRLF) 64 512 = Inr (''CWD'', ''/srv/x'')" by code_simp
  have up: "map toupper (''pwd'' @ CRLF) = ''PWD'' @ CRLF" by code_simp
  have low: "map toupper ''cwd'' = ''CWD''" "map toupper ''x'' = ''X''" by code_simp+
  obtain c where c: "CHR '' '' \<notin> set c" "''cwd   /srv/x '' @ CRLF = c \<or>
      (\<exists>u v. ''cwd   /srv/x '' @ CRLF = c @ '' '' @ u @ ''/srv/x'' @ v \<and> list_all isspace u \<and> list_all isspace v)"
    "map toupper c = ''CWD''"
    using parse_command_line_result [OF b] by metis
  have "c \<noteq> ''cwd   /srv/x '' @ CRLF" using c(1) by auto
  with c(2) obtain u v where uv: "''cwd   /srv/x '' @ CRLF = c @ '' '' @ u @ ''/srv/x'' @ v" "list_all isspace u" "list_all isspace v"
    by blast
  have "length c = 3" using arg_cong [OF c(3), of length] by simp
  then have "c = ''cwd''" using arg_cong [OF uv(1), of "take 3"] by simp
  then show ?thesis using a up b uv by auto
qed

theorem parse_command_line_round_trip_witness:
  "ftp_parse_command_line (''RETR'' @ '' '' @ ''a b'') 64 512 = Inr (''RETR'', ''a b'')"
proof -
  have "map toupper ''RETR'' = ''RETR''" "\<not> isspace (hd ''a b'')" "\<not> isspace (last ''a b'')"
    by code_simp+
  then show ?thesis using parse_command_line_round_trip [of "''RETR''" 64 "''a b''" 512] by simp
qed

end
