(* ===== verification/Pal_Network.thy ===== *)
theory Pal_Network
  imports Os_Trace
begin

text \<open>
  Model of the socket part of the platform layer, \<^verbatim>\<open>src/src/pal_network.c\<close>, for
  the POSIX build: socket options, the send loop, and addresses.
\<close>

unbundle bit_operations_syntax

section \<open>Definitions\<close>

definition setsockopt :: "'w os \<Rightarrow> int \<Rightarrow> sockopt \<Rightarrow> int \<Rightarrow> 'w st \<Rightarrow> (int \<times> 'w st) ret" where
  "setsockopt os fd opt v st = do {
     (r, st) \<leftarrow> syscall os (Sys_setsockopt fd opt v) st; Some (r_ret r, st) }"

definition pal_network_init :: ftp_error where
  "pal_network_init = FTP_OK"

definition pal_socket_configure :: "'w os \<Rightarrow> int \<Rightarrow> 'w st \<Rightarrow> (ftp_error \<times> 'w st) ret" where
  "pal_socket_configure os fd st =
    (if fd < 0 then Some (FTP_ERR_INVALID_PARAM, st)
     else do {
       (_, st) \<leftarrow> setsockopt os fd TCP_NODELAY 1 st;
       (_, st) \<leftarrow> setsockopt os fd SO_SNDBUF FTP_TCP_SNDBUF st;
       (_, st) \<leftarrow> setsockopt os fd SO_RCVBUF FTP_TCP_RCVBUF st;
       (_, st) \<leftarrow> setsockopt os fd SO_KEEPALIVE 1 st;
       (_, st) \<leftarrow> setsockopt os fd TCP_KEEPIDLE 60 st;
       (_, st) \<leftarrow> setsockopt os fd TCP_KEEPINTVL 10 st;
       (_, st) \<leftarrow> setsockopt os fd TCP_KEEPCNT 3 st;
       Some (FTP_OK, st) })"

text \<open>The flags of \<open>fcntl\<close> are a C \<open>int\<close>; \<open>O_NONBLOCK\<close> is bit 11.\<close>

definition O_NONBLOCK :: "32 word" where
  "O_NONBLOCK = 0x800"

definition change_flags ::
  "'w os \<Rightarrow> (32 word \<Rightarrow> 32 word) \<Rightarrow> int \<Rightarrow> 'w st \<Rightarrow> (ftp_error \<times> 'w st) ret" where
  "change_flags os f fd st =
    (if fd < 0 then Some (FTP_ERR_INVALID_PARAM, st)
     else do {
       (r, st) \<leftarrow> syscall os (Sys_getfl fd) st;
       if r_ret r < 0 then Some (FTP_ERR_SOCKET_SEND, st)
       else do {
         (r, st) \<leftarrow> syscall os (Sys_setfl fd (f (word_of_int (r_ret r)))) st;
         Some (if r_ret r < 0 then FTP_ERR_SOCKET_SEND else FTP_OK, st) } })"

definition pal_socket_set_nonblocking :: "'w os \<Rightarrow> int \<Rightarrow> 'w st \<Rightarrow> (ftp_error \<times> 'w st) ret" where
  "pal_socket_set_nonblocking os = change_flags os (\<lambda>w. w OR O_NONBLOCK)"

definition pal_socket_set_blocking :: "'w os \<Rightarrow> int \<Rightarrow> 'w st \<Rightarrow> (ftp_error \<times> 'w st) ret" where
  "pal_socket_set_blocking os = change_flags os (\<lambda>w. w AND NOT O_NONBLOCK)"

definition pal_socket_cork :: "'w os \<Rightarrow> int \<Rightarrow> 'w st \<Rightarrow> (int \<times> 'w st) ret" where
  "pal_socket_cork os fd st = setsockopt os fd TCP_CORK 1 st"

definition pal_socket_uncork :: "'w os \<Rightarrow> int \<Rightarrow> 'w st \<Rightarrow> (int \<times> 'w st) ret" where
  "pal_socket_uncork os fd st = setsockopt os fd TCP_CORK 0 st"

definition pal_socket_set_reuseaddr :: "'w os \<Rightarrow> int \<Rightarrow> 'w st \<Rightarrow> (ftp_error \<times> 'w st) ret" where
  "pal_socket_set_reuseaddr os fd st =
    (if fd < 0 then Some (FTP_ERR_INVALID_PARAM, st)
     else do {
       (r, st) \<leftarrow> setsockopt os fd SO_REUSEADDR 1 st;
       Some (if r < 0 then FTP_ERR_SOCKET_SEND else FTP_OK, st) })"

text \<open>The option value stands for the timeout in milliseconds.\<close>

definition pal_socket_set_timeouts ::
  "'w os \<Rightarrow> int \<Rightarrow> nat \<Rightarrow> nat \<Rightarrow> 'w st \<Rightarrow> (ftp_error \<times> 'w st) ret" where
  "pal_socket_set_timeouts os fd recv_ms send_ms st =
    (if fd < 0 then Some (FTP_ERR_INVALID_PARAM, st)
     else do {
       (r, st) \<leftarrow> setsockopt os fd SO_RCVTIMEO (int recv_ms) st;
       if r < 0 then Some (FTP_ERR_SOCKET_SEND, st)
       else do {
         (r, st) \<leftarrow> setsockopt os fd SO_SNDTIMEO (int send_ms) st;
         Some (if r < 0 then FTP_ERR_SOCKET_SEND else FTP_OK, st) } })"

definition pal_socket_configure_data :: "'w os \<Rightarrow> int \<Rightarrow> 'w st \<Rightarrow> (ftp_error \<times> 'w st) ret" where
  "pal_socket_configure_data os fd st =
    (if fd < 0 then Some (FTP_ERR_INVALID_PARAM, st)
     else do {
       (_, st) \<leftarrow> setsockopt os fd TCP_NODELAY 0 st;
       (_, st) \<leftarrow> pal_socket_set_timeouts os fd FTP_DATA_IO_TIMEOUT_MS FTP_DATA_IO_TIMEOUT_MS st;
       (_, st) \<leftarrow> setsockopt os fd SO_LINGER FTP_DATA_LINGER_TIMEOUT_S st;
       (_, st) \<leftarrow> setsockopt os fd SO_KEEPALIVE 1 st;
       (_, st) \<leftarrow> setsockopt os fd TCP_KEEPIDLE 60 st;
       (_, st) \<leftarrow> setsockopt os fd TCP_KEEPINTVL 10 st;
       (_, st) \<leftarrow> setsockopt os fd TCP_KEEPCNT 3 st;
       Some (FTP_OK, st) })"

text \<open>
  The loop of \<open>pal_send_all\<close>; \<open>rest\<close> is the buffer from \<open>p + total\<close> on.  It does not
  end if every \<open>send\<close> is interrupted or would block.
\<close>

partial_function (option) send_all_loop ::
  "'w os \<Rightarrow> int \<Rightarrow> byte list \<Rightarrow> nat \<Rightarrow> 'w st \<Rightarrow> (int \<times> 'w st) ret" where
  "send_all_loop os fd rest tot st =
    (if rest = [] then Some (int tot, st)
     else do {
       (r, st) \<leftarrow> syscall os (Sys_send fd rest) st;
       if r_ret r > 0
       then send_all_loop os fd (drop (nat (r_ret r)) rest) (tot + nat (r_ret r)) st
       else if r_ret r = 0 then Some (-1, set_errno EPIPE st)
       else if errno st = EINTR then send_all_loop os fd rest tot st
       else if errno st = EAGAIN then do {
         (_, st) \<leftarrow> syscall os (Sys_usleep 1000) st;
         send_all_loop os fd rest tot st }
       else Some (-1, st) })"

definition pal_send_all :: "'w os \<Rightarrow> int \<Rightarrow> byte list \<Rightarrow> 'w st \<Rightarrow> (int \<times> 'w st) ret" where
  "pal_send_all os fd buf st =
    (if buf = [] then Some (-1, set_errno EINVAL st)
     else if fd < 0 then Some (-1, set_errno EBADF st)
     else send_all_loop os fd buf 0 st)"

subsection \<open>Addresses\<close>

definition octet :: "32 word \<Rightarrow> nat \<Rightarrow> nat" where
  "octet ip k = unat (drop_bit (8 * k) ip AND 0xFF)"

definition inet_ntop :: "32 word \<Rightarrow> string" where
  "inet_ntop ip = show_nat (octet ip 3) @ ''.'' @ show_nat (octet ip 2) @ ''.'' @
                  show_nat (octet ip 1) @ ''.'' @ show_nat (octet ip 0)"

definition pton_octet :: "string \<Rightarrow> nat option" where
  "pton_octet s =
    (if s \<noteq> [] \<and> length s \<le> 3 \<and> list_all isdigit s \<and> (length s > 1 \<longrightarrow> hd s \<noteq> CHR ''0'') \<and>
        read_nat s \<le> 255
     then Some (read_nat s) else None)"

definition inet_pton :: "string \<Rightarrow> 32 word option" where
  "inet_pton s =
    (case map pton_octet (split_on CHR ''.'' s) of
       [Some a, Some b, Some c, Some d] \<Rightarrow>
         Some (push_bit 24 (of_nat a) OR push_bit 16 (of_nat b) OR push_bit 8 (of_nat c) OR of_nat d)
     | _ \<Rightarrow> None)"

text \<open>The byte order of the network is the opposite of that of the modelled platform.\<close>

definition PAL_HTONS :: "16 word \<Rightarrow> 16 word" where
  "PAL_HTONS x = push_bit 8 x OR drop_bit 8 x"

definition PAL_NTOHS :: "16 word \<Rightarrow> 16 word" where
  "PAL_NTOHS x = push_bit 8 x OR drop_bit 8 x"

definition pal_sockaddr_to_ip :: "sockaddr_in \<Rightarrow> nat \<Rightarrow> ftp_error + string" where
  "pal_sockaddr_to_ip addr sz =
    (if sz < INET_ADDRSTRLEN then Inl FTP_ERR_INVALID_PARAM else Inr (inet_ntop (sin_addr addr)))"

definition pal_sockaddr_get_port :: "sockaddr_in \<Rightarrow> 16 word" where
  "pal_sockaddr_get_port addr = PAL_NTOHS (sin_port addr)"

text \<open>\<open>pal_make_sockaddr\<close> returns its error code and the new contents of \<open>*addr\<close>.\<close>

definition pal_make_sockaddr :: "string \<Rightarrow> 16 word \<Rightarrow> sockaddr_in \<Rightarrow> ftp_error \<times> sockaddr_in" where
  "pal_make_sockaddr ip port addr =
    (if port = 0 then (FTP_ERR_INVALID_PARAM, addr)
     else case inet_pton ip of
            None \<Rightarrow> (FTP_ERR_INVALID_PARAM, \<lparr>sin_addr = 0, sin_port = 0\<rparr>)
          | Some a \<Rightarrow> (FTP_OK, \<lparr>sin_addr = a, sin_port = PAL_HTONS port\<rparr>))"

definition pal_network_get_primary_ip :: "'w os \<Rightarrow> nat \<Rightarrow> 'w st \<Rightarrow> ((ftp_error + string) \<times> 'w st) ret" where
  "pal_network_get_primary_ip os sz st =
    (if sz < INET_ADDRSTRLEN then Some (Inl FTP_ERR_INVALID_PARAM, st)
     else do {
       (r, st) \<leftarrow> syscall os Sys_socket st;
       if r_ret r < 0 then Some (Inl FTP_ERR_SOCKET_CREATE, st)
       else let fd = r_ret r in do {
         (c, st) \<leftarrow> syscall os (Sys_connect fd \<lparr>sin_addr = 0x08080808, sin_port = PAL_HTONS 53\<rparr>) st;
         if r_ret c < 0 then do {
           (_, st) \<leftarrow> syscall os (Sys_close fd) st;
           Some (Inl FTP_ERR_SOCKET_CREATE, st) }
         else do {
           (g, st) \<leftarrow> syscall os (Sys_getsockname fd) st;
           (_, st) \<leftarrow> syscall os (Sys_close fd) st;
           if r_ret g < 0 then Some (Inl FTP_ERR_INVALID_PARAM, st)
           else Some (pal_sockaddr_to_ip (r_addr g) sz, st) } } })"

section \<open>Lemmas\<close>

text \<open>Sending on \<open>fd\<close>: the calls that send, wait and tell the time.\<close>

definition sends :: "int \<Rightarrow> event \<Rightarrow> bool" where
  "sends fd e \<longleftrightarrow> (case fst e of Sys_send fd' _ \<Rightarrow> fd' = fd | Sys_usleep _ \<Rightarrow> True | Sys_time \<Rightarrow> True | _ \<Rightarrow> False)"

lemma sends_names: "sends fd e \<Longrightarrow> ev_names e = []"
  by (cases e) (simp add: sends_def split: syscall.splits)

lemma post_setsockopt [wp]:
  "(\<And>r w e t. list_all quiet t \<Longrightarrow> Q r (adv w e t st)) \<Longrightarrow> post (setsockopt os fd opt v st) Q"
  unfolding setsockopt_def by (intro wp) (simp add: quiet_def)

lemma post_cork [wp]:
  "(\<And>r w e t. list_all quiet t \<Longrightarrow> Q r (adv w e t st)) \<Longrightarrow> post (pal_socket_cork os fd st) Q"
  "(\<And>r w e t. list_all quiet t \<Longrightarrow> Q r (adv w e t st)) \<Longrightarrow> post (pal_socket_uncork os fd st) Q"
  unfolding pal_socket_cork_def pal_socket_uncork_def by (rule wp, blast)+

lemma post_reuseaddr [wp]:
  assumes "\<And>r w e t. list_all quiet t \<Longrightarrow> Q r (adv w e t st)"
  shows "post (pal_socket_set_reuseaddr os fd st) Q"
  using assms [of "[]" _ "world st" "errno st"] unfolding pal_socket_set_reuseaddr_def
  by (intro wp assms) simp_all

lemma post_set_timeouts [wp]:
  assumes "\<And>r w e t. list_all quiet t \<Longrightarrow> Q r (adv w e t st)"
  shows "post (pal_socket_set_timeouts os fd a b st) Q"
  using assms [of "[]" _ "world st" "errno st"] unfolding pal_socket_set_timeouts_def
  by (intro wp) (simp_all add: assms)

lemma post_configure_data [wp]:
  assumes "\<And>r w e t. list_all quiet t \<Longrightarrow> Q r (adv w e t st)"
  shows "post (pal_socket_configure_data os fd st) Q"
  using assms [of "[]" _ "world st" "errno st"] unfolding pal_socket_configure_data_def
  by (intro wp) (simp_all add: assms)

lemma post_configure [wp]:
  assumes "\<And>r w e t. list_all quiet t \<Longrightarrow> Q r (adv w e t st)"
  shows "post (pal_socket_configure os fd st) Q"
  using assms [of "[]" _ "world st" "errno st"] unfolding pal_socket_configure_def
  by (intro wp) (simp_all add: assms quiet_def)

lemma post_change_flags [wp]:
  assumes "\<And>r w e t. list_all quiet t \<Longrightarrow> Q r (adv w e t st)"
  shows "post (change_flags os f fd st) Q"
  using assms [of "[]" _ "world st" "errno st"] unfolding change_flags_def
  by (intro wp) (simp_all add: assms quiet_def)

lemma sends_neutral: "list_all (sends fd) t \<Longrightarrow> neutral t"
proof (induction t)
  case (Cons e t)
  then show ?case
    by (cases e) (auto simp: sends_def intro!: neutral_Cons dest: quiet_event split: syscall.splits)
qed simp

interpretation snd_loop: transfer "sends fd" "sent_to fd" for fd
  by unfold_locales simp_all

lemma send_all_loop_spec:
  assumes sat: "os_sat os posix"
  shows "post (send_all_loop os fd rest tot st) (xfer_post (sends fd) (sent_to fd) rest tot st)"
proof (rule postI)
  fix r st' assume ret: "send_all_loop os fd rest tot st = Some (r, st')"
  let ?P = "\<lambda>os fd rest tot st y. os_sat os posix \<longrightarrow>
    xfer_post (sends fd) (sent_to fd) rest tot st (fst y) (snd y)"
  have "?P os fd rest tot st (r, st')"
  proof (rule send_all_loop.raw_induct [where P = ?P, OF _ ret], rule impI, goal_cases)
    case (1 loop os fd rest tot st y)
    have IH: "post (loop os fd rest tot st) (xfer_post (sends fd) (sent_to fd) rest tot st)" for rest tot st
      using 1(1,3) by (fastforce simp: post_def)
    have "post (Some y) (xfer_post (sends fd) (sent_to fd) rest tot st)"
      unfolding 1(2) [symmetric]
      apply (intro post_syscall_sat [OF 1(3)] wp post_mono [OF IH])
      subgoal by (simp add: snd_loop.finished)
      subgoal by (erule snd_loop.step) (simp_all add: sends_def posix_def)
      subgoal by (simp add: snd_loop.stop sends_def)
      subgoal by (erule snd_loop.step) (simp_all add: sends_def)
      subgoal by (simp, erule snd_loop.step) (simp_all add: sends_def quiet_def)
      subgoal by (simp add: snd_loop.stop sends_def)
      done
    then show ?case by (cases y) (simp add: post_def)
  qed
  then show "xfer_post (sends fd) (sent_to fd) rest tot st r st'" using sat by simp
qed

lemma post_send_all:
  assumes sat: "os_sat os posix"
    and Q: "\<And>r w e t. list_all (sends fd) t \<Longrightarrow> prefix (sent_to fd t) buf \<Longrightarrow>
      r = -1 \<or> r = int (length buf) \<and> sent_to fd t = buf \<Longrightarrow> Q r (adv w e t st)"
  shows "post (pal_send_all os fd buf st) Q"
  unfolding pal_send_all_def
proof (intro wp post_mono [OF send_all_loop_spec [OF sat]])
  show "Q (-1) (set_errno EINVAL st)" "Q (-1) (set_errno EBADF st)"
    unfolding set_errno_def by (rule Q; simp)+
next
  fix r s assume "xfer_post (sends fd) (sent_to fd) buf 0 st r s"
  then show "Q r s" by (rule xfer_postE) (simp add: Q)
qed

lemma send_all_loop_returns:
  assumes "os_sat os posix" "retry_bound os \<mu>"
  shows "\<exists>r st'. send_all_loop os fd rest tot st = Some (r, st')"
proof (induction "length rest + \<mu> (world st)" arbitrary: rest tot st rule: less_induct)
  case less
  show ?case
  proof (cases "os (world st) (Sys_send fd rest)")
    case (Pair r w)
    then have \<mu>: "\<mu> w \<le> \<mu> (world st)" "r_ret r < 0 \<Longrightarrow> r_errno r = EINTR \<or> r_errno r = EAGAIN \<Longrightarrow> \<mu> w < \<mu> (world st)"
      using assms(2) unfolding retry_bound_def by blast+
    obtain r2 w2 where us: "os w (Sys_usleep 1000) = (r2, w2)" by (cases "os w (Sys_usleep 1000)")
    then have \<mu>2: "\<mu> w2 \<le> \<mu> w" using assms(2) unfolding retry_bound_def by blast
    let ?st = "adv w (if r_ret r < 0 then r_errno r else errno st) [(Sys_send fd rest, r)] st"
    let ?st2 = "adv w2 (if r_ret r2 < 0 then r_errno r2 else errno ?st) [(Sys_usleep 1000, r2)] ?st"
    have sent: "\<exists>ra st'. send_all_loop os fd (drop (nat (r_ret r)) rest) (tot + nat (r_ret r)) ?st = Some (ra, st')"
      if "rest \<noteq> []" "0 < r_ret r"
      by (rule less) (use that \<mu>(1) in \<open>cases rest; simp; linarith\<close>)
    have again: "\<exists>ra st'. send_all_loop os fd rest tot ?st = Some (ra, st')"
      if "r_ret r < 0" "r_errno r = EINTR"
      by (rule less) (use that \<mu>(2) in simp)
    have slept: "\<exists>ra st'. send_all_loop os fd rest tot ?st2 = Some (ra, st')"
      if "r_ret r < 0" "r_errno r = EAGAIN"
      by (rule less) (use that \<mu>(2) \<mu>2 in simp)
    show ?thesis
      using sent again slept
      by (subst send_all_loop.simps) (auto simp: syscall_def Pair us simp del: adv_adv)
  qed
qed

lemma post_get_primary_ip [wp]:
  assumes "\<And>r w e t. neutral t \<Longrightarrow> Q r (adv w e t st)"
  shows "post (pal_network_get_primary_ip os sz st) Q"
  using assms [of "[]" _ "world st" "errno st"] unfolding pal_network_get_primary_ip_def
  by (intro wp) (simp_all add: assms neutral_def)

subsection \<open>Addresses\<close>

lemma show_read_nat:
  assumes "list_all isdigit s" "s \<noteq> []" "length s > 1 \<longrightarrow> hd s \<noteq> CHR ''0''"
  shows "show_nat (read_nat s) = s"
  using assms
proof (induction s rule: rev_induct)
  case Nil
  then show ?case by simp
next
  case (snoc c xs)
  have c: "digit_val c < 10" "digit_char (digit_val c) = c"
    using snoc.prems(1) by (auto simp: isdigit_def digit_val_def digit_char_def)
  show ?case
  proof (cases "xs = []")
    case True
    then show ?thesis using c by (subst show_nat.simps) (simp add: read_nat_def)
  next
    case False
    then have h: "hd xs \<noteq> CHR ''0''" "isdigit (hd xs)" using snoc.prems by (cases xs; simp)+
    have pos: "read_nat xs > 0"
    proof -
      have "foldl (\<lambda>a c. 10 * a + digit_val c) k ys > 0" if "k > 0" for k ys
        using that by (induction ys arbitrary: k) auto
      moreover have "digit_val (hd xs) > 0"
      proof -
        have "char_code (hd xs) \<noteq> char_code CHR ''0''"
          using h(1) by (metis char_of_char_code)
        then show ?thesis using h(2) by (simp add: digit_val_def isdigit_def char_code_def)
      qed
      ultimately show ?thesis using False by (cases xs) (simp_all add: read_nat_def)
    qed
    have ih: "show_nat (read_nat xs) = xs"
      using snoc False h(1) by simp
    have "\<not> read_nat (xs @ [c]) < 10" "read_nat (xs @ [c]) div 10 = read_nat xs"
      "read_nat (xs @ [c]) mod 10 = digit_val c"
      using pos c by (simp_all add: read_nat_append_digit)
    then show ?thesis using ih c(2) by (subst show_nat.simps) simp
  qed
qed

lemma pton_octet_show: "pton_octet s = Some n \<Longrightarrow> show_nat n = s \<and> n < 256"
  by (auto simp: pton_octet_def show_read_nat split: if_splits)

lemma show_octet_short: "n < 256 \<Longrightarrow> length (show_nat n) \<le> 3"
  by (subst show_nat.simps, subst show_nat.simps, subst show_nat.simps)
     (simp add: div_mult2_eq [symmetric] less_mult_imp_div_less)

lemma show_nat_no_zero: "length (show_nat n) > 1 \<Longrightarrow> hd (show_nat n) \<noteq> CHR ''0''"
proof (induction n rule: show_nat.induct)
  case (1 n)
  show ?case
  proof (cases "n < 10")
    case True
    then show ?thesis using 1 by (subst (asm) (2) show_nat.simps) simp
  next
    case False
    then have n: "show_nat n = show_nat (n div 10) @ [digit_char (n mod 10)]"
      by (subst show_nat.simps) simp
    show ?thesis
    proof (cases "n div 10 < 10")
      case True
      then have "show_nat (n div 10) = [digit_char (n div 10)]" by (subst show_nat.simps) simp
      moreover have "digit_char (n div 10) \<noteq> CHR ''0''"
      proof
        assume "digit_char (n div 10) = CHR ''0''"
        then have "digit_val (digit_char (n div 10)) = 0" by (simp add: digit_val_def char_code_def)
        then show False using True False by simp
      qed
      ultimately show ?thesis using n by simp
    next
      case big: False
      then have "length (show_nat (n div 10)) > 1" by (subst show_nat.simps) (simp add: Suc_lessI)
      then show ?thesis using 1(1) [OF False] n by simp
    qed
  qed
qed

lemma pton_octet_of_show: "n < 256 \<Longrightarrow> pton_octet (show_nat n) = Some n"
  by (simp add: pton_octet_def show_octet_short show_nat_digits show_nat_no_zero)

lemma show_nat_no_dot: "CHR ''.'' \<notin> set (show_nat n)" "CHR '','' \<notin> set (show_nat n)"
  using show_nat_digits [of n] by (auto simp: list_all_iff isdigit_def char_code_def)

lemma split_on_four: "split_on c s = [a, b, d, e] \<Longrightarrow> s = a @ c # b @ c # d @ c # e"
proof -
  have "s = concat (map (\<lambda>x. x @ [c]) (butlast (split_on c s))) @ last (split_on c s)"
  proof (induction s)
    case Nil
    then show ?case by simp
  next
    case (Cons x s)
    then show ?case by (cases "split_on c s") auto
  qed
  then show "split_on c s = [a, b, d, e] \<Longrightarrow> s = a @ c # b @ c # d @ c # e" by simp
qed

definition quad :: "nat \<Rightarrow> nat \<Rightarrow> nat \<Rightarrow> nat \<Rightarrow> 32 word" where
  "quad a b c d = push_bit 24 (of_nat a) OR push_bit 16 (of_nat b) OR push_bit 8 (of_nat c) OR of_nat d"

lemma octet_quad:
  assumes "a < 256" "b < 256" "c < 256" "d < 256"
  shows "octet (quad a b c d) 3 = a" "octet (quad a b c d) 2 = b"
    "octet (quad a b c d) 1 = c" "octet (quad a b c d) 0 = d"
proof -
  have low: "bit n k \<Longrightarrow> k < 8" if "n < 256" for n k :: nat
  proof -
    assume "bit n k"
    moreover have "take_bit 8 n = n" using that by (simp add: take_bit_nat_eq_self)
    ultimately show "k < 8" by (metis bit_take_bit_iff)
  qed
  have byte: "unat (of_nat n :: 32 word) = n" if "n < 256" for n
    using that by (simp add: unat_of_nat take_bit_nat_eq_self)
  have m: "(0xFF :: 32 word) = mask 8" by (simp add: mask_eq_exp_minus_1)
  note l = low [OF assms(1)] low [OF assms(2)] low [OF assms(3)] low [OF assms(4)]
  have "drop_bit 24 (quad a b c d) AND mask 8 = of_nat a" "drop_bit 16 (quad a b c d) AND mask 8 = of_nat b"
    "drop_bit 8 (quad a b c d) AND mask 8 = of_nat c" "quad a b c d AND mask 8 = of_nat d"
    by (rule bit_word_eqI; auto simp: quad_def bit_simps dest: l)+
  then show "octet (quad a b c d) 3 = a" "octet (quad a b c d) 2 = b"
    "octet (quad a b c d) 1 = c" "octet (quad a b c d) 0 = d"
    using assms by (simp_all add: octet_def m byte)
qed

lemma octet_take_bit: "octet ip k = unat (take_bit 8 (drop_bit (8 * k) ip))"
proof -
  have "(0xFF :: 32 word) = mask 8" by (simp add: mask_eq_exp_minus_1)
  then show ?thesis by (simp only: octet_def take_bit_eq_mask)
qed

lemma octet_less: "octet ip k < 256"
  using take_bit_nat_less_exp [of 8 "unat (drop_bit (8 * k) ip)"]
  by (simp add: octet_take_bit unsigned_take_bit_eq)

lemma quad_octets: "quad (octet ip 3) (octet ip 2) (octet ip 1) (octet ip 0) = ip"
proof (rule bit_word_eqI)
  fix n assume "n < LENGTH(32)"
  moreover have "(of_nat (octet ip k) :: 32 word) = take_bit 8 (drop_bit (8 * k) ip)" for k
    by (simp add: octet_take_bit)
  ultimately show "bit (quad (octet ip 3) (octet ip 2) (octet ip 1) (octet ip 0)) n = bit ip n"
    by (cases "n < 8"; cases "n < 16"; cases "n < 24") (auto simp: quad_def bit_simps)
qed

lemma inet_pton_quad:
  assumes "inet_pton s = Some a"
  obtains b c d e where "a = quad b c d e" "b < 256" "c < 256" "d < 256" "e < 256"
     "s = show_nat b @ ''.'' @ show_nat c @ ''.'' @ show_nat d @ ''.'' @ show_nat e"
proof -
  obtain b c d e where m: "map pton_octet (split_on CHR ''.'' s) = [Some b, Some c, Some d, Some e]"
      and a: "a = quad b c d e"
    using assms by (auto simp: inet_pton_def quad_def split: list.splits option.splits)
  then obtain p q r t where s: "split_on CHR ''.'' s = [p, q, r, t]"
      and o: "pton_octet p = Some b" "pton_octet q = Some c" "pton_octet r = Some d" "pton_octet t = Some e"
    by auto
  show ?thesis
    using that [OF a] o [THEN pton_octet_show] split_on_four [OF s] by simp
qed

lemma ntohs_htons [simp]: "PAL_NTOHS (PAL_HTONS x) = x"
  by (rule bit_word_eqI) (auto simp: PAL_HTONS_def PAL_NTOHS_def bit_simps)

lemma htons_zero [simp]: "PAL_HTONS x = 0 \<longleftrightarrow> x = 0"
proof
  assume "PAL_HTONS x = 0"
  then have "PAL_NTOHS 0 = x" using ntohs_htons [of x] by simp
  then show "x = 0" by (simp add: PAL_NTOHS_def)
qed (simp add: PAL_HTONS_def)

lemma inet_ntop_pton: "inet_pton s = Some a \<Longrightarrow> inet_ntop a = s"
  by (erule inet_pton_quad) (simp add: inet_ntop_def octet_quad octet_quad [simplified])

lemma inet_pton_dotted:
  assumes "b < 256" "c < 256" "d < 256" "e < 256"
  shows "inet_pton (show_nat b @ ''.'' @ show_nat c @ ''.'' @ show_nat d @ ''.'' @ show_nat e) = Some (quad b c d e)"
  using assms
  by (simp add: inet_pton_def split_on_append_sep split_on_single show_nat_no_dot pton_octet_of_show quad_def)

lemma inet_pton_ntop: "inet_pton (inet_ntop ip) = Some ip"
  by (simp add: inet_ntop_def inet_pton_dotted [simplified] octet_less quad_octets [simplified])

section \<open>Properties\<close>

text \<open>
  C23: \<open>pal_send_all\<close> returns whenever only finitely many calls are interrupted or would
  block.  It hands the peer a prefix of the buffer, and reports success, the length of
  the buffer, only if the peer was given all of it.
\<close>

theorem send_all_delivers:
  assumes "os_sat os posix" "retry_bound os \<mu>"
  shows "\<exists>r st' t. pal_send_all os fd buf st = Some (r, st') \<and> trace st' = trace st @ t \<and>
    prefix (sent_to fd t) buf \<and> (r = -1 \<or> r = int (length buf) \<and> sent_to fd t = buf)"
proof -
  have "post (pal_send_all os fd buf st) (\<lambda>r st'. \<exists>t. trace st' = trace st @ t \<and>
      prefix (sent_to fd t) buf \<and> (r = -1 \<or> r = int (length buf) \<and> sent_to fd t = buf))"
    by (rule post_send_all [OF assms(1)]) auto
  moreover have "\<exists>r st'. pal_send_all os fd buf st = Some (r, st')"
    using send_all_loop_returns [OF assms] by (auto simp: pal_send_all_def)
  ultimately show ?thesis by (auto simp: post_def)
qed

text \<open>
  C24: Building a socket address from a dotted address and a port, and printing it, are
  inverse to each other: what \<open>pal_make_sockaddr\<close> accepts prints as the text it was given.
\<close>

theorem sockaddr_text_round_trip:
  assumes "pal_make_sockaddr ip port addr = (FTP_OK, a)"
  shows "pal_sockaddr_to_ip a INET_ADDRSTRLEN = Inr ip \<and> pal_sockaddr_get_port a = port \<and>
    pal_make_sockaddr (inet_ntop (sin_addr a)) (pal_sockaddr_get_port a) addr = (FTP_OK, a)"
  using assms inet_ntop_pton [of ip]
  by (auto simp: pal_make_sockaddr_def pal_sockaddr_to_ip_def pal_sockaddr_get_port_def split: if_splits option.splits)

section \<open>Witnesses\<close>

theorem send_all_delivers_witness:
  "\<exists>r st' t. pal_send_all script_os 4 [1, 2, 3] (start_st [(io_res (-1))\<lparr>r_errno := EINTR\<rparr>, io_res 2, io_res 1] zero_session)
      = Some (r, st') \<and>
     trace st' = trace (start_st [(io_res (-1))\<lparr>r_errno := EINTR\<rparr>, io_res 2, io_res 1] zero_session) @ t \<and>
     prefix (sent_to 4 t) [1, 2, 3] \<and> (r = -1 \<or> r = int (length [1, 2, 3 :: byte]) \<and> sent_to 4 t = [1, 2, 3])"
  by (rule send_all_delivers [OF script_os_posix script_retry_bound])

theorem sockaddr_text_round_trip_witness:
  "pal_sockaddr_to_ip \<lparr>sin_addr = 0x0A000001, sin_port = PAL_HTONS 21\<rparr> INET_ADDRSTRLEN = Inr ''10.0.0.1'' \<and>
   PAL_HTONS 21 = 5376"
proof -
  have "inet_ntop 0x0A000001 = ''10.0.0.1''" by code_simp
  then have "inet_pton ''10.0.0.1'' = Some 0x0A000001" using inet_pton_ntop by metis
  then have "pal_make_sockaddr ''10.0.0.1'' 21 \<lparr>sin_addr = 0, sin_port = 0\<rparr> = (FTP_OK, \<lparr>sin_addr = 0x0A000001, sin_port = PAL_HTONS 21\<rparr>)"
    by (simp add: pal_make_sockaddr_def)
  from sockaddr_text_round_trip [OF this] show ?thesis by (simp add: PAL_HTONS_def)
qed

end
