(* ===== verification/Buffer_Pool.thy ===== *)
theory Buffer_Pool
  imports Ftp_Types
begin

text \<open>
  Model of \<^verbatim>\<open>src/src/ftp_buffer_pool.c\<close> and \<^verbatim>\<open>src/src/pal_scratch.c\<close>: pools of
  fixed buffers handed out by an atomic mask.  A buffer is named by its index.

  \<open>ftp_buffer_acquire\<close> and \<open>ftp_buffer_release\<close> are the calls as one thread sees
  them; \<open>pool_step\<close> interleaves the atomic operations of any number of threads.
  The locale \<open>slot_pool\<close> states what the transfer commands rely on; both pools
  interpret it.
\<close>

unbundle bit_operations_syntax

section \<open>Definitions\<close>

definition slot_bit :: "nat \<Rightarrow> 64 word" where
  "slot_bit i = push_bit i 1"

definition find_free :: "64 word \<Rightarrow> nat option" where
  "find_free m = find (\<lambda>i. m AND slot_bit i = 0) [0..<FTP_STREAM_BUFFER_COUNT]"

definition acquire_mask :: "64 word \<Rightarrow> nat option \<times> 64 word" where
  "acquire_mask m = (case find_free m of None \<Rightarrow> (None, m) | Some i \<Rightarrow> (Some i, m OR slot_bit i))"

definition release_mask :: "nat \<Rightarrow> 64 word \<Rightarrow> 64 word" where
  "release_mask i m = (if i < FTP_STREAM_BUFFER_COUNT then m AND NOT (slot_bit i) else m)"

definition ftp_buffer_acquire :: "'w st \<Rightarrow> (nat option \<times> 'w st) ret" where
  "ftp_buffer_acquire st =
    (case acquire_mask (pool st) of (b, m) \<Rightarrow> Some (b, set_pool m st))"

definition ftp_buffer_release :: "nat option \<Rightarrow> 'w st \<Rightarrow> 'w st" where
  "ftp_buffer_release b st =
    (case b of None \<Rightarrow> st | Some i \<Rightarrow> set_pool (release_mask i (pool st)) st)"

definition ftp_buffer_size :: nat where
  "ftp_buffer_size = FTP_STREAM_BUFFER_SIZE"

subsection \<open>Interleaved threads\<close>

text \<open>
  A thread inside \<open>ftp_buffer_acquire\<close> holds the mask it has loaded.  \<open>owned t\<close> are
  the buffers thread \<open>t\<close> has been given and not yet released.
\<close>

datatype acquire_pc = Outside | Loaded "64 word"

record 't pool_sys =
  pmask :: "64 word"
  pc :: "'t \<Rightarrow> acquire_pc"
  owned :: "'t \<Rightarrow> nat set"

inductive pool_step :: "'t pool_sys \<Rightarrow> 't pool_sys \<Rightarrow> bool" where
  load: "pc s t = Outside \<Longrightarrow> pool_step s (s\<lparr>pc := (pc s)(t := Loaded (pmask s))\<rparr>)"
| cas_ok: "pc s t = Loaded m \<Longrightarrow> find_free m = Some i \<Longrightarrow> pmask s = m \<Longrightarrow>
    pool_step s (s\<lparr>pmask := m OR slot_bit i, pc := (pc s)(t := Outside),
                   owned := (owned s)(t := insert i (owned s t))\<rparr>)"
| cas_fail: "pc s t = Loaded m \<Longrightarrow> find_free m = Some i \<Longrightarrow> pmask s \<noteq> m \<Longrightarrow>
    pool_step s (s\<lparr>pc := (pc s)(t := Outside)\<rparr>)"
| none_free: "pc s t = Loaded m \<Longrightarrow> find_free m = None \<Longrightarrow>
    pool_step s (s\<lparr>pc := (pc s)(t := Outside)\<rparr>)"
| release: "pc s t = Outside \<Longrightarrow> i \<in> owned s t \<Longrightarrow>
    pool_step s (s\<lparr>pmask := release_mask i (pmask s),
                   owned := (owned s)(t := owned s t - {i})\<rparr>)"

definition pool_init :: "'t pool_sys" where
  "pool_init = \<lparr>pmask = 0, pc = (\<lambda>_. Outside), owned = (\<lambda>_. {})\<rparr>"

definition pool_inv :: "'t pool_sys \<Rightarrow> bool" where
  "pool_inv s \<longleftrightarrow>
     (\<forall>i. bit (pmask s) i \<longleftrightarrow> (\<exists>t. i \<in> owned s t)) \<and>
     (\<forall>t u. t \<noteq> u \<longrightarrow> owned s t \<inter> owned s u = {}) \<and>
     (\<forall>t. owned s t \<subseteq> {..<FTP_STREAM_BUFFER_COUNT})"

subsection \<open>The scratch buffer\<close>

definition PAL_SCRATCH_SIZE :: nat where [simp]: "PAL_SCRATCH_SIZE = 1048576"

record scratch =
  g_scratch :: "byte list"
  g_scratch_busy :: bool
  g_scratch_prefaulted :: bool

text \<open>Touching one byte per page writes zeros; it runs once.\<close>

definition pal_scratch_prefault_once :: "scratch \<Rightarrow> scratch" where
  "pal_scratch_prefault_once s =
    (if g_scratch_prefaulted s then s
     else s\<lparr>g_scratch_prefaulted := True,
            g_scratch := map (\<lambda>(i, b). if i mod 4096 = 0 \<or> i = PAL_SCRATCH_SIZE - 1 then 0 else b)
                           (enumerate 0 (g_scratch s))\<rparr>)"

definition pal_scratch_acquire :: "nat \<Rightarrow> scratch \<Rightarrow> nat option \<times> scratch" where
  "pal_scratch_acquire need s =
    (if need = 0 \<or> need > PAL_SCRATCH_SIZE then (None, s)
     else let s = pal_scratch_prefault_once s in
          if g_scratch_busy s then (None, s)
          else (Some 0, s\<lparr>g_scratch_busy := True,
                          g_scratch := replicate need 0 @ drop need (g_scratch s)\<rparr>))"

definition pal_scratch_release :: "nat option \<Rightarrow> scratch \<Rightarrow> scratch" where
  "pal_scratch_release p s = (if p \<noteq> Some 0 then s else s\<lparr>g_scratch_busy := False\<rparr>)"

definition pal_scratch_capacity :: nat where
  "pal_scratch_capacity = PAL_SCRATCH_SIZE"

section \<open>The slot pool interface\<close>

locale slot_pool =
  fixes acq :: "'m \<Rightarrow> nat option \<times> 'm"
    and rel :: "nat \<Rightarrow> 'm \<Rightarrow> 'm"
    and used :: "'m \<Rightarrow> nat \<Rightarrow> bool"
  assumes acq_none: "acq m = (None, m') \<Longrightarrow> used m' = used m"
    and acq_some: "acq m = (Some i, m') \<Longrightarrow> \<not> used m i \<and> used m' = (used m)(i := True)"
    and rel_slot: "used m i \<Longrightarrow> used (rel i m) = (used m)(i := False)"
begin

lemma acq_rel: "acq m = (Some i, m') \<Longrightarrow> used (rel i m') = used m"
  by (drule acq_some) (auto simp: rel_slot fun_upd_idem)

lemma acq_twice:
  assumes "acq m = (Some i, m1)" "acq m1 = (Some j, m2)"
  shows "i \<noteq> j" "used (rel j (rel i m2)) = used m" "used (rel i (rel j m2)) = used m"
proof -
  have i: "\<not> used m i" "used m1 = (used m)(i := True)" using acq_some assms(1) by blast+
  have j: "\<not> used m1 j" "used m2 = (used m1)(j := True)" using acq_some assms(2) by blast+
  show ij: "i \<noteq> j" using i(2) j(1) by auto
  have u: "used m2 i" "used m2 j" using i(2) j(2) by auto
  have um: "(used m2)(i := False, j := False) = used m"
    using i j ij by (auto simp: fun_eq_iff)
  have "used (rel i m2) j" using rel_slot [OF u(1)] u(2) ij by simp
  from rel_slot [OF this] show "used (rel j (rel i m2)) = used m"
    using rel_slot [OF u(1)] um by simp
  have "used (rel j m2) i" using rel_slot [OF u(2)] u(1) ij by simp
  from rel_slot [OF this] show "used (rel i (rel j m2)) = used m"
    using rel_slot [OF u(2)] um ij by (simp add: fun_upd_twist)
qed

end

section \<open>The buffer mask implements the interface\<close>

lemma bit_slot_bit: "bit (slot_bit i) j \<longleftrightarrow> i = j \<and> j < 64"
  by (auto simp: slot_bit_def bit_simps)

lemma and_slot_bit: "i < 64 \<Longrightarrow> m AND slot_bit i = 0 \<longleftrightarrow> \<not> bit m i"
proof -
  assume i: "i < 64"
  have "m AND slot_bit i = 0 \<longleftrightarrow> (\<forall>j. \<not> bit (m AND slot_bit i) j)"
    by (metis bit_0_eq bot_apply bot_bool_def bit_eqI)
  also have "\<dots> \<longleftrightarrow> \<not> bit m i" using i by (auto simp: bit_and_iff bit_slot_bit)
  finally show ?thesis .
qed

lemma find_free_Some: "find_free m = Some i \<Longrightarrow> i < FTP_STREAM_BUFFER_COUNT \<and> \<not> bit m i"
  by (auto simp: find_free_def find_Some_iff and_slot_bit)

lemma find_free_None: "find_free m = None \<Longrightarrow> i < FTP_STREAM_BUFFER_COUNT \<Longrightarrow> bit m i"
  by (auto simp: find_free_def find_None_iff and_slot_bit)

lemma bit_acquired: "i < 64 \<Longrightarrow> bit (m OR slot_bit i) = (bit m)(i := True)"
  by (auto simp: fun_eq_iff bit_or_iff bit_slot_bit)

lemma bit_released:
  "i < FTP_STREAM_BUFFER_COUNT \<Longrightarrow> bit (release_mask i m) = (bit m)(i := False)"
proof
  fix j assume i: "i < FTP_STREAM_BUFFER_COUNT"
  have "bit m j \<Longrightarrow> j < 64" using bit_imp_le_length [of m j] by simp
  then show "bit (release_mask i m) j = ((bit m)(i := False)) j"
    using i by (auto simp: release_mask_def bit_simps bit_slot_bit)
qed

lemma release_high: "\<not> i < FTP_STREAM_BUFFER_COUNT \<Longrightarrow> release_mask i m = m"
  by (simp add: release_mask_def)

interpretation buffers: slot_pool acquire_mask release_mask "\<lambda>m i. i < FTP_STREAM_BUFFER_COUNT \<and> bit m i"
proof
  fix m m' :: "64 word"
  show "acquire_mask m = (None, m') \<Longrightarrow>
      (\<lambda>i. i < FTP_STREAM_BUFFER_COUNT \<and> bit m' i) = (\<lambda>i. i < FTP_STREAM_BUFFER_COUNT \<and> bit m i)"
    by (auto simp: acquire_mask_def split: option.splits)
next
  fix m m' :: "64 word" and i
  assume "acquire_mask m = (Some i, m')"
  then have "find_free m = Some i" "m' = m OR slot_bit i"
    by (auto simp: acquire_mask_def split: option.splits)
  with find_free_Some [of m i] bit_acquired [of i m]
  show "\<not> (i < FTP_STREAM_BUFFER_COUNT \<and> bit m i) \<and>
      (\<lambda>j. j < FTP_STREAM_BUFFER_COUNT \<and> bit m' j) =
      (\<lambda>j. j < FTP_STREAM_BUFFER_COUNT \<and> bit m j)(i := True)"
    by (auto simp: fun_eq_iff)
next
  fix m :: "64 word" and i
  assume "i < FTP_STREAM_BUFFER_COUNT \<and> bit m i"
  then show "(\<lambda>j. j < FTP_STREAM_BUFFER_COUNT \<and> bit (release_mask i m) j) =
      (\<lambda>j. j < FTP_STREAM_BUFFER_COUNT \<and> bit m j)(i := False)"
    by (auto simp: fun_eq_iff bit_released)
qed

lemma prefault_busy [simp]: "g_scratch_busy (pal_scratch_prefault_once s) = g_scratch_busy s"
  by (simp add: pal_scratch_prefault_once_def)

interpretation scratch: slot_pool "pal_scratch_acquire need" "\<lambda>i. pal_scratch_release (Some i)"
    "\<lambda>s i. i = 0 \<and> g_scratch_busy s" for need
  by unfold_locales
     (auto simp: pal_scratch_acquire_def pal_scratch_release_def Let_def fun_eq_iff split: if_splits)

lemma release_acquired:
  assumes "acquire_mask m = (Some i, m')"
  shows "release_mask i m' = m"
proof -
  have f: "find_free m = Some i" "m' = m OR slot_bit i"
    using assms by (auto simp: acquire_mask_def split: option.splits)
  have i: "i < FTP_STREAM_BUFFER_COUNT" "\<not> bit m i" using find_free_Some [OF f(1)] by auto
  have "bit (release_mask i m') = bit m"
    using i f(2) bit_acquired [of i m] by (simp add: bit_released fun_upd_idem)
  then show ?thesis by (simp add: bit_eq_iff)
qed

lemma release_commute: "release_mask i (release_mask j m) = release_mask j (release_mask i m)"
  by (rule bit_eqI) (auto simp: release_mask_def bit_simps)

lemma acquire_None: "acquire_mask m = (None, m') \<Longrightarrow> m' = m"
  by (auto simp: acquire_mask_def split: option.splits)

lemma post_buffer_acquire [wp]:
  assumes "\<And>b m. acquire_mask (pool st) = (b, m) \<Longrightarrow> Q b (set_pool m st)"
  shows "post (ftp_buffer_acquire st) Q"
  using assms by (auto simp: ftp_buffer_acquire_def post_def split: prod.splits)

lemma buffer_release_simps [simp]:
  "world (ftp_buffer_release b st) = world st" "errno (ftp_buffer_release b st) = errno st"
  "trace (ftp_buffer_release b st) = trace st" "sess (ftp_buffer_release b st) = sess st"
  "pool (ftp_buffer_release b st) =
     (case b of None \<Rightarrow> pool st | Some i \<Rightarrow> release_mask i (pool st))"
  by (simp_all add: ftp_buffer_release_def split: option.split)

section \<open>Interleavings\<close>

lemma pool_inv_init: "pool_inv pool_init"
  by (simp add: pool_inv_def pool_init_def)

lemma pool_inv_step:
  assumes "pool_step s s'" "pool_inv s"
  shows "pool_inv s'"
  using assms
proof (induction rule: pool_step.induct)
  case (cas_ok s t m i)
  have i: "i < FTP_STREAM_BUFFER_COUNT" "\<not> bit m i" using find_free_Some [OF cas_ok(2)] by auto
  then have new: "\<And>u. i \<notin> owned s u" using cas_ok(3,4) by (auto simp: pool_inv_def)
  have "bit (m OR slot_bit i) = (bit m)(i := True)" using i by (intro bit_acquired) simp
  then have am: "bit (m OR slot_bit i) j \<longleftrightarrow> bit m j \<or> j = i" for j by simp
  let ?s = "s\<lparr>pmask := m OR slot_bit i, pc := (pc s)(t := Outside),
               owned := (owned s)(t := insert i (owned s t))\<rparr>"
  have own: "j \<in> owned ?s u \<longleftrightarrow> j \<in> owned s u \<or> (j = i \<and> u = t)" for j u
    by auto
  have "bit (pmask ?s) j \<longleftrightarrow> (\<exists>u. j \<in> owned ?s u)" for j
    unfolding own using am cas_ok(3,4) by (auto simp: pool_inv_def)
  moreover have "owned ?s u \<inter> owned ?s v = {}" if uv: "u \<noteq> v" for u v
  proof -
    have "owned s u \<inter> owned s v = {}" using cas_ok(4) uv by (simp add: pool_inv_def)
    then show ?thesis using new uv by auto
  qed
  moreover have "owned ?s u \<subseteq> {..<FTP_STREAM_BUFFER_COUNT}" for u
    using own i cas_ok(4) unfolding pool_inv_def by blast
  ultimately show ?case unfolding pool_inv_def by blast
next
  case (release s t i)
  have i: "i < FTP_STREAM_BUFFER_COUNT" using release(2,3) by (auto simp: pool_inv_def)
  have other: "\<And>u. i \<in> owned s u \<Longrightarrow> u = t" using release(2,3) unfolding pool_inv_def by blast
  have rm: "bit (release_mask i (pmask s)) = (bit (pmask s))(i := False)" using i by (rule bit_released)
  let ?s = "s\<lparr>pmask := release_mask i (pmask s), owned := (owned s)(t := owned s t - {i})\<rparr>"
  have own: "j \<in> owned ?s u \<longleftrightarrow> j \<in> owned s u \<and> j \<noteq> i" for j u
    using other by auto
  have "bit (pmask ?s) j \<longleftrightarrow> (\<exists>u. j \<in> owned ?s u)" for j
    unfolding own using rm release(3) by (simp add: pool_inv_def)
  moreover have "owned ?s u \<inter> owned ?s v = {}" if "u \<noteq> v" for u v
    using own release(3) that unfolding pool_inv_def by blast
  moreover have "owned ?s u \<subseteq> {..<FTP_STREAM_BUFFER_COUNT}" for u
    using own release(3) unfolding pool_inv_def by blast
  ultimately show ?case unfolding pool_inv_def by blast
qed (auto simp: pool_inv_def)

lemma pool_inv_reachable: "pool_step\<^sup>*\<^sup>* pool_init s \<Longrightarrow> pool_inv s"
  by (induction rule: rtranclp_induct) (auto intro: pool_inv_init pool_inv_step)

section \<open>Properties\<close>

text \<open>
  C22: However the threads interleave their loads, compare-and-swaps and releases,
  no transfer buffer is ever owned by two threads, the mask marks exactly the owned
  buffers, and a thread that finds the mask full and unchanged fails only when all
  buffers are owned.
\<close>

theorem buffer_pool_exclusive:
  assumes "pool_step\<^sup>*\<^sup>* pool_init s"
  shows "(t \<noteq> u \<longrightarrow> owned s t \<inter> owned s u = {}) \<and>
    (bit (pmask s) i \<longleftrightarrow> (\<exists>t. i \<in> owned s t)) \<and>
    (pc s t = Loaded (pmask s) \<and> find_free (pmask s) = None \<and> i < FTP_STREAM_BUFFER_COUNT \<longrightarrow>
       (\<exists>u. i \<in> owned s u))"
  using pool_inv_reachable [OF assms] find_free_None [of "pmask s" i] by (auto simp: pool_inv_def)

text \<open>
  Releasing an acquired buffer restores the mask, also when two buffers are
  held and released in either order; the two are different buffers.
\<close>

theorem buffer_acquire_release_restores:
  assumes "acquire_mask m = (Some i, m1)" "acquire_mask m1 = (Some j, m2)"
  shows "i \<noteq> j \<and> release_mask i m1 = m \<and> release_mask i (release_mask j m2) = m \<and>
         release_mask j (release_mask i m2) = m"
  using buffers.acq_twice(1) [OF assms] release_acquired [OF assms(1)] release_acquired [OF assms(2)]
    release_commute by metis

text \<open>
  The scratch buffer is given to at most one holder: a second request fails
  until the first holder releases it, and the bytes asked for are zero.
\<close>

theorem scratch_single_holder:
  assumes "pal_scratch_acquire need s = (Some p, s')"
  shows "fst (pal_scratch_acquire n s') = None \<and>
     \<not> g_scratch_busy (pal_scratch_release (Some p) s') \<and>
     need \<le> pal_scratch_capacity \<and> take need (g_scratch s') = replicate need 0"
  using assms
  by (auto simp: pal_scratch_acquire_def pal_scratch_release_def pal_scratch_capacity_def Let_def
      split: if_splits)

subsection \<open>Witnesses\<close>

theorem buffer_pool_exclusive_witness:
  "pool_step\<^sup>*\<^sup>* (pool_init :: bool pool_sys)
     \<lparr>pmask = 1, pc = \<lambda>_. Outside, owned = \<lambda>t. if t then {0} else {}\<rparr> \<and>
   owned (\<lparr>pmask = 1, pc = \<lambda>_. Outside, owned = \<lambda>t. if t then {0} else {}\<rparr> :: bool pool_sys) True \<inter>
   owned (\<lparr>pmask = 1, pc = \<lambda>_. Outside, owned = \<lambda>t. if t then {0} else {}\<rparr> :: bool pool_sys) False = {}"
proof -
  let ?s1 = "\<lparr>pmask = 0, pc = (\<lambda>_. Outside)(True := Loaded 0), owned = (\<lambda>_. {})\<rparr> :: bool pool_sys"
  let ?s2 = "\<lparr>pmask = 1, pc = \<lambda>_. Outside, owned = \<lambda>t. if t then {0} else {}\<rparr> :: bool pool_sys"
  have f: "find_free 0 = Some 0" by (simp add: find_free_def slot_bit_def upt_conv_Cons)
  have e: "(\<lambda>_. Outside)(True := Outside) = (\<lambda>_. Outside)"
    "(\<lambda>_. {})(True := {0 :: nat}) = (\<lambda>t. if t then {0} else {})" by auto
  have a: "pool_step pool_init ?s1"
    using pool_step.load [of pool_init True] by (simp add: pool_init_def)
  have b: "pool_step ?s1 ?s2"
    using pool_step.cas_ok [of ?s1 True 0 0] f
    by (simp add: slot_bit_def e)
  have r: "pool_step\<^sup>*\<^sup>* pool_init ?s2"
    using a b by (rule rtranclp.rtrancl_into_rtrancl [OF r_into_rtranclp [of pool_step]])
  show ?thesis using buffer_pool_exclusive [OF r, of True False] r by simp
qed

theorem buffer_acquire_release_restores_witness:
  "release_mask 0 (release_mask 1 3) = 0"
proof -
  have "acquire_mask 0 = (Some 0, 1)" "acquire_mask 1 = (Some 1, 3)" by code_simp+
  from buffer_acquire_release_restores [OF this] show ?thesis by simp
qed

theorem scratch_single_holder_witness:
  "fst (pal_scratch_acquire 2
     \<lparr>g_scratch = [0, 0, 7], g_scratch_busy = True, g_scratch_prefaulted = True\<rparr>) = None"
proof -
  have "pal_scratch_acquire 2
      \<lparr>g_scratch = [5, 6, 7], g_scratch_busy = False, g_scratch_prefaulted = True\<rparr> =
    (Some 0, \<lparr>g_scratch = [0, 0, 7], g_scratch_busy = True, g_scratch_prefaulted = True\<rparr>)"
    by (simp add: pal_scratch_acquire_def pal_scratch_prefault_once_def numeral_2_eq_2)
  from scratch_single_holder [OF this] show ?thesis by simp
qed

end
