(* ===== verification/Ftp_Session.thy ===== *)
theory Ftp_Session
  imports Ftp_Path Ftp_Protocol Pal_Network Buffer_Pool
begin

text \<open>
  Model of \<^verbatim>\<open>src/src/ftp_session.c\<close> up to the command dispatcher: the life of a
  session record, replies, the data connection, the rate limiter and the line
  reader of the control connection.  The dispatcher and the session thread are in
  \<open>Ftp_Dispatch\<close>, after the command handlers they call.
\<close>

section \<open>Definitions\<close>

subsection \<open>Life of a session\<close>

definition ftp_session_init ::
  "'w os \<Rightarrow> int \<Rightarrow> sockaddr_in \<Rightarrow> 32 word \<Rightarrow> string \<Rightarrow> 'w st \<Rightarrow> (ftp_error \<times> 'w st) ret" where
  "ftp_session_init os fd client_addr sid root st =
    (if fd < 0 then Some (FTP_ERR_INVALID_PARAM, st)
     else do {
       let st = upd (\<lambda>_. zero_session\<lparr>ctrl_fd := fd, ctrl_addr := client_addr\<rparr>) st;
       (_, st) \<leftarrow> pal_socket_set_timeouts os fd FTP_CTRL_IO_TIMEOUT_MS FTP_CTRL_IO_TIMEOUT_MS st;
       (_, st) \<leftarrow> setsockopt os fd TCP_NODELAY 1 st;
       let st = upd (\<lambda>s. s\<lparr>data_fd := -1, pasv_fd := -1, data_mode := FTP_DATA_MODE_NONE,
                           sstate := FTP_STATE_CONNECTED, transfer_type := FTP_TYPE_BINARY,
                           transfer_mode := FTP_MODE_STREAM, file_structure := FTP_STRU_FILE,
                           restart_offset := 0\<rparr>) st;
       if length root \<ge> FTP_PATH_MAX then Some (FTP_ERR_PATH_TOO_LONG, st)
       else do {
         let st = upd (\<lambda>s. s\<lparr>root_path := root, cwd := root\<rparr>) st;
         (ex, st) \<leftarrow> pal_path_exists os root st;
         (_, st) \<leftarrow>
           (if ex = 1 then do {
              (r, st) \<leftarrow> syscall os (Sys_realpath root) st;
              if r_ret r \<ge> 0 \<and> length (r_str r) < FTP_PATH_MAX
              then Some ((), upd (\<lambda>s. s\<lparr>root_path := r_str r, cwd := r_str r\<rparr>) st)
              else Some ((), st) }
            else Some ((), st));
         (now, st) \<leftarrow> sys_time os st;
         Some (FTP_OK,
           upd (\<lambda>s. s\<lparr>rename_from := [], copy_from := [], copy_in_progress := False,
                       copy_thread_valid := False, auth_attempts := 0, authenticated := False,
                       user_ok := False, ctrl_rx_len := 0, ctrl_rx_off := 0, session_id := sid,
                       connect_time := now, last_activity := now, rl_tokens := 0, rl_last_ns := 0,
                       crypto := ftp_crypto_reset (crypto s),
                       client_ip := (case pal_sockaddr_to_ip client_addr INET_ADDRSTRLEN of
                                       Inl _ \<Rightarrow> ''unknown'' | Inr ip \<Rightarrow> ip),
                       client_port := pal_sockaddr_get_port client_addr\<rparr>) st) } })"

text \<open>\<open>close\<close> on a descriptor the session holds.\<close>

definition pal_close :: "'w os \<Rightarrow> int \<Rightarrow> 'w st \<Rightarrow> (unit \<times> 'w st) ret" where
  "pal_close os fd st = do { (_, st) \<leftarrow> syscall os (Sys_close fd) st; Some ((), st) }"

definition ftp_session_close_data_connection :: "'w os \<Rightarrow> 'w st \<Rightarrow> (unit \<times> 'w st) ret" where
  "ftp_session_close_data_connection os st = do {
     (_, st) \<leftarrow>
       (if data_fd (sess st) \<ge> 0 then do {
          (_, st) \<leftarrow> pal_close os (data_fd (sess st)) st;
          Some ((), upd (\<lambda>s. s\<lparr>data_fd := -1\<rparr>) st) }
        else Some ((), st));
     (_, st) \<leftarrow>
       (if pasv_fd (sess st) \<ge> 0 then do {
          (_, st) \<leftarrow> pal_close os (pasv_fd (sess st)) st;
          Some ((), upd (\<lambda>s. s\<lparr>pasv_fd := -1\<rparr>) st) }
        else Some ((), st));
     Some ((), upd (\<lambda>s. s\<lparr>data_mode := FTP_DATA_MODE_NONE, restart_offset := 0,
                          sstate := (if sstate s \<noteq> FTP_STATE_TERMINATING
                                     then if authenticated s then FTP_STATE_AUTHENTICATED
                                          else FTP_STATE_CONNECTED
                                     else sstate s)\<rparr>) st) }"

definition ftp_session_cleanup :: "'w os \<Rightarrow> 'w st \<Rightarrow> (unit \<times> 'w st) ret" where
  "ftp_session_cleanup os st = do {
     let st = upd (\<lambda>s. s\<lparr>sstate := FTP_STATE_TERMINATING\<rparr>) st;
     (_, st) \<leftarrow>
       (if copy_thread_valid (sess st)
        then do { (_, st) \<leftarrow> syscall os Sys_join_copy st; Some ((), st) }
        else Some ((), st));
     (_, st) \<leftarrow> ftp_session_close_data_connection os st;
     (_, st) \<leftarrow>
       (if ctrl_fd (sess st) \<ge> 0 then do {
          (_, st) \<leftarrow> pal_close os (ctrl_fd (sess st)) st;
          Some ((), upd (\<lambda>s. s\<lparr>ctrl_fd := -1\<rparr>) st) }
        else Some ((), st));
     Some ((), upd (\<lambda>s. s\<lparr>crypto := ftp_crypto_reset (crypto s)\<rparr>) st) }"

subsection \<open>Replies\<close>

definition ftp_session_send_reply ::
  "'w os \<Rightarrow> ftp_reply_code \<Rightarrow> string option \<Rightarrow> 'w st \<Rightarrow> (ftp_error \<times> 'w st) ret" where
  "ftp_session_send_reply os code message st =
    (if ctrl_fd (sess st) < 0 then Some (FTP_ERR_SOCKET_SEND, st)
     else case ftp_format_reply code message FTP_REPLY_BUFFER_SIZE of
            Inl e \<Rightarrow> Some (e, st)
          | Inr buffer \<Rightarrow> do {
              (sent, st) \<leftarrow> pal_send_all os (ctrl_fd (sess st)) (bytes_of buffer) st;
              Some (if sent \<noteq> int (length buffer) then FTP_ERR_SOCKET_SEND else FTP_OK, st) })"

text \<open>The loop over the lines; all but the last are marked with a hyphen.\<close>

fun send_lines ::
  "'w os \<Rightarrow> ftp_reply_code \<Rightarrow> string list \<Rightarrow> 'w st \<Rightarrow> (ftp_error \<times> 'w st) ret" where
  "send_lines os code [] st = Some (FTP_OK, st)"
| "send_lines os code (l # ls) st =
    (let buffer = show_nat (reply_num code) @ (if ls = [] then '' '' else ''-'') @ l @ CRLF
     in if length buffer \<ge> FTP_REPLY_BUFFER_SIZE then Some (FTP_ERR_INVALID_PARAM, st)
        else do {
          (sent, st) \<leftarrow> pal_send_all os (ctrl_fd (sess st)) (bytes_of buffer) st;
          if sent \<noteq> int (length buffer) then Some (FTP_ERR_SOCKET_SEND, st)
          else send_lines os code ls st })"

definition ftp_session_send_multiline_reply ::
  "'w os \<Rightarrow> ftp_reply_code \<Rightarrow> string list \<Rightarrow> 'w st \<Rightarrow> (ftp_error \<times> 'w st) ret" where
  "ftp_session_send_multiline_reply os code lines st =
    (if lines = [] then Some (FTP_ERR_INVALID_PARAM, st)
     else if ctrl_fd (sess st) < 0 then Some (FTP_ERR_SOCKET_SEND, st)
     else send_lines os code lines st)"

subsection \<open>The data connection\<close>

partial_function (option) select_loop ::
  "'w os \<Rightarrow> int \<Rightarrow> bool \<Rightarrow> nat \<Rightarrow> 'w st \<Rightarrow> (int \<times> 'w st) ret" where
  "select_loop os fd for_write timeout_ms st = do {
     (r, st) \<leftarrow> syscall os (Sys_select fd for_write timeout_ms) st;
     if r_ret r = 0 then Some (0, set_errno ETIMEDOUT st)
     else if r_ret r < 0 \<and> errno st = EINTR then select_loop os fd for_write timeout_ms st
     else Some (r_ret r, st) }"

definition wait_fd_ready :: "'w os \<Rightarrow> int \<Rightarrow> bool \<Rightarrow> nat \<Rightarrow> 'w st \<Rightarrow> (int \<times> 'w st) ret" where
  "wait_fd_ready os fd for_write timeout_ms st =
    (if fd < 0 then Some (-1, set_errno EBADF st)
     else select_loop os fd for_write timeout_ms st)"

text \<open>The clocks answer in nanoseconds.\<close>

definition monotonic_ns :: "'w os \<Rightarrow> 'w st \<Rightarrow> (64 word \<times> 'w st) ret" where
  "monotonic_ns os st = do {
     (r, st) \<leftarrow> syscall os Sys_clock st;
     if r_ret r \<ge> 0 then Some (of_int (r_ret r), st)
     else do {
       (r, st) \<leftarrow> syscall os Sys_gettimeofday st;
       Some (if r_ret r \<ge> 0 then of_int (r_ret r) else 0, st) } }"

definition rl_refill :: "64 word \<Rightarrow> 64 word \<Rightarrow> 64 word \<Rightarrow> ftp_session \<Rightarrow> ftp_session" where
  "rl_refill rate cap now s =
    (let elapsed = now - rl_last_ns s;
         add = (elapsed * rate) div 1000000000;
         s = s\<lparr>rl_last_ns := now\<rparr>
     in if add > 0
        then let t = rl_tokens s + add in s\<lparr>rl_tokens := (if t > cap then cap else t)\<rparr>
        else s)"

partial_function (option) rl_wait_loop ::
  "'w os \<Rightarrow> 64 word \<Rightarrow> 64 word \<Rightarrow> 64 word \<Rightarrow> 'w st \<Rightarrow> (unit \<times> 'w st) ret" where
  "rl_wait_loop os rate cap need st =
    (if rl_tokens (sess st) < need then
       (let missing = need - rl_tokens (sess st);
            wait_ns = (missing * 1000000000 + rate - 1) div rate;
            wait_us = (wait_ns + 999) div 1000;
            wait_us = (if wait_us > 500000 then 500000 else wait_us)
        in do {
          (_, st) \<leftarrow> syscall os (Sys_usleep (unat wait_us)) st;
          (now, st) \<leftarrow> monotonic_ns os st;
          if now \<noteq> 0 \<and> now > rl_last_ns (sess st)
          then rl_wait_loop os rate cap need (upd (rl_refill rate cap now) st)
          else Some ((), st) })
     else Some ((), st))"

definition rate_limit ::
  "'w os \<Rightarrow> 64 word \<Rightarrow> 64 word \<Rightarrow> nat \<Rightarrow> 'w st \<Rightarrow> (unit \<times> 'w st) ret" where
  "rate_limit os rate burst bytes st =
    (if bytes = 0 \<or> rate = 0 then Some ((), st)
     else let cap = (if burst \<noteq> 0 then burst else rate) in do {
       (now, st) \<leftarrow> monotonic_ns os st;
       if now = 0 then Some ((), st)
       else do {
         let st = upd (\<lambda>s. if rl_last_ns s = 0 then s\<lparr>rl_last_ns := now, rl_tokens := cap\<rparr>
                           else if now > rl_last_ns s then rl_refill rate cap now s else s) st;
         let need = of_nat bytes;
         (_, st) \<leftarrow> rl_wait_loop os rate cap need st;
         Some ((), upd (\<lambda>s. s\<lparr>rl_tokens := (if rl_tokens s \<ge> need then rl_tokens s - need else 0)\<rparr>) st) } })"

definition session_rate_limit :: "'w os \<Rightarrow> nat \<Rightarrow> 'w st \<Rightarrow> (unit \<times> 'w st) ret" where
  "session_rate_limit os bytes st =
     rate_limit os FTP_TRANSFER_RATE_LIMIT_BPS FTP_TRANSFER_RATE_BURST_BYTES bytes st"

text \<open>Active mode: connect to the address \<^verbatim>\<open>PORT\<close> stored.\<close>

definition open_data_active :: "'w os \<Rightarrow> 'w st \<Rightarrow> (ftp_error \<times> 'w st) ret" where
  "open_data_active os st = do {
     (r, st) \<leftarrow> syscall os Sys_socket st;
     let fd = r_ret r;
     if fd < 0 then Some (FTP_ERR_SOCKET_CREATE, st)
     else do {
       (_, st) \<leftarrow> setsockopt os fd SO_SNDTIMEO 3000 st;
       (_, st) \<leftarrow> setsockopt os fd SO_RCVBUF FTP_TCP_RCVBUF st;
       (c, st) \<leftarrow> syscall os (Sys_connect fd (data_addr (sess st))) st;
       if r_ret c < 0 then do {
         (_, st) \<leftarrow> pal_close os fd st;
         Some (FTP_ERR_SOCKET_SEND, st) }
       else Some (FTP_OK, upd (\<lambda>s. s\<lparr>data_fd := fd\<rparr>) st) } }"

text \<open>Passive mode: accept one connection on the listener, then close the listener.\<close>

definition open_data_passive :: "'w os \<Rightarrow> 'w st \<Rightarrow> (ftp_error \<times> 'w st) ret" where
  "open_data_passive os st =
    (if pasv_fd (sess st) < 0 then Some (FTP_ERR_INVALID_PARAM, st)
     else do {
       (ready, st) \<leftarrow> wait_fd_ready os (pasv_fd (sess st)) False FTP_DATA_CONNECT_TIMEOUT_MS st;
       if ready \<le> 0 then do {
         (_, st) \<leftarrow> pal_close os (pasv_fd (sess st)) st;
         Some (FTP_ERR_TIMEOUT, upd (\<lambda>s. s\<lparr>pasv_fd := -1\<rparr>) st) }
       else do {
         (r, st) \<leftarrow> syscall os (Sys_accept (pasv_fd (sess st))) st;
         let fd = r_ret r;
         if fd < 0 then Some (FTP_ERR_SOCKET_ACCEPT, st)
         else do {
           let st = upd (\<lambda>s. s\<lparr>data_fd := fd\<rparr>) st;
           (_, st) \<leftarrow> pal_close os (pasv_fd (sess st)) st;
           let st = upd (\<lambda>s. s\<lparr>pasv_fd := -1\<rparr>) st;
           (g, st) \<leftarrow> syscall os (Sys_getsockopt fd SO_RCVBUF) st;
           let current = (if r_ret g \<noteq> 0 then 0 else sint (load32_le (r_data g)));
           (_, st) \<leftarrow>
             (if current < FTP_TCP_RCVBUF then setsockopt os fd SO_RCVBUF (FTP_TCP_RCVBUF * 2) st
              else Some (0, st));
           Some (FTP_OK, st) } } })"

definition ftp_session_open_data_connection :: "'w os \<Rightarrow> 'w st \<Rightarrow> (ftp_error \<times> 'w st) ret" where
  "ftp_session_open_data_connection os st =
    (if data_mode (sess st) = FTP_DATA_MODE_NONE then Some (FTP_ERR_INVALID_PARAM, st)
     else do {
       (err, st) \<leftarrow>
         (if data_mode (sess st) = FTP_DATA_MODE_ACTIVE then open_data_active os st
          else open_data_passive os st);
       if err \<noteq> FTP_OK then Some (err, st)
       else do {
         (_, st) \<leftarrow> pal_socket_configure_data os (data_fd (sess st)) st;
         Some (FTP_OK, upd (\<lambda>s. s\<lparr>sstate := (if sstate s \<noteq> FTP_STATE_TERMINATING
                                               then FTP_STATE_TRANSFERRING else sstate s)\<rparr>) st) } })"

text \<open>
  The encrypting branch of \<open>ftp_session_send_data\<close>: chunks of at most 4096 bytes, each
  copied, encrypted in place and sent.
\<close>

abbreviation (input) SCRATCH_CHUNK :: nat where "SCRATCH_CHUNK \<equiv> 4096"

function send_encrypted ::
  "'w os \<Rightarrow> byte list \<Rightarrow> int \<Rightarrow> 'w st \<Rightarrow> (int \<times> 'w st) ret" where
  "send_encrypted os src tot st =
    (if src = [] then do {
       (_, st) \<leftarrow> touch os st;
       Some (tot, upd (\<lambda>s. s\<lparr>stats := (stats s)\<lparr>bytes_sent := bytes_sent (stats s) + of_int tot\<rparr>\<rparr>) st) }
     else do {
       let (chunk, ctx) = ftp_crypto_xor (crypto (sess st)) (take SCRATCH_CHUNK src);
       let st = upd (\<lambda>s. s\<lparr>crypto := ctx\<rparr>) st;
       (sent, st) \<leftarrow> pal_send_all os (data_fd (sess st)) chunk st;
       if sent \<le> 0 then Some (if tot > 0 then tot else sent, st)
       else send_encrypted os (drop SCRATCH_CHUNK src) (tot + sent) st })"
  by pat_completeness auto
termination
  by (relation "measure (\<lambda>(os, src, tot, st). length src)") auto

declare send_encrypted.simps [simp del]

definition ftp_session_send_data :: "'w os \<Rightarrow> byte list \<Rightarrow> 'w st \<Rightarrow> (int \<times> 'w st) ret" where
  "ftp_session_send_data os buffer st =
    (if buffer = [] then Some (err_code FTP_ERR_INVALID_PARAM, st)
     else if data_fd (sess st) < 0 then Some (err_code FTP_ERR_SOCKET_SEND, st)
     else do {
       (_, st) \<leftarrow> session_rate_limit os (length buffer) st;
       if active (crypto (sess st)) \<noteq> 0 then send_encrypted os buffer 0 st
       else do {
         (sent, st) \<leftarrow> pal_send_all os (data_fd (sess st)) buffer st;
         if sent > 0 then do {
           (_, st) \<leftarrow> touch os st;
           Some (sent, upd (\<lambda>s. s\<lparr>stats := (stats s)\<lparr>bytes_sent := bytes_sent (stats s) + of_int sent\<rparr>\<rparr>) st) }
         else Some (sent, st) } })"

text \<open>Returns the count and the contents of the buffer, decrypted when encryption is on.\<close>

definition ftp_session_recv_data :: "'w os \<Rightarrow> nat \<Rightarrow> 'w st \<Rightarrow> ((int \<times> byte list) \<times> 'w st) ret" where
  "ftp_session_recv_data os len st =
    (if len = 0 then Some ((err_code FTP_ERR_INVALID_PARAM, []), st)
     else if data_fd (sess st) < 0 then Some ((err_code FTP_ERR_SOCKET_RECV, []), st)
     else do {
       (r, st) \<leftarrow> syscall os (Sys_recv (data_fd (sess st)) len) st;
       let received = r_ret r;
       if received > 0 then do {
         let (plain, ctx) = (if active (crypto (sess st)) \<noteq> 0
                             then ftp_crypto_xor (crypto (sess st)) (r_data r)
                             else (r_data r, crypto (sess st)));
         let st = upd (\<lambda>s. s\<lparr>crypto := ctx\<rparr>) st;
         (_, st) \<leftarrow> touch os st;
         (_, st) \<leftarrow> session_rate_limit os (nat received) st;
         Some ((received, plain),
               upd (\<lambda>s. s\<lparr>stats := (stats s)\<lparr>bytes_received := bytes_received (stats s) + of_int received\<rparr>\<rparr>) st) }
       else Some ((received, []), st) })"

subsection \<open>Reading a command line\<close>

text \<open>
  One pass over the buffered input.  \<open>out\<close> is the line so far, \<open>i\<close> the index of the next
  character, \<open>too_long\<close> the overflow flag.
\<close>

datatype scan =
    Scan_line nat string
  | Scan_too_long nat
  | Scan_more string bool

fun scan_line :: "nat \<Rightarrow> string \<Rightarrow> nat \<Rightarrow> string \<Rightarrow> bool \<Rightarrow> scan" where
  "scan_line sz [] i out too_long = Scan_more out too_long"
| "scan_line sz (c # cs) i out too_long =
    (let (out, too_long) =
           (if \<not> too_long then (if length out < sz - 1 then (out @ [c], False) else (out, True))
            else (out, too_long))
     in if c = LF then
          if too_long then Scan_too_long (i + 1)
          else if length out \<ge> 2 \<and> out ! (length out - 2) = CR \<and> out ! (length out - 1) = LF
          then Scan_line (i + 1) (take (length out - 2) out)
          else if length out \<ge> 1 \<and> out ! (length out - 1) = LF
          then Scan_line (i + 1) (take (length out - 1) out)
          else scan_line sz cs (i + 1) [] too_long
        else scan_line sz cs (i + 1) out too_long)"

definition rx_consume :: "nat \<Rightarrow> ftp_session \<Rightarrow> ftp_session" where
  "rx_consume n s =
    (if n \<ge> ctrl_rx_len s then s\<lparr>ctrl_rx_off := 0, ctrl_rx_len := 0\<rparr> else s\<lparr>ctrl_rx_off := n\<rparr>)"

definition rx_pending :: "ftp_session \<Rightarrow> string" where
  "rx_pending s = drop (ctrl_rx_off s) (take (ctrl_rx_len s) (ctrl_rxbuf s))"

partial_function (option) read_command_loop ::
  "'w os \<Rightarrow> nat \<Rightarrow> string \<Rightarrow> bool \<Rightarrow> 'w st \<Rightarrow> ((int \<times> string) \<times> 'w st) ret" where
  "read_command_loop os sz out too_long st =
    (case scan_line sz (rx_pending (sess st)) (ctrl_rx_off (sess st)) out too_long of
       Scan_line i line \<Rightarrow> Some ((int (length line), line), upd (rx_consume i) st)
     | Scan_too_long i \<Rightarrow> do {
         (_, st) \<leftarrow> ftp_session_send_reply os R500_SYNTAX_ERROR (Some ''Command too long.'')
                     (upd (rx_consume i) st);
         Some ((err_code FTP_ERR_PROTOCOL, []), st) }
     | Scan_more out too_long \<Rightarrow> do {
         let out = (if too_long then [] else out);
         let st = upd (\<lambda>s. if ctrl_rx_off s \<ge> ctrl_rx_len s
                           then s\<lparr>ctrl_rx_off := 0, ctrl_rx_len := 0\<rparr> else s) st;
         (r, st) \<leftarrow> syscall os (Sys_recv (ctrl_fd (sess st)) FTP_CMD_BUFFER_SIZE) st;
         if r_ret r = 0 then Some ((0, []), st)
         else if r_ret r < 0 then
           if errno st = EINTR then read_command_loop os sz out too_long st
           else if errno st = EAGAIN then Some ((err_code FTP_ERR_TIMEOUT, []), st)
           else Some ((err_code FTP_ERR_SOCKET_RECV, []), st)
         else read_command_loop os sz out too_long
                (upd (\<lambda>s. s\<lparr>ctrl_rxbuf := chars_of (r_data r), ctrl_rx_len := nat (r_ret r),
                            ctrl_rx_off := 0\<rparr>) st) })"

definition ftp_session_read_command ::
  "'w os \<Rightarrow> nat \<Rightarrow> 'w st \<Rightarrow> ((int \<times> string) \<times> 'w st) ret" where
  "ftp_session_read_command os sz st =
    (if ctrl_fd (sess st) < 0 then Some ((err_code FTP_ERR_SOCKET_RECV, []), st)
     else if sz < FTP_CMD_BUFFER_SIZE then Some ((err_code FTP_ERR_INVALID_PARAM, []), st)
     else read_command_loop os sz [] False st)"

end
