(* ===== verification/Ftp_Session_Rules.thy ===== *)
theory Ftp_Session_Rules
  imports Ftp_Session
begin

text \<open>
  The behaviour of the operations of \<open>Ftp_Session\<close>: one rule per operation for the
  calculus of \<open>post\<close>, which the command handlers build on, and the properties of
  replies, data transfer and line reading.
\<close>

section \<open>Rules\<close>

text \<open>The handles a session holds open besides its control connection.\<close>

definition holds :: "ftp_session \<Rightarrow> handle \<Rightarrow> int" where
  "holds s h = of_bool (0 \<le> data_fd s \<and> h = Fd (data_fd s)) + of_bool (0 \<le> pasv_fd s \<and> h = Fd (pasv_fd s))"

text \<open>A session with other values in the fields a data transfer maintains.\<close>

definition vol ::
  "int \<times> (64 word \<times> 64 word) \<times> ftp_crypto_ctx \<times> 64 word \<times> 64 word \<Rightarrow> ftp_session \<Rightarrow> ftp_session" where
  "vol v s = (case v of (la, (bs, br), cr, tk, ns) \<Rightarrow>
     s\<lparr>last_activity := la, stats := (stats s)\<lparr>bytes_sent := bs, bytes_received := br\<rparr>,
       crypto := cr, rl_tokens := tk, rl_last_ns := ns\<rparr>)"

definition vol_of :: "ftp_session \<Rightarrow> int \<times> (64 word \<times> 64 word) \<times> ftp_crypto_ctx \<times> 64 word \<times> 64 word" where
  "vol_of s = (last_activity s, (bytes_sent (stats s), bytes_received (stats s)), crypto s, rl_tokens s, rl_last_ns s)"

lemma vol_fields [simp]:
  "ctrl_fd (vol v s) = ctrl_fd s" "data_fd (vol v s) = data_fd s" "pasv_fd (vol v s) = pasv_fd s"
  "data_addr (vol v s) = data_addr s" "ctrl_addr (vol v s) = ctrl_addr s" "data_mode (vol v s) = data_mode s"
  "sstate (vol v s) = sstate s" "transfer_type (vol v s) = transfer_type s" "restart_offset (vol v s) = restart_offset s"
  "root_path (vol v s) = root_path s" "cwd (vol v s) = cwd s" "rename_from (vol v s) = rename_from s"
  "copy_from (vol v s) = copy_from s" "copy_in_progress (vol v s) = copy_in_progress s"
  "copy_thread_valid (vol v s) = copy_thread_valid s" "authenticated (vol v s) = authenticated s"
  "user_ok (vol v s) = user_ok s" "ctrl_rxbuf (vol v s) = ctrl_rxbuf s" "ctrl_rx_len (vol v s) = ctrl_rx_len s"
  "ctrl_rx_off (vol v s) = ctrl_rx_off s"
  "crypto (vol v s) = fst (snd (snd v))"
  "files_sent (stats (vol v s)) = files_sent (stats s)" "files_received (stats (vol v s)) = files_received (stats s)"
  by (simp_all add: vol_def split: prod.split)

lemma vol_vol [simp]: "vol v (vol v' s) = vol v s"
  by (simp add: vol_def split: prod.split)

lemma vol_same [simp]: "vol (vol_of s) s = s"
  by (simp add: vol_def vol_of_def)

lemma holds_vol [simp]: "holds (vol v s) = holds s"
  by (simp add: holds_def fun_eq_iff)

lemma upd_volI: "f (sess st) = vol (vol_of (f (sess st))) (sess st) \<Longrightarrow> upd f st = upd (vol (vol_of (f (sess st)))) st"
  by (simp add: upd_def)

lemma vol_of_simps [simp]: "vol_of (vol v s) = v" "fst (snd (snd (vol_of s))) = crypto s"
  by (simp_all add: vol_def vol_of_def split: prod.split)

text \<open>The cipher of a session as a function on buffers; off, it is the identity.\<close>

definition cipher :: "ftp_crypto_ctx \<Rightarrow> byte list \<Rightarrow> byte list \<times> ftp_crypto_ctx" where
  "cipher c bs = (if active c \<noteq> 0 then ftp_crypto_xor c bs else (bs, c))"

definition crypto_ok :: "ftp_crypto_ctx \<Rightarrow> bool" where
  "crypto_ok c \<longleftrightarrow> (active c \<noteq> 0 \<longrightarrow> (\<exists>k p. ctx_at k c p))"

lemma active_xor [simp]: "active (snd (ftp_crypto_xor c bs)) = active c"
proof (induction c bs rule: ftp_crypto_xor.induct)
  case (1 c bs)
  then show ?case
    by (subst ftp_crypto_xor.simps) (simp add: Let_def case_prod_unfold refill_def next_block_def)
qed

lemma cipher_Nil [simp]: "cipher c [] = ([], c)"
  by (simp add: cipher_def ftp_crypto_xor.simps)

lemma cipher_ok: "crypto_ok c \<Longrightarrow> crypto_ok (snd (cipher c bs))"
  unfolding crypto_ok_def cipher_def by (auto intro: chacha.crypt_at)

lemma cipher_append:
  assumes "crypto_ok c"
  shows "fst (cipher c (xs @ ys)) = fst (cipher c xs) @ fst (cipher (snd (cipher c xs)) ys)"
  using assms unfolding crypto_ok_def cipher_def by (auto simp: chacha.crypt_append)

lemma cipher_length: "crypto_ok c \<Longrightarrow> length (fst (cipher c xs)) = length xs"
  unfolding crypto_ok_def cipher_def by (auto simp: chacha.crypt_length)

text \<open>One context is another after \<open>n\<close> more bytes of the stream.\<close>

definition moved :: "nat \<Rightarrow> ftp_crypto_ctx \<Rightarrow> ftp_crypto_ctx \<Rightarrow> bool" where
  "moved n c c' \<longleftrightarrow> active c' = active c \<and> (active c \<noteq> 0 \<longrightarrow> (\<forall>k p. ctx_at k c p \<longrightarrow> ctx_at k c' (p + n)))"

lemma moved_cipher: "moved (length xs) c (snd (cipher c xs))"
  by (auto simp: moved_def cipher_def intro: chacha.crypt_at)

lemma moved_refl [simp]: "moved 0 c c"
  by (simp add: moved_def)

lemma moved_trans: "moved m c c' \<Longrightarrow> moved n c' c'' \<Longrightarrow> moved (m + n) c c''"
  by (auto simp: moved_def add.assoc [symmetric])

lemma moved_ok: "crypto_ok c \<Longrightarrow> moved n c c' \<Longrightarrow> crypto_ok c'"
  by (auto simp: moved_def crypto_ok_def)

lemma moved_append:
  assumes "crypto_ok c" "moved (length xs) c c'"
  shows "fst (cipher c (xs @ ys)) = fst (cipher c xs) @ fst (cipher c' ys)"
proof (cases "active c = 0")
  case True
  with assms show ?thesis by (simp add: cipher_def moved_def)
next
  case False
  then obtain k p where c: "ctx_at k c p" using assms(1) by (auto simp: crypto_ok_def)
  have "ctx_at k c' (p + length xs)" "ctx_at k (snd (cipher c xs)) (p + length xs)" "active c' \<noteq> 0"
    using False assms(2) moved_cipher [of xs c] c by (auto simp: moved_def)
  then show ?thesis
    using False cipher_append [OF assms(1), of xs ys] c
    by (simp add: cipher_def chacha.crypt_out)
qed

lemma rate_limit_off [simp]: "session_rate_limit os n st = Some ((), st)"
  by (simp add: session_rate_limit_def rate_limit_def)

lemma post_pal_close [wp]:
  "(\<And>res w e. Q () (adv w e [(Sys_close fd, res)] st)) \<Longrightarrow> post (pal_close os fd st) Q"
  unfolding pal_close_def by (intro wp)

lemma post_send_reply_text:
  assumes "os_sat os posix"
    and "\<And>r w e t. list_all (sends (ctrl_fd (sess st))) t \<Longrightarrow>
      (case ftp_format_reply code message FTP_REPLY_BUFFER_SIZE of
         Inl _ \<Rightarrow> sent_to (ctrl_fd (sess st)) t = [] \<and> r \<noteq> FTP_OK
       | Inr m \<Rightarrow> prefix (sent_to (ctrl_fd (sess st)) t) (bytes_of m) \<and>
                  (r = FTP_OK \<longrightarrow> sent_to (ctrl_fd (sess st)) t = bytes_of m)) \<Longrightarrow> Q r (adv w e t st)"
  shows "post (ftp_session_send_reply os code message st) Q"
proof -
  have [simp]: "Q r st" if "r \<noteq> FTP_OK"
    for r using that assms(2) [of "[]" r "world st" "errno st"] by (auto split: sum.splits)
  show ?thesis
    unfolding ftp_session_send_reply_def
    apply (intro wp post_send_all [OF assms(1)])
    apply simp_all
    subgoal by (auto simp: ftp_format_reply_def Let_def split: if_splits)
    subgoal by (auto intro!: assms(2))
    done
qed

lemma post_send_reply [wp]:
  assumes "os_sat os posix"
    and "\<And>r w e t. list_all (sends (ctrl_fd (sess st))) t \<Longrightarrow> Q r (adv w e t st)"
  shows "post (ftp_session_send_reply os code message st) Q"
  using assms by (intro post_send_reply_text)

lemma send_lines_spec:
  assumes "os_sat os posix"
  shows "post (send_lines os code ls st) (\<lambda>_. advances (list_all (sends (ctrl_fd (sess st)))) st)"
proof (induction ls arbitrary: st)
  case Nil
  show ?case by (simp add: post_def advances_refl)
next
  case (Cons l ls)
  have IH: "post (send_lines os code ls (adv w e t st)) (\<lambda>_. advances (list_all (sends (ctrl_fd (sess st)))) st)"
    if "list_all (sends (ctrl_fd (sess st))) t" for w e t
    by (rule post_mono [OF Cons]) (use that in \<open>auto elim: advances_adv\<close>)
  show ?case
    unfolding send_lines.simps
    by (intro wp post_send_all [OF assms] IH) (auto simp: advances_refl advancesI)
qed

lemma post_send_multiline [wp]:
  assumes "os_sat os posix"
    and Q: "\<And>r w e t. list_all (sends (ctrl_fd (sess st))) t \<Longrightarrow> Q r (adv w e t st)"
  shows "post (ftp_session_send_multiline_reply os code lines st) Q"
  using Q [of "[]" _ "world st" "errno st"] unfolding ftp_session_send_multiline_reply_def
  by (intro wp post_mono [OF send_lines_spec [OF assms(1)]]) (auto simp: Q elim!: advancesE)

lemma select_loop_spec:
  "post (select_loop os fd wr ms st) (\<lambda>_. advances (list_all quiet) st)"
proof (rule postI)
  fix r st' assume ret: "select_loop os fd wr ms st = Some (r, st')"
  let ?P = "\<lambda>os fd wr ms st y. advances (list_all quiet) st (snd y)"
  have "?P os fd wr ms st (r, st')"
  proof (rule select_loop.raw_induct [where P = ?P, OF _ ret], goal_cases)
    case (1 loop os fd wr ms st y)
    have IH: "post (loop os fd wr ms st) (\<lambda>_. advances (list_all quiet) st)" for st
      using 1(1) by (fastforce simp: post_def)
    have "post (Some y) (\<lambda>_. advances (list_all quiet) st)"
      unfolding 1(2) [symmetric]
      apply (intro wp post_mono [OF IH])
      subgoal by (simp add: advancesI quiet_def)
      subgoal by (erule advances_adv) (simp add: quiet_def)
      subgoal by (simp add: advancesI quiet_def)
      done
    then show ?case by (cases y) (simp add: post_def)
  qed
  then show "advances (list_all quiet) st st'" by simp
qed

lemma post_wait_fd_ready [wp]:
  assumes "\<And>r w e t. list_all quiet t \<Longrightarrow> Q r (adv w e t st)"
  shows "post (wait_fd_ready os fd wr ms st) Q"
  unfolding wait_fd_ready_def set_errno_def
  by (intro wp post_mono [OF select_loop_spec]) (auto simp: assms elim!: advancesE)

lemma holds_closed [simp]: "data_fd s < 0 \<Longrightarrow> pasv_fd s < 0 \<Longrightarrow> holds s h = 0"
  by (simp add: holds_def)

lemma post_close_data [wp]:
  assumes "\<And>w e t x. list_all (\<lambda>e. ev_paths e = [] \<and> \<not> ev_moves e) t \<Longrightarrow>
      (\<And>h. bal h t = - holds (sess st) h) \<Longrightarrow>
      Q () (adv w e t (upd (\<lambda>s. s\<lparr>data_fd := (if 0 \<le> data_fd s then -1 else data_fd s),
                                 pasv_fd := (if 0 \<le> pasv_fd s then -1 else pasv_fd s),
                                 data_mode := FTP_DATA_MODE_NONE, restart_offset := 0, sstate := x\<rparr>) st))"
  shows "post (ftp_session_close_data_connection os st) Q"
proof -
  let ?f = "\<lambda>x s. s\<lparr>data_fd := (if 0 \<le> data_fd s then -1 else data_fd s),
                   pasv_fd := (if 0 \<le> pasv_fd s then -1 else pasv_fd s),
                   data_mode := FTP_DATA_MODE_NONE, restart_offset := 0, sstate := x\<rparr>"
  have Q: "Q () (adv w e t (upd f st))"
    if "list_all (\<lambda>e. ev_paths e = [] \<and> \<not> ev_moves e) t" "\<And>h. bal h t = - holds (sess st) h"
      "f (sess st) = ?f (sstate (f (sess st))) (sess st)" for w e t f
  proof -
    have "upd f st = upd (?f (sstate (f (sess st)))) st" unfolding upd_def by (subst that(3)) simp
    then show ?thesis by (simp only:) (rule assms [OF that(1,2)])
  qed
  show ?thesis
    unfolding ftp_session_close_data_connection_def
    apply (intro wp)
    apply simp_all
    apply (rule Q; simp add: holds_def)
    apply (rule Q; simp add: holds_def)
    apply (rule Q; simp add: holds_def)
    subgoal using Q [of "[]" _ "world st" "errno st"] by (simp add: holds_def)
    done
qed

lemma post_open_data_socket:
  assumes "data_fd (sess st) < 0"
    and "\<And>r w e t d p x. list_all (\<lambda>e. ev_paths e = [] \<and> \<not> ev_moves e) t \<Longrightarrow>
      (if r = FTP_OK then 0 \<le> d else d = data_fd (sess st)) \<Longrightarrow>
      (\<And>h. bal h t = holds ((sess st)\<lparr>data_fd := d, pasv_fd := p\<rparr>) h - holds (sess st) h) \<Longrightarrow>
      (r = FTP_OK \<Longrightarrow> socket_opened d t) \<Longrightarrow>
      Q r (adv w e t (upd (\<lambda>s. s\<lparr>data_fd := d, pasv_fd := p, sstate := x\<rparr>) st))"
  shows "post (ftp_session_open_data_connection os st) Q"
proof -
  let ?f = "\<lambda>d p x s. s\<lparr>data_fd := d, pasv_fd := p, sstate := x\<rparr>"
  have Q: "Q r (adv w e t (upd f st))"
    if "list_all (\<lambda>e. ev_paths e = [] \<and> \<not> ev_moves e) t"
      "if r = FTP_OK then 0 \<le> data_fd (f (sess st)) else data_fd (f (sess st)) = data_fd (sess st)"
      "\<And>h. bal h t = holds (f (sess st)) h - holds (sess st) h"
      "f (sess st) = ?f (data_fd (f (sess st))) (pasv_fd (f (sess st))) (sstate (f (sess st))) (sess st)"
      "r = FTP_OK \<Longrightarrow> socket_opened (data_fd (f (sess st))) t" for r w e t f
  proof -
    have "upd f st = upd (?f (data_fd (f (sess st))) (pasv_fd (f (sess st))) (sstate (f (sess st)))) st"
      unfolding upd_def by (subst that(4)) simp
    moreover have "holds (f (sess st)) h = holds ((sess st)\<lparr>data_fd := data_fd (f (sess st)), pasv_fd := pasv_fd (f (sess st))\<rparr>) h" for h
      by (simp add: holds_def)
    ultimately show ?thesis using that(3,5) by (simp only:) (rule assms(2) [OF that(1,2)])
  qed
  have Q0: "Q r (adv w e t st)"
    if "list_all (\<lambda>e. ev_paths e = [] \<and> \<not> ev_moves e) t" "r \<noteq> FTP_OK" "\<And>h. bal h t = 0" for r w e t
    using Q [of t r "\<lambda>s. s" w e] that by (simp add: upd_def)
  have here: "Q r st" if "r \<noteq> FTP_OK" for r
    using Q0 [of "[]" r "world st" "errno st"] that by simp
  have q: "list_all quiet t \<Longrightarrow> list_all (\<lambda>e. ev_paths e = [] \<and> \<not> ev_moves e) t" "list_all quiet t \<Longrightarrow> bal h t = 0" for t h
    using quiet_touches [of t "[]"] by (auto simp: touches_def list_all_iff)
  show ?thesis
    unfolding ftp_session_open_data_connection_def open_data_active_def open_data_passive_def
    apply (intro wp)
    apply (simp_all add: here Q0 q)
    apply ((rule Q0 | rule Q); use assms(1) in \<open>simp add: q holds_def not_less\<close>)+
    done
qed

lemma post_open_data [wp]:
  assumes "data_fd (sess st) < 0"
    and "\<And>r w e t d p x. list_all (\<lambda>e. ev_paths e = [] \<and> \<not> ev_moves e) t \<Longrightarrow>
      (if r = FTP_OK then 0 \<le> d else d = data_fd (sess st)) \<Longrightarrow>
      (\<And>h. bal h t = holds ((sess st)\<lparr>data_fd := d, pasv_fd := p\<rparr>) h - holds (sess st) h) \<Longrightarrow>
      Q r (adv w e t (upd (\<lambda>s. s\<lparr>data_fd := d, pasv_fd := p, sstate := x\<rparr>) st))"
  shows "post (ftp_session_open_data_connection os st) Q"
  by (rule post_open_data_socket [OF assms(1)]) (rule assms(2), assumption+)

text \<open>One state is another after some calls and changes to the volatile fields only.\<close>

definition vol_adv :: "(event list \<Rightarrow> ftp_crypto_ctx \<Rightarrow> bool) \<Rightarrow> 'w st \<Rightarrow> 'w st \<Rightarrow> bool" where
  "vol_adv P st st' \<longleftrightarrow> (\<exists>w e t v. st' = adv w e t (upd (vol v) st) \<and> P t (fst (snd (snd v))))"

lemma vol_advI:
  assumes "f (sess st) = vol (vol_of (f (sess st))) (sess st)" "P t (crypto (f (sess st)))"
  shows "vol_adv P st (adv w e t (upd f st))"
  unfolding vol_adv_def upd_volI [of f st, OF assms(1)] using assms(2) by fastforce

lemma vol_adv_refl: "P [] (crypto (sess st)) \<Longrightarrow> vol_adv P st st"
  using vol_advI [of "\<lambda>s. s" st P "[]" "world st" "errno st"] by (simp add: upd_def)

lemma vol_advE:
  assumes "vol_adv P st st'"
  obtains w e t v where "st' = adv w e t (upd (vol v) st)" "P t (fst (snd (snd v)))"
  using assms unfolding vol_adv_def by blast

lemma vol_adv_step:
  assumes "vol_adv P' (adv w e t (upd f st)) st'" "f (sess st) = vol (vol_of (f (sess st))) (sess st)"
    "\<And>t' c. P' t' c \<Longrightarrow> P (t @ t') c"
  shows "vol_adv P st st'"
proof -
  obtain w' e' t' v where s: "st' = adv w' e' t' (upd (vol v) (adv w e t (upd f st)))" "P' t' (fst (snd (snd v)))"
    using assms(1) by (rule vol_advE)
  have "upd (vol v) (upd f st) = upd (vol v) st"
    unfolding upd_volI [of f st, OF assms(2)] by simp
  then show ?thesis using s assms(3) unfolding vol_adv_def by fastforce
qed

lemma vol_adv_advI: "P t (crypto (sess st)) \<Longrightarrow> vol_adv P st (adv w e t st)"
  using vol_advI [of "\<lambda>s. s" st P t w e] by (simp add: upd_def)

lemma vol_adv_adv:
  assumes "vol_adv P' (adv w e t st) st'" "\<And>t' c. P' t' c \<Longrightarrow> P (t @ t') c"
  shows "vol_adv P st st'"
  using vol_adv_step [of P' w e t "\<lambda>s. s" st st' P] assms by (simp add: upd_def)

lemma vol_adv_vol:
  assumes "vol_adv P' (adv w e t (upd (vol v) st)) st'" "\<And>t' c. P' t' c \<Longrightarrow> P (t @ t') c"
  shows "vol_adv P st st'"
  by (rule vol_adv_step [OF assms(1)]) (simp_all add: assms(2))

definition sent_all ::
  "int \<Rightarrow> ftp_crypto_ctx \<Rightarrow> byte list \<Rightarrow> bool \<Rightarrow> event list \<Rightarrow> ftp_crypto_ctx \<Rightarrow> bool" where
  "sent_all fd c bs b t c' \<longleftrightarrow>
    list_all (sends fd) t \<and> crypto_ok c' \<and>
    (b \<longrightarrow> sent_to fd t = fst (cipher c bs) \<and> moved (length bs) c c')"

text \<open>
  The encrypted send loop: if it reports all bytes, the peer got the encryption of the
  whole buffer as one piece.
\<close>

lemma send_encrypted_spec:
  assumes sat: "os_sat os posix"
  shows "0 \<le> tot \<Longrightarrow> active (crypto (sess st)) \<noteq> 0 \<Longrightarrow> crypto_ok (crypto (sess st)) \<Longrightarrow>
    post (send_encrypted os src tot st) (\<lambda>r. vol_adv
      (sent_all (data_fd (sess st)) (crypto (sess st)) src (r = tot + int (length src))) st)"
proof (induction "length src" arbitrary: src tot st rule: less_induct)
  case less
  let ?c = "crypto (sess st)" and ?hd = "take 4096 src" and ?tl = "drop 4096 src" and ?fd = "data_fd (sess st)"
  let ?P = "\<lambda>r. sent_all ?fd ?c src (r = tot + int (length src))"
  obtain chunk ctx where cc: "ftp_crypto_xor ?c ?hd = (chunk, ctx)" by (cases "ftp_crypto_xor ?c ?hd")
  have cip: "cipher ?c ?hd = (chunk, ctx)" using cc less.prems by (simp add: cipher_def)
  have ok: "crypto_ok ctx" "active ctx \<noteq> 0" "length chunk = length ?hd"
    using cipher_ok [OF less.prems(3), of ?hd] cipher_length [OF less.prems(3), of ?hd] cip
      active_xor [of ?c ?hd] cc less.prems(2) by auto
  have on: "moved (length src) ?c c'" if "moved (length src - 4096) ctx c'" for c'
  proof -
    have "length ?hd + (length src - 4096) = length src" by simp
    moreover have "moved (length ?hd) ?c ctx" using moved_cipher [of ?hd ?c] cip by simp
    ultimately show ?thesis using moved_trans [OF _ that, of "length ?hd" ?c] by presburger
  qed
  have whole: "fst (cipher ?c src) = chunk @ fst (cipher ctx ?tl)"
    using cipher_append [OF less.prems(3), of ?hd ?tl] cip by simp
  let ?st = "upd (\<lambda>s. s\<lparr>crypto := ctx\<rparr>) st"
  have rec: "post (send_encrypted os ?tl (tot + r) (adv w e t ?st)) (\<lambda>r. vol_adv (?P r) st)"
    if "src \<noteq> []" "list_all (sends ?fd) t" "r = int (length chunk) \<and> sent_to ?fd t = chunk" for w e t r
  proof (rule post_mono [OF less.hyps])
    show "length ?tl < length src" using that by (cases src) auto
    show "0 \<le> tot + r" using that less.prems by simp
    show "active (crypto (sess (adv w e t ?st))) \<noteq> 0" "crypto_ok (crypto (sess (adv w e t ?st)))"
      using ok by simp_all
  next
    fix r' s
    assume "vol_adv (sent_all (data_fd (sess (adv w e t ?st))) (crypto (sess (adv w e t ?st))) ?tl
      (r' = tot + r + int (length ?tl))) (adv w e t ?st) s"
    then show "vol_adv (?P r') st s"
      by (rule vol_adv_step) (use that whole ok(3) in \<open>auto simp: sent_all_def vol_def vol_of_def on\<close>)
  qed
  show ?case
    unfolding send_encrypted.simps [of os src]
    apply (intro post_touch_time wp post_send_all [OF sat])
    subgoal for t w e q
      by (simp, rule vol_advI)
         (simp_all add: vol_def vol_of_def sent_all_def sends_def less.prems)
    subgoal for y a b y2 r w e t
      using cc less.prems ok by (auto simp: sent_all_def vol_def vol_of_def intro!: vol_advI)
    subgoal for y a b y2 r w e t
      using cc rec by (auto simp: sent_all_def vol_def vol_of_def)
    done
qed

lemma post_send_data [wp]:
  assumes sat: "os_sat os posix" and ok: "crypto_ok (crypto (sess st))"
    and Q: "\<And>r w e t v. list_all (sends (data_fd (sess st))) t \<Longrightarrow> crypto_ok (fst (snd (snd v))) \<Longrightarrow>
      (r = int (length buf) \<Longrightarrow> sent_to (data_fd (sess st)) t = fst (cipher (crypto (sess st)) buf) \<and>
        moved (length buf) (crypto (sess st)) (fst (snd (snd v)))) \<Longrightarrow>
      Q r (adv w e t (upd (vol v) st))"
  shows "post (ftp_session_send_data os buf st) Q"
proof -
  have V: "Q r s" if "vol_adv (sent_all (data_fd (sess st)) (crypto (sess st)) buf (r = int (length buf))) st s" for r s
    using that by (rule vol_advE) (auto simp: sent_all_def intro!: Q)
  show ?thesis
    unfolding ftp_session_send_data_def rate_limit_off
    apply (intro post_touch_time wp post_send_all [OF sat] post_mono [OF send_encrypted_spec [OF sat]])
    subgoal by (rule V) (simp add: vol_adv_refl sent_all_def ok)
    subgoal by (rule V) (simp add: vol_adv_refl sent_all_def ok)
    subgoal by simp
    subgoal by simp
    subgoal using ok by simp
    subgoal by (rule V) simp
    subgoal using ok
      by (simp, intro V vol_advI)
         (auto simp: vol_def vol_of_def sent_all_def sends_def cipher_def moved_def)
    subgoal for r w e t
      using ok V [of r "adv w e t st"] vol_advI [of "\<lambda>s. s" st _ t w e]
      by (auto simp: upd_def sent_all_def vol_def vol_of_def)
    done
qed

lemma post_recv_data_fd:
  assumes sat: "os_sat os posix" and ok: "crypto_ok (crypto (sess st))"
    and Q: "\<And>r bs w e t v. neutral t \<Longrightarrow> crypto_ok (fst (snd (snd v))) \<Longrightarrow>
      (0 < r \<Longrightarrow> r = int (length bs) \<and> length bs \<le> len) \<Longrightarrow> (r \<le> 0 \<Longrightarrow> bs = []) \<Longrightarrow>
      (bs, fst (snd (snd v))) = cipher (crypto (sess st)) (received_from (data_fd (sess st)) t) \<Longrightarrow>
      (\<And>fd. sent_to fd t = [] \<and> written_to fd t = [] \<and> read_from fd t = []) \<Longrightarrow>
      recv_only (data_fd (sess st)) t \<Longrightarrow> (r = 0 \<Longrightarrow> peer_closed (data_fd (sess st)) t) \<Longrightarrow>
      Q (r, bs) (adv w e t (upd (vol v) st))"
  shows "post (ftp_session_recv_data os len st) Q"
proof -
  have V: "Q (r, bs) (adv w e t (upd f st))"
    if "f (sess st) = vol (vol_of (f (sess st))) (sess st)" "neutral t"
      "0 < r \<Longrightarrow> r = int (length bs) \<and> length bs \<le> len" "r \<le> 0 \<Longrightarrow> bs = []"
      "(bs, crypto (f (sess st))) = cipher (crypto (sess st)) (received_from (data_fd (sess st)) t)"
      "\<And>fd. sent_to fd t = [] \<and> written_to fd t = [] \<and> read_from fd t = []"
      "recv_only (data_fd (sess st)) t" "r = 0 \<Longrightarrow> peer_closed (data_fd (sess st)) t" for r bs w e t f
    unfolding upd_volI [of f st, OF that(1)]
    using that cipher_ok [OF ok, of "received_from (data_fd (sess st)) t"]
    by (intro Q) (simp_all add: prod_eq_iff)
  have here: "Q (r, []) (adv w e t st)" if "neutral t" "r \<le> 0" "received_from (data_fd (sess st)) t = []"
      "\<And>fd. sent_to fd t = [] \<and> written_to fd t = [] \<and> read_from fd t = []"
      "recv_only (data_fd (sess st)) t" "r = 0 \<Longrightarrow> peer_closed (data_fd (sess st)) t" for r w e t
    using V [of "\<lambda>s. s" t r "[]" w e] that by (simp add: upd_def)
  have here': "Q (r, []) st" if "r < 0" for r
    using here [of "[]" r "world st" "errno st"] that by simp
  have still: "list_all quiet t \<Longrightarrow> neutral ((Sys_recv fd n, res) # t)" for t fd n res
    by (simp add: neutral_Cons quiet_neutral)
  show ?thesis
    unfolding ftp_session_recv_data_def rate_limit_off
    apply (intro post_syscall_sat [OF sat] wp)
    subgoal by (simp add: here')
    subgoal by (simp add: here')
    subgoal for r w y ya a b yb t wa e tr
      using cipher_length [OF ok, of "r_data r"]
      by (cases "ftp_crypto_xor (crypto (sess st)) (r_data r)", simp, intro V)
         (auto simp: vol_def vol_of_def still quiet_trace touchesD [OF quiet_touches] quiet_recv_only posix_def cipher_def split: if_splits)
    subgoal by (rule here) (auto intro!: neutral_Cons)
    done
qed

lemma post_recv_data [wp]:
  assumes "os_sat os posix" and "crypto_ok (crypto (sess st))"
    and "\<And>r bs w e t v. neutral t \<Longrightarrow> crypto_ok (fst (snd (snd v))) \<Longrightarrow>
      (0 < r \<Longrightarrow> r = int (length bs) \<and> length bs \<le> len) \<Longrightarrow> (r \<le> 0 \<Longrightarrow> bs = []) \<Longrightarrow>
      (bs, fst (snd (snd v))) = cipher (crypto (sess st)) (received_from (data_fd (sess st)) t) \<Longrightarrow>
      (\<And>fd. sent_to fd t = [] \<and> written_to fd t = [] \<and> read_from fd t = []) \<Longrightarrow>
      Q (r, bs) (adv w e t (upd (vol v) st))"
  shows "post (ftp_session_recv_data os len st) Q"
  by (rule post_recv_data_fd [OF assms(1,2)]) (rule assms(3), assumption+)

text \<open>A line and how it ended.\<close>

definition is_eol :: "string \<Rightarrow> string \<Rightarrow> bool" where
  "is_eol line eol \<longleftrightarrow> eol = CRLF \<or> eol = [LF] \<and> (line = [] \<or> last line \<noteq> CR)"

definition framed :: "nat \<Rightarrow> string \<Rightarrow> string \<Rightarrow> string \<Rightarrow> bool" where
  "framed sz inp line rest \<longleftrightarrow>
    (\<exists>eol. inp = line @ eol @ rest \<and> is_eol line eol \<and> LF \<notin> set line \<and> length line < sz)"

lemma framed_append: "framed sz inp line rest \<Longrightarrow> framed sz (inp @ z) line (rest @ z)"
  by (auto simp: framed_def)

lemma split_eol:
  assumes "LF \<notin> set out" "length out < n"
  shows "if out \<noteq> [] \<and> last out = CR then framed n (out @ [LF]) (butlast out) [] else framed n (out @ [LF]) out []"
  using assms by (cases out rule: rev_cases) (auto simp: framed_def is_eol_def intro: exI [of _ CRLF])

lemma scan_line_sound:
  assumes "LF \<notin> set out" "0 < sz"
  shows "case scan_line sz cs i out tg of
      Scan_line j line \<Rightarrow> \<not> tg \<and> (\<exists>k. j = i + k \<and> framed sz (out @ cs) line (drop k cs))
    | Scan_too_long j \<Rightarrow> True
    | Scan_more out' tg' \<Rightarrow> LF \<notin> set out' \<and> (tg \<longrightarrow> tg') \<and> (\<not> tg' \<longrightarrow> out' = out @ cs)"
  using assms(1)
proof (induction cs arbitrary: i out tg)
  case Nil
  then show ?case by simp
next
  case (Cons c cs)
  show ?case
  proof (cases "\<not> tg \<and> length out < sz - 1")
    case grow: True
    show ?thesis
    proof (cases "c = LF")
      case True
      then show ?thesis
        using grow Cons.prems split_eol [of out sz] framed_append [of sz "out @ [LF]" _ "[]" cs]
        by (cases out rule: rev_cases) (auto simp: nth_append butlast_append intro!: exI [of _ 1])
    next
      case False
      then have "LF \<notin> set (out @ [c])" using Cons.prems by simp
      from Cons.IH [OF this, where i = "i + 1" and tg = False] show ?thesis
        using grow False
        by (auto split: scan.splits)
    qed
  next
    case False
    then show ?thesis
      using Cons.IH [OF Cons.prems, where i = "i + 1" and tg = True] by (auto split: scan.splits)
  qed
qed

text \<open>The state after reading: some calls, and new contents of the receive buffer.\<close>

definition rx_adv :: "(event list \<Rightarrow> ftp_session \<Rightarrow> bool) \<Rightarrow> 'w st \<Rightarrow> 'w st \<Rightarrow> bool" where
  "rx_adv P st st' \<longleftrightarrow> (\<exists>w e t b l f. st' = adv w e t (upd (\<lambda>s. s\<lparr>ctrl_rxbuf := b, ctrl_rx_len := l, ctrl_rx_off := f\<rparr>) st) \<and>
     P t (sess st'))"

lemma rx_advI:
  assumes "f (sess st) = (sess st)\<lparr>ctrl_rxbuf := ctrl_rxbuf (f (sess st)), ctrl_rx_len := ctrl_rx_len (f (sess st)),
      ctrl_rx_off := ctrl_rx_off (f (sess st))\<rparr>" "P t (f (sess st))"
  shows "rx_adv P st (adv w e t (upd f st))"
proof -
  have "upd f st = upd (\<lambda>s. s\<lparr>ctrl_rxbuf := ctrl_rxbuf (f (sess st)), ctrl_rx_len := ctrl_rx_len (f (sess st)),
      ctrl_rx_off := ctrl_rx_off (f (sess st))\<rparr>) st"
    unfolding upd_def by (subst assms(1)) simp
  then show ?thesis unfolding rx_adv_def using assms(2) by (metis adv_simps(4) upd_simps(4))
qed

lemma rx_adv_step:
  assumes "rx_adv P' (adv w e t (upd f st)) st'"
    "f (sess st) = (sess st)\<lparr>ctrl_rxbuf := ctrl_rxbuf (f (sess st)), ctrl_rx_len := ctrl_rx_len (f (sess st)),
      ctrl_rx_off := ctrl_rx_off (f (sess st))\<rparr>"
    "\<And>t' s. P' t' s \<Longrightarrow> P (t @ t') s"
  shows "rx_adv P st st'"
proof -
  obtain w' e' t' b l k where s: "st' = adv w' e' t' (upd (\<lambda>s. s\<lparr>ctrl_rxbuf := b, ctrl_rx_len := l, ctrl_rx_off := k\<rparr>)
      (adv w e t (upd f st)))" "P' t' (sess st')"
    using assms(1) unfolding rx_adv_def by blast
  have "upd (\<lambda>s. s\<lparr>ctrl_rxbuf := b, ctrl_rx_len := l, ctrl_rx_off := k\<rparr>) (upd f st) =
      upd (\<lambda>s. s\<lparr>ctrl_rxbuf := b, ctrl_rx_len := l, ctrl_rx_off := k\<rparr>) st"
    unfolding upd_def by (simp, subst assms(2)) simp
  then have "st' = adv w' e' (t @ t') (upd (\<lambda>s. s\<lparr>ctrl_rxbuf := b, ctrl_rx_len := l, ctrl_rx_off := k\<rparr>) st)"
    using s(1) by simp
  then show ?thesis unfolding rx_adv_def using assms(3) [OF s(2)] by blast
qed

lemma chars_of_append [simp]: "chars_of (a @ b) = chars_of a @ chars_of b"
  by (simp add: chars_of_def)

lemma chars_of_Nil [simp]: "chars_of [] = []" "length (chars_of b) = length b"
  by (simp_all add: chars_of_def)

text \<open>A receive call that was not interrupted by a signal.\<close>

fun no_eintr :: "event \<Rightarrow> bool" where
  "no_eintr (c, r) \<longleftrightarrow> (case c of Sys_recv _ _ \<Rightarrow> \<not> (r_ret r < 0 \<and> r_errno r = EINTR) | _ \<Rightarrow> True)"

definition read_ok :: "bool \<Rightarrow> nat \<Rightarrow> string \<Rightarrow> int \<Rightarrow> int \<times> string \<Rightarrow> event list \<Rightarrow> ftp_session \<Rightarrow> bool" where
  "read_ok too_long sz inp fd r t s \<longleftrightarrow> neutral t \<and> (too_long \<longrightarrow> fst r \<le> 0) \<and>
    (list_all no_eintr t \<and> 0 < fst r \<longrightarrow> fst r = int (length (snd r)) \<and>
       framed sz (inp @ chars_of (received_from fd t)) (snd r) (rx_pending s))"

lemma rx_pending_consume [simp]: "rx_pending (rx_consume n s) = drop n (take (ctrl_rx_len s) (ctrl_rxbuf s))"
  by (simp add: rx_consume_def rx_pending_def)

lemma ctrl_fd_consume [simp]: "ctrl_fd (rx_consume n s) = ctrl_fd s"
  by (simp add: rx_consume_def)

lemma read_command_loop_spec:
  assumes sat: "os_sat os posix" "0 < sz"
    and out: "LF \<notin> set out"
  shows "post (read_command_loop os sz out tg st) (\<lambda>r. rx_adv (read_ok tg sz (out @ rx_pending (sess st)) (ctrl_fd (sess st)) r) st)"
proof (rule postI)
  fix r st' assume ret: "read_command_loop os sz out tg st = Some (r, st')"
  let ?R = "\<lambda>out tg st r. rx_adv (read_ok tg sz (out @ rx_pending (sess st)) (ctrl_fd (sess st)) r) st"
  let ?P = "\<lambda>os sz' out tg st y. os_sat os posix \<and> sz' = sz \<and> LF \<notin> set out \<longrightarrow>
    ?R out tg st (fst y) (snd y)"
  have "?P os sz out tg st (r, st')"
  proof (rule read_command_loop.raw_induct [where P = ?P, OF _ ret], rule impI, goal_cases)
    case (1 loop os sz' out tg st y)
    then have sat1: "os_sat os posix" and sz: "sz' = sz" and out: "LF \<notin> set out"
      by (auto simp: os_sat_def)
    have IH: "post (loop os sz out tg st) (?R out tg st)" if "LF \<notin> set out" for out tg st
      using 1(1) [of os sz out tg st] 1(3) that sz by (auto simp: post_def)
    let ?s = "sess st"
    have scan: "case scan_line sz (rx_pending ?s) (ctrl_rx_off ?s) out tg of
      Scan_line j line \<Rightarrow> \<not> tg \<and> (\<exists>k. j = ctrl_rx_off ?s + k \<and> framed sz (out @ rx_pending ?s) line (drop k (rx_pending ?s)))
    | Scan_too_long j \<Rightarrow> True
    | Scan_more out' tg' \<Rightarrow> LF \<notin> set out' \<and> (tg \<longrightarrow> tg') \<and> (\<not> tg' \<longrightarrow> out' = out @ rx_pending ?s)"
      by (rule scan_line_sound [OF out \<open>0 < sz\<close>])
    have "post (Some y) (?R out tg st)"
    proof (cases "scan_line sz (rx_pending ?s) (ctrl_rx_off ?s) out tg")
      case (Scan_line j line)
      have "rx_adv (read_ok tg sz (out @ rx_pending ?s) (ctrl_fd ?s) (int (length line), line)) st
          (adv (world st) (errno st) [] (upd (rx_consume j) st))"
        using scan Scan_line
        by (intro rx_advI) (auto simp: read_ok_def rx_consume_def rx_pending_def add.commute)
      then show ?thesis
        unfolding 1(2) [symmetric] sz using Scan_line by (simp add: post_def)
    next
      case (Scan_too_long j)
      show ?thesis
        unfolding 1(2) [symmetric] sz Scan_too_long scan.case
        apply (intro wp)
        subgoal using 1(3) by simp
        subgoal by (simp, intro rx_advI)
          (auto simp: rx_consume_def read_ok_def sends_neutral err_code_nonpos)
        done
    next
      case (Scan_more out' tg')
      let ?o = "if tg' then [] else out'"
      have o: "LF \<notin> set ?o" "\<not> tg' \<Longrightarrow> out' = out @ rx_pending ?s" "\<not> tg' \<Longrightarrow> \<not> tg" using scan Scan_more by auto
      let ?f = "\<lambda>s. if ctrl_rx_off s \<ge> ctrl_rx_len s then s\<lparr>ctrl_rx_off := 0, ctrl_rx_len := 0\<rparr> else s"
      show ?thesis
        unfolding 1(2) [symmetric] sz Scan_more scan.case
        apply (intro post_syscall_sat [OF sat1] wp)
        subgoal by (simp, intro rx_advI) (auto simp: read_ok_def neutral_Cons)
        subgoal for ya yb r w
          apply (rule post_mono [OF IH], use o in simp)
          apply (simp, erule rx_adv_step)
           apply simp
          using o apply (auto simp: read_ok_def neutral_Cons split: if_splits)
          done
        subgoal by (simp, intro rx_advI) (auto simp: read_ok_def neutral_Cons)
        subgoal by (simp, intro rx_advI) (auto simp: read_ok_def neutral_Cons)
        subgoal for ya yb r w
          apply (rule post_mono [OF IH], use o in simp)
          apply (simp, erule rx_adv_step)
           apply simp
          using o apply (auto simp: read_ok_def posix_def neutral_Cons rx_pending_def split: if_splits)
          done
        done
    qed
    then show ?case by (cases y) (simp add: post_def)
  qed
  then show "?R out tg st r st'" using assms by simp
qed

lemma post_read_command_line:
  assumes sat: "os_sat os posix"
    and Q: "\<And>r w e t b l f. neutral t \<Longrightarrow>
      (list_all no_eintr t \<Longrightarrow> 0 < fst r \<Longrightarrow> fst r = int (length (snd r)) \<and>
        framed sz (rx_pending (sess st) @ chars_of (received_from (ctrl_fd (sess st)) t)) (snd r)
          (rx_pending ((sess st)\<lparr>ctrl_rxbuf := b, ctrl_rx_len := l, ctrl_rx_off := f\<rparr>))) \<Longrightarrow>
      Q r (adv w e t (upd (\<lambda>s. s\<lparr>ctrl_rxbuf := b, ctrl_rx_len := l, ctrl_rx_off := f\<rparr>) st))"
  shows "post (ftp_session_read_command os sz st) Q"
proof -
  have here: "Q (r, []) st" if "r < 0" for r
  proof -
    let ?f = "\<lambda>s. s\<lparr>ctrl_rxbuf := ctrl_rxbuf (sess st), ctrl_rx_len := ctrl_rx_len (sess st),
        ctrl_rx_off := ctrl_rx_off (sess st)\<rparr>"
    have same: "upd ?f st = st" by (simp add: upd_def)
    have "Q (r, []) (adv (world st) (errno st) [] (upd ?f st))"
      by (rule Q) (use that in simp_all)
    then show ?thesis by (simp only: same) simp
  qed
  have "0 < sz" if "\<not> sz < FTP_CMD_BUFFER_SIZE" using that by simp
  then show ?thesis
    unfolding ftp_session_read_command_def
    apply (intro wp post_mono [OF read_command_loop_spec])
    apply (simp_all add: here sat)
    apply (auto simp: rx_adv_def read_ok_def intro!: Q)
    done
qed

lemma post_read_command [wp]:
  assumes "os_sat os posix"
    and "\<And>r w e t b l f. neutral t \<Longrightarrow>
      Q r (adv w e t (upd (\<lambda>s. s\<lparr>ctrl_rxbuf := b, ctrl_rx_len := l, ctrl_rx_off := f\<rparr>) st))"
  shows "post (ftp_session_read_command os sz st) Q"
  using assms by (intro post_read_command_line)

lemma post_cleanup [wp]:
  assumes Q: "\<And>w e t x. list_all (\<lambda>e. ev_paths e = [] \<and> \<not> ev_moves e) t \<Longrightarrow>
      (\<And>h. bal h t = - holds (sess st) h - of_bool (0 \<le> ctrl_fd (sess st) \<and> h = Fd (ctrl_fd (sess st)))) \<Longrightarrow>
      Q () (adv w e t (upd (\<lambda>s. s\<lparr>data_fd := (if 0 \<le> data_fd s then -1 else data_fd s),
                                 pasv_fd := (if 0 \<le> pasv_fd s then -1 else pasv_fd s),
                                 ctrl_fd := (if 0 \<le> ctrl_fd s then -1 else ctrl_fd s),
                                 data_mode := FTP_DATA_MODE_NONE, restart_offset := 0, sstate := x,
                                 crypto := ftp_crypto_reset (crypto s)\<rparr>) st))"
  shows "post (ftp_session_cleanup os st) Q"
proof -
  let ?f = "\<lambda>x s. s\<lparr>data_fd := (if 0 \<le> data_fd s then -1 else data_fd s),
                   pasv_fd := (if 0 \<le> pasv_fd s then -1 else pasv_fd s),
                   ctrl_fd := (if 0 \<le> ctrl_fd s then -1 else ctrl_fd s),
                   data_mode := FTP_DATA_MODE_NONE, restart_offset := 0, sstate := x,
                   crypto := ftp_crypto_reset (crypto s)\<rparr>"
  have V: "Q () (adv w e t (upd f st))"
    if "list_all (\<lambda>e. ev_paths e = [] \<and> \<not> ev_moves e) t"
      "\<And>h. bal h t = - holds (sess st) h - of_bool (0 \<le> ctrl_fd (sess st) \<and> h = Fd (ctrl_fd (sess st)))"
      "f (sess st) = ?f (sstate (f (sess st))) (sess st)" for w e t f
  proof -
    have "upd f st = upd (?f (sstate (f (sess st)))) st" unfolding upd_def by (subst that(3)) simp
    then show ?thesis by (simp only:) (rule Q [OF that(1,2)])
  qed
  have h: "holds (s\<lparr>sstate := x\<rparr>) = holds s" for s x by (simp add: holds_def fun_eq_iff)
  show ?thesis
    unfolding ftp_session_cleanup_def
    apply (intro wp)
    apply (simp_all add: h)
    apply (rule V; simp add: h)+
    done
qed

lemma send_reply_returns:
  assumes "os_sat os posix" "retry_bound os \<mu>"
  shows "\<exists>r st'. ftp_session_send_reply os code msg st = Some (r, st')"
proof -
  have "\<exists>r st'. pal_send_all os fd buf st = Some (r, st')" for fd buf
    using send_all_loop_returns [OF assms] by (auto simp: pal_send_all_def)
  then obtain r st' where "pal_send_all os (ctrl_fd (sess st))
      (bytes_of (projr (ftp_format_reply code msg FTP_REPLY_BUFFER_SIZE))) st = Some (r, st')" by blast
  then show ?thesis by (auto simp: ftp_session_send_reply_def split: sum.split)
qed

end
