(* ===== verification/Ftp_Contract.thy ===== *)
theory Ftp_Contract
  imports Ftp_Session_Rules
begin

text \<open>
  The contract of a command handler.  Whatever the client sends and the system
  answers, a handler names only paths inside the root of the session, leaves no
  descriptor open but the passive listener recorded in the session, gives back its
  transfer buffers, and keeps the session well formed.  The locale \<open>ftp_handler\<close> is
  the interface between the handlers and the dispatcher; every handler interprets it.
\<close>

section \<open>The contract\<close>

definition confined :: "string \<Rightarrow> string \<Rightarrow> bool" where
  "confined root p \<longleftrightarrow> ftp_path_is_within_root p root = 1 \<and> no_dotdot p"

text \<open>
  The temporary name of an upload: \<^verbatim>\<open>dir/.zftpd.tmp.base\<close>, cut to the size of the buffer.
\<close>

definition stor_tmp_path :: "string \<Rightarrow> string" where
  "stor_tmp_path resolved =
    take (FTP_PATH_MAX - 1)
      (if SLASH \<in> set resolved
       then before_last SLASH resolved @ ''/.zftpd.tmp.'' @ after_last SLASH resolved
       else ''.zftpd.tmp.'' @ resolved)"

text \<open>
  A call is inside the root if all paths it opens or changes are.  There are two
  exceptions: the random device is opened for reading, and an upload to the root
  directory itself uses a temporary name next to the root.
\<close>

definition ev_inside :: "string \<Rightarrow> event \<Rightarrow> bool" where
  "ev_inside root e \<longleftrightarrow>
    (\<forall>p \<in> set (ev_paths e). confined root p \<or> p = stor_tmp_path root) \<or>
    fst e = Sys_open ''/dev/urandom'' [O_RDONLY] 0"

definition sess_ok :: "ftp_session \<Rightarrow> bool" where
  "sess_ok s \<longleftrightarrow>
    confined (root_path s) (cwd s) \<and>
    (rename_from s \<noteq> [] \<longrightarrow> confined (root_path s) (rename_from s)) \<and>
    data_fd s < 0 \<and> crypto_ok (crypto s)"

definition keeps :: "'w st \<Rightarrow> 'w st \<Rightarrow> bool" where
  "keeps st st' \<longleftrightarrow>
    (\<exists>t. trace st' = trace st @ t \<and> list_all (ev_inside (root_path (sess st))) t \<and>
         (\<forall>h. bal h t = holds (sess st') h - holds (sess st) h)) \<and>
    root_path (sess st') = root_path (sess st) \<and> ctrl_fd (sess st') = ctrl_fd (sess st) \<and>
    pool st' = pool st \<and> sess_ok (sess st')"

text \<open>The type of a handler: arguments, if any, and the state.\<close>

type_synonym 'w handler = "'w os \<Rightarrow> string option \<Rightarrow> 'w st \<Rightarrow> (ftp_error \<times> 'w st) ret"

locale ftp_handler =
  fixes h :: "'w handler"
  assumes handler_keeps:
    "os_sat os posix \<Longrightarrow> sess_ok (sess st) \<Longrightarrow> post (h os args st) (\<lambda>_. keeps st)"
begin

lemma after:
  "os_sat os posix \<Longrightarrow> sess_ok (sess st) \<Longrightarrow> (\<And>r st'. keeps st st' \<Longrightarrow> Q r st') \<Longrightarrow>
   post (h os args st) Q"
  using handler_keeps by (rule post_mono)

end

section \<open>Lemmas\<close>

lemma inside_pathless: "list_all (\<lambda>e. ev_paths e = []) t \<Longrightarrow> list_all (ev_inside root) t"
  by (auto simp: ev_inside_def list_all_iff)

lemma inside_neutral: "neutral t \<Longrightarrow> list_all (ev_inside root) t"
  by (simp add: inside_pathless neutral_def)

lemma inside_quiet: "list_all quiet t \<Longrightarrow> list_all (ev_inside root) t"
  by (simp add: inside_neutral quiet_neutral)

lemma inside_sends: "list_all (sends fd) t \<Longrightarrow> list_all (ev_inside root) t"
  by (simp add: inside_neutral sends_neutral)

lemma inside_writes: "list_all (writes fd) t \<Longrightarrow> list_all (ev_inside root) t"
  by (simp add: inside_neutral writes_neutral)

lemma inside_still: "list_all (\<lambda>e. ev_paths e = [] \<and> \<not> ev_moves e) t \<Longrightarrow> list_all (ev_inside root) t"
  by (rule inside_pathless) (simp add: list_all_iff)

lemma inside_touches:
  "touches ps t \<Longrightarrow> (\<And>p. p \<in> set ps \<Longrightarrow> confined root p \<or> p = stor_tmp_path root) \<Longrightarrow>
   list_all (ev_inside root) t"
  by (fastforce simp: touches_def ev_inside_def list_all_iff)

lemma balance:
  "list_all quiet t \<Longrightarrow> bal h t = 0" "list_all (sends fd) t \<Longrightarrow> bal h t = 0"
  "list_all (writes fd) t \<Longrightarrow> bal h t = 0" "neutral t \<Longrightarrow> bal h t = 0" "touches ps t \<Longrightarrow> bal h t = 0"
  by (simp_all add: neutralD quiet_neutral sends_neutral writes_neutral touchesD)

lemmas inside = inside_neutral inside_quiet inside_sends inside_writes inside_still

lemma keeps_trans:
  assumes "keeps a b" "keeps b c"
  shows "keeps a c"
proof -
  obtain t where t: "trace b = trace a @ t" "list_all (ev_inside (root_path (sess a))) t"
    "\<And>h. bal h t = holds (sess b) h - holds (sess a) h"
    using assms(1) by (auto simp: keeps_def)
  obtain u where u: "trace c = trace b @ u" "list_all (ev_inside (root_path (sess b))) u"
    "\<And>h. bal h u = holds (sess c) h - holds (sess b) h"
    using assms(2) by (auto simp: keeps_def)
  show ?thesis
    using assms t u unfolding keeps_def by (auto intro!: exI [of _ "t @ u"])
qed

lemma keeps_simps [simp]:
  "keeps st (adv w e t (upd f st)) \<longleftrightarrow>
    list_all (ev_inside (root_path (sess st))) t \<and>
    (\<forall>h. bal h t = holds (f (sess st)) h - holds (sess st) h) \<and>
    root_path (f (sess st)) = root_path (sess st) \<and> ctrl_fd (f (sess st)) = ctrl_fd (sess st) \<and>
    sess_ok (f (sess st))"
  "keeps st (adv w e t st) \<longleftrightarrow>
    list_all (ev_inside (root_path (sess st))) t \<and> (\<forall>h. bal h t = 0) \<and> sess_ok (sess st)"
  "keeps st (upd f st) \<longleftrightarrow>
    (\<forall>h. holds (f (sess st)) h = holds (sess st) h) \<and>
    root_path (f (sess st)) = root_path (sess st) \<and> ctrl_fd (f (sess st)) = ctrl_fd (sess st) \<and>
    sess_ok (f (sess st))"
  by (auto simp: keeps_def)

lemma keeps_same [simp]: "keeps st st \<longleftrightarrow> sess_ok (sess st)"
  by (simp add: keeps_def)

lemma sess_okD:
  assumes "sess_ok s"
  shows "confined (root_path s) (cwd s)" "data_fd s < 0" "crypto_ok (crypto s)"
    "rename_from s \<noteq> [] \<Longrightarrow> confined (root_path s) (rename_from s)"
  using assms by (simp_all add: sess_ok_def)

lemma resolved_ok_confined: "resolved_ok root sz (Inr p) \<longleftrightarrow> confined root p \<and> length p < sz"
  by (auto simp: confined_def)

declare resolved_ok_simps(2) [simp del]

text \<open>The facts with which a handler is seen to keep its contract.\<close>

lemmas contract = inside balance holds_def sess_ok_def ev_inside_def resolved_ok_confined

end
