(* ===== verification/Ftp_Cmd_Basic.thy ===== *)
theory Ftp_Cmd_Basic
  imports Ftp_Contract
begin

text \<open>
  Model of the command handlers of \<^verbatim>\<open>src/src/ftp_commands.c\<close> that do not transfer
  data: login and control, navigation, transfer parameters, feature negotiation and
  file management.  A handler gets \<open>None\<close> for a NULL argument.
\<close>

section \<open>Login and control\<close>

definition cmd_USER :: "'w handler" where
  "cmd_USER os args st =
    (case args of
       None \<Rightarrow> Some (FTP_ERR_INVALID_PARAM, st)
     | Some _ \<Rightarrow>
         ftp_session_send_reply os R230_LOGGED_IN None
           (upd (\<lambda>s. s\<lparr>user_ok := True, authenticated := True, auth_attempts := 0,
                       sstate := FTP_STATE_AUTHENTICATED\<rparr>) st))"

definition cmd_PASS :: "'w handler" where
  "cmd_PASS os args st =
     ftp_session_send_reply os R230_LOGGED_IN None
       (upd (\<lambda>s. s\<lparr>authenticated := True, auth_attempts := 0, sstate := FTP_STATE_AUTHENTICATED\<rparr>) st)"

definition cmd_QUIT :: "'w handler" where
  "cmd_QUIT os args st = ftp_session_send_reply os R221_GOODBYE None st"

definition cmd_NOOP :: "'w handler" where
  "cmd_NOOP os args st = ftp_session_send_reply os R200_OK None st"

section \<open>Navigation\<close>

definition cmd_CWD :: "'w handler" where
  "cmd_CWD os args st =
    (case args of
       None \<Rightarrow> Some (FTP_ERR_INVALID_PARAM, st)
     | Some a \<Rightarrow> do {
         (r, st) \<leftarrow> ftp_path_resolve os a FTP_PATH_MAX st;
         case r of
           Inl _ \<Rightarrow> ftp_session_send_reply os R550_FILE_ERROR (Some ''Invalid path.'') st
         | Inr resolved \<Rightarrow> do {
             (is_dir, st) \<leftarrow> pal_path_is_directory os resolved st;
             if is_dir \<noteq> 1
             then ftp_session_send_reply os R550_FILE_ERROR (Some ''Not a directory.'') st
             else if length resolved \<ge> FTP_PATH_MAX
             then ftp_session_send_reply os R550_FILE_ERROR (Some ''Path too long.'') st
             else ftp_session_send_reply os R250_FILE_ACTION_OK (Some ''Directory changed.'')
                    (upd (\<lambda>s. s\<lparr>cwd := resolved\<rparr>) st) } })"

definition cmd_CDUP :: "'w handler" where
  "cmd_CDUP os args st = cmd_CWD os (Some ''..'') st"

definition cmd_PWD :: "'w handler" where
  "cmd_PWD os args st =
    (let reply = CHR 0x22 # cwd (sess st) @ CHR 0x22 # '' is current directory.''
     in if length reply \<ge> FTP_REPLY_BUFFER_SIZE then Some (FTP_ERR_INVALID_PARAM, st)
        else ftp_session_send_reply os R257_PATH_CREATED (Some reply) st)"

section \<open>Transfer parameters\<close>

text \<open>\<open>strtoll\<close>: the value, saturated to 64 bits, and the rest of the string.\<close>

definition LLONG_MAX :: int where [simp]: "LLONG_MAX = 9223372036854775807"
definition LLONG_MIN :: int where [simp]: "LLONG_MIN = -9223372036854775808"

definition strtoll :: "string \<Rightarrow> int \<times> string" where
  "strtoll s =
    (let t = dropWhile isspace s;
         neg = (take 1 t = ''-'');
         u = (if take 1 t = ''-'' \<or> take 1 t = ''+'' then drop 1 t else t);
         ds = takeWhile isdigit u;
         v = (if neg then - int (read_nat ds) else int (read_nat ds))
     in if ds = [] then (0, s)
        else (max LLONG_MIN (min LLONG_MAX v), drop (length ds) u))"

definition cmd_REST :: "'w handler" where
  "cmd_REST os args st =
    (case args of
       None \<Rightarrow> Some (FTP_ERR_INVALID_PARAM, st)
     | Some a \<Rightarrow>
         case strtoll a of (offset, endptr) \<Rightarrow>
           if endptr \<noteq> [] \<or> offset < 0
           then ftp_session_send_reply os R501_SYNTAX_ARGS (Some ''Invalid offset.'') st
           else ftp_session_send_reply os R350_PENDING (Some ''Restart position accepted.'')
                  (upd (\<lambda>s. s\<lparr>restart_offset := offset\<rparr>) st))"

text \<open>\<open>args[0]\<close> of a C string, the terminator when it is empty.\<close>

definition first_char :: "string \<Rightarrow> char" where
  "first_char a = (if a = [] then NUL else hd a)"

definition cmd_TYPE :: "'w handler" where
  "cmd_TYPE os args st =
    (case args of
       None \<Rightarrow> Some (FTP_ERR_INVALID_PARAM, st)
     | Some a \<Rightarrow>
         if first_char a = CHR ''A'' \<or> first_char a = CHR ''a'' then
           ftp_session_send_reply os R200_OK (Some ''Type set.'')
             (upd (\<lambda>s. s\<lparr>transfer_type := FTP_TYPE_ASCII\<rparr>) st)
         else if first_char a = CHR ''I'' \<or> first_char a = CHR ''i'' then
           ftp_session_send_reply os R200_OK (Some ''Type set.'')
             (upd (\<lambda>s. s\<lparr>transfer_type := FTP_TYPE_BINARY\<rparr>) st)
         else ftp_session_send_reply os R504_NOT_IMPL_PARAM (Some ''Type not supported.'') st)"

definition cmd_MODE :: "'w handler" where
  "cmd_MODE os args st =
    (case args of
       None \<Rightarrow> Some (FTP_ERR_INVALID_PARAM, st)
     | Some a \<Rightarrow>
         if first_char a = CHR ''S'' \<or> first_char a = CHR ''s'' then
           ftp_session_send_reply os R200_OK (Some ''Mode set to Stream.'')
             (upd (\<lambda>s. s\<lparr>transfer_mode := FTP_MODE_STREAM\<rparr>) st)
         else ftp_session_send_reply os R504_NOT_IMPL_PARAM (Some ''Only Stream mode supported.'') st)"

definition cmd_STRU :: "'w handler" where
  "cmd_STRU os args st =
    (case args of
       None \<Rightarrow> Some (FTP_ERR_INVALID_PARAM, st)
     | Some a \<Rightarrow>
         if first_char a = CHR ''F'' \<or> first_char a = CHR ''f'' then
           ftp_session_send_reply os R200_OK (Some ''Structure set to File.'')
             (upd (\<lambda>s. s\<lparr>file_structure := FTP_STRU_FILE\<rparr>) st)
         else ftp_session_send_reply os R504_NOT_IMPL_PARAM (Some ''Only File structure supported.'') st)"

section \<open>Negotiation and information\<close>

definition cmd_OPTS :: "'w handler" where
  "cmd_OPTS os args st =
    (case args of
       None \<Rightarrow> ftp_session_send_reply os R501_SYNTAX_ARGS (Some ''OPTS requires an argument.'') st
     | Some a \<Rightarrow>
         let upper = map toupper (take 63 a)
         in if take 4 upper = ''UTF8'' \<and> (length upper = 4 \<or> drop 4 upper = '' ON'') then
              ftp_session_send_reply os R200_OK (Some ''UTF8 mode enabled.'') st
            else if take 4 upper = ''MLST'' then
              ftp_session_send_reply os R200_OK (Some ''MLST OPTS set.'') st
            else ftp_session_send_reply os R501_SYNTAX_ARGS (Some ''Option not recognized.'') st)"

definition cmd_SITE :: "'w handler" where
  "cmd_SITE os args st =
    (if args = None \<or> args = Some []
     then ftp_session_send_reply os R501_SYNTAX_ARGS (Some ''SITE requires a command.'') st
     else if map toupper (take 5 (the args)) = ''CHMOD''
     then ftp_session_send_reply os R200_OK (Some ''CHMOD command successful.'') st
     else ftp_session_send_reply os R502_NOT_IMPLEMENTED (Some ''SITE command not supported.'') st)"

definition cmd_CLNT :: "'w handler" where
  "cmd_CLNT os args st = ftp_session_send_reply os R200_OK (Some ''Noted.'') st"

definition cmd_STAT :: "'w handler" where
  "cmd_STAT os args st = ftp_session_send_reply os R211_SYSTEM_STATUS (Some ''Server status OK.'') st"

definition cmd_SYST :: "'w handler" where
  "cmd_SYST os args st = ftp_session_send_reply os R215_SYSTEM_TYPE None st"

definition features :: "string list" where
  "features =
    [''Extensions supported:'', '' SIZE'', '' MDTM'', '' REST STREAM'', '' APPE'', '' EPSV'',
     '' UTF8'', '' MLSD'', '' MLST type*;size*;modify*;unix.mode*;'', '' XCRYPT'', '' CPFR'',
     '' CPTO'', '' COPY'', ''End'']"

definition cmd_FEAT :: "'w handler" where
  "cmd_FEAT os args st = ftp_session_send_multiline_reply os R211_SYSTEM_STATUS features st"

definition help_lines :: "string list" where
  "help_lines =
    [''Supported commands:'', '' USER PASS QUIT NOOP CWD CDUP PWD'', '' LIST NLST MLSD MLST'',
     '' RETR STOR APPE REST'', '' DELE RMD MKD RNFR RNTO'', '' PORT PASV SIZE MDTM STAT'',
     '' SYST FEAT HELP TYPE MODE STRU'', ''End'']"

definition cmd_HELP :: "'w handler" where
  "cmd_HELP os args st = ftp_session_send_multiline_reply os R214_HELP help_lines st"

section \<open>The handlers keep the contract\<close>

interpretation USER: ftp_handler cmd_USER
  by unfold_locales (unfold cmd_USER_def, intro wp; simp add: contract)

interpretation PASS: ftp_handler cmd_PASS
  by unfold_locales (unfold cmd_PASS_def, intro wp; simp add: contract)

interpretation QUIT: ftp_handler cmd_QUIT
  by unfold_locales (unfold cmd_QUIT_def, intro wp; simp add: contract)

interpretation NOOP: ftp_handler cmd_NOOP
  by unfold_locales (unfold cmd_NOOP_def, intro wp; simp add: contract)

interpretation CWD: ftp_handler cmd_CWD
  by unfold_locales (unfold cmd_CWD_def, intro wp; simp add: contract)

interpretation CDUP: ftp_handler cmd_CDUP
  by unfold_locales (unfold cmd_CDUP_def, rule CWD.handler_keeps)

interpretation PWD: ftp_handler cmd_PWD
  by unfold_locales (unfold cmd_PWD_def, intro wp; simp add: contract)

interpretation REST: ftp_handler cmd_REST
  by unfold_locales (unfold cmd_REST_def, intro wp; simp add: contract)

interpretation TYPE: ftp_handler cmd_TYPE
  by unfold_locales (unfold cmd_TYPE_def, intro wp; simp add: contract)

interpretation MODE: ftp_handler cmd_MODE
  by unfold_locales (unfold cmd_MODE_def, intro wp; simp add: contract)

interpretation STRU: ftp_handler cmd_STRU
  by unfold_locales (unfold cmd_STRU_def, intro wp; simp add: contract)

interpretation OPTS: ftp_handler cmd_OPTS
  by unfold_locales (unfold cmd_OPTS_def, intro wp; simp add: contract)

interpretation SITE: ftp_handler cmd_SITE
  by unfold_locales (unfold cmd_SITE_def, intro wp; simp add: contract)

interpretation CLNT: ftp_handler cmd_CLNT
  by unfold_locales (unfold cmd_CLNT_def, intro wp; simp add: contract)

interpretation STAT: ftp_handler cmd_STAT
  by unfold_locales (unfold cmd_STAT_def, intro wp; simp add: contract)

interpretation SYST: ftp_handler cmd_SYST
  by unfold_locales (unfold cmd_SYST_def, intro wp; simp add: contract)

interpretation FEAT: ftp_handler cmd_FEAT
  by unfold_locales (unfold cmd_FEAT_def, intro wp; simp add: contract)

interpretation HELP: ftp_handler cmd_HELP
  by unfold_locales (unfold cmd_HELP_def, intro wp; simp add: contract)

end
