(* ===== verification/Ftp_Cmd_Data.thy ===== *)
theory Ftp_Cmd_Data
  imports Ftp_Cmd_Basic
begin

text \<open>
  Model of the handlers that prepare the data connection: \<^verbatim>\<open>PORT\<close>, \<^verbatim>\<open>PASV\<close> and
  \<^verbatim>\<open>EPSV\<close> of \<^verbatim>\<open>src/src/ftp_commands.c\<close>.
\<close>

section \<open>Definitions\<close>

text \<open>
  The conversion \<open>%u\<close> of \<open>sscanf\<close>: white space, a sign, digits; the value is computed in
  64 bits, saturating, and stored in 32.  Returns the value and the rest of the input.
\<close>

definition ULONG_MAX :: int where "ULONG_MAX = 18446744073709551615"

definition scanf_u :: "string \<Rightarrow> (32 word \<times> string) option" where
  "scanf_u s =
    (let t = dropWhile isspace s;
         neg = (take 1 t = ''-'');
         u = (if take 1 t = ''-'' \<or> take 1 t = ''+'' then drop 1 t else t);
         ds = takeWhile isdigit u;
         v = read_nat ds
     in if ds = [] then None
        else Some (if int v > ULONG_MAX then of_int ULONG_MAX
                   else if neg then - of_nat v else of_nat v,
                   drop (length ds) u))"

text \<open>The format \<open>%u,%u,...\<close> with \<open>n + 1\<close> fields, all of which must be read.\<close>

fun scanf_fields :: "nat \<Rightarrow> string \<Rightarrow> 32 word list option" where
  "scanf_fields 0 s = (case scanf_u s of None \<Rightarrow> None | Some (v, _) \<Rightarrow> Some [v])"
| "scanf_fields (Suc n) s =
    (case scanf_u s of
       None \<Rightarrow> None
     | Some (v, rest) \<Rightarrow>
         if take 1 rest = '',''
         then (case scanf_fields n (drop 1 rest) of None \<Rightarrow> None | Some vs \<Rightarrow> Some (v # vs))
         else None)"

definition port_ip_text :: "32 word list \<Rightarrow> string" where
  "port_ip_text vs =
     show_nat (unat (vs ! 0)) @ ''.'' @ show_nat (unat (vs ! 1)) @ ''.'' @
     show_nat (unat (vs ! 2)) @ ''.'' @ show_nat (unat (vs ! 3))"

definition port_number :: "32 word list \<Rightarrow> 16 word" where
  "port_number vs = ucast (push_bit 8 (vs ! 4) OR vs ! 5)"

definition cmd_PORT :: "'w handler" where
  "cmd_PORT os args st =
    (case args of
       None \<Rightarrow> Some (FTP_ERR_INVALID_PARAM, st)
     | Some a \<Rightarrow>
         case scanf_fields 5 a of
           None \<Rightarrow> ftp_session_send_reply os R501_SYNTAX_ARGS (Some ''Invalid PORT format.'') st
         | Some vs \<Rightarrow>
             if list_ex (\<lambda>v. v > 255) vs
             then ftp_session_send_reply os R501_SYNTAX_ARGS (Some ''Invalid PORT values.'') st
             else let ip = port_ip_text vs;
                      port = port_number vs;
                      (err, addr) = pal_make_sockaddr ip port (data_addr (sess st));
                      st = upd (\<lambda>s. s\<lparr>data_addr := addr\<rparr>) st
                  in if err \<noteq> FTP_OK
                     then ftp_session_send_reply os R501_SYNTAX_ARGS (Some ''Invalid address.'') st
                     else if ip \<noteq> client_ip (sess st)
                     then ftp_session_send_reply os R501_SYNTAX_ARGS (Some ''PORT address mismatch.'') st
                     else ftp_session_send_reply os R200_OK (Some ''PORT command successful.'')
                            (upd (\<lambda>s. s\<lparr>data_mode := FTP_DATA_MODE_ACTIVE\<rparr>) st))"

text \<open>The local address of the control connection, or the primary address.\<close>

definition local_ip :: "'w os \<Rightarrow> 'w st \<Rightarrow> (32 word \<times> 'w st) ret" where
  "local_ip os st = do {
     (g, st) \<leftarrow> syscall os (Sys_getsockname (ctrl_fd (sess st))) st;
     let ip = (if r_ret g = 0 then sin_addr (r_addr g) else 0);
     if ip \<noteq> 0 then Some (ip, st)
     else do {
       (p, st) \<leftarrow> pal_network_get_primary_ip os INET_ADDRSTRLEN st;
       Some (case p of
               Inl _ \<Rightarrow> 0
             | Inr ip_str \<Rightarrow> (case inet_pton ip_str of None \<Rightarrow> 0 | Some ia \<Rightarrow> ia), st) } }"

text \<open>
  Creating the passive listener, the part \<^verbatim>\<open>PASV\<close> and \<^verbatim>\<open>EPSV\<close> have in common.
  Returns the text of the error reply, or the address bound and the one assigned.
\<close>

definition open_listener ::
  "'w os \<Rightarrow> 'w st \<Rightarrow> ((string + 32 word \<times> sockaddr_in) \<times> 'w st) ret" where
  "open_listener os st = do {
     (_, st) \<leftarrow>
       (if pasv_fd (sess st) \<ge> 0 then do {
          (_, st) \<leftarrow> pal_close os (pasv_fd (sess st)) st;
          Some ((), upd (\<lambda>s. s\<lparr>pasv_fd := -1\<rparr>) st) }
        else Some ((), st));
     (r, st) \<leftarrow> syscall os Sys_socket st;
     let fd = r_ret r;
     if fd < 0 then Some (Inl ''Cannot create socket.'', st)
     else do {
       (_, st) \<leftarrow> pal_socket_set_reuseaddr os fd st;
       (_, st) \<leftarrow> setsockopt os fd SO_RCVBUF FTP_TCP_RCVBUF st;
       (ip, st) \<leftarrow> local_ip os st;
       (b, st) \<leftarrow> syscall os (Sys_bind fd \<lparr>sin_addr = ip, sin_port = 0\<rparr>) st;
       if r_ret b < 0 then do {
         (_, st) \<leftarrow> pal_close os fd st; Some (Inl ''Bind failed.'', st) }
       else do {
         (l, st) \<leftarrow> syscall os (Sys_listen fd 1) st;
         if r_ret l < 0 then do {
           (_, st) \<leftarrow> pal_close os fd st; Some (Inl ''Listen failed.'', st) }
         else do {
           (g, st) \<leftarrow> syscall os (Sys_getsockname fd) st;
           if r_ret g < 0 then do {
             (_, st) \<leftarrow> pal_close os fd st; Some (Inl ''Cannot get socket name.'', st) }
           else Some (Inr (ip, r_addr g),
                  upd (\<lambda>s. s\<lparr>pasv_fd := fd, data_mode := FTP_DATA_MODE_PASSIVE\<rparr>) st) } } } }"

definition pasv_text :: "32 word \<Rightarrow> 16 word \<Rightarrow> string" where
  "pasv_text ip port =
    ''Entering Passive Mode ('' @ show_nat (octet ip 3) @ '','' @ show_nat (octet ip 2) @ '','' @
    show_nat (octet ip 1) @ '','' @ show_nat (octet ip 0) @ '','' @
    show_nat (unat (drop_bit 8 port AND 0xFF)) @ '','' @ show_nat (unat (port AND 0xFF)) @ '').''"

definition cmd_PASV :: "'w handler" where
  "cmd_PASV os args st = do {
     (r, st) \<leftarrow> open_listener os st;
     case r of
       Inl msg \<Rightarrow> ftp_session_send_reply os R425_CANT_OPEN_DATA (Some msg) st
     | Inr (ip, addr) \<Rightarrow>
         ftp_session_send_reply os R227_PASV_MODE
           (Some (pasv_text (if ip = 0 then sin_addr addr else ip) (PAL_NTOHS (sin_port addr)))) st }"

definition cmd_EPSV :: "'w handler" where
  "cmd_EPSV os args st = do {
     (r, st) \<leftarrow> open_listener os st;
     case r of
       Inl msg \<Rightarrow> ftp_session_send_reply os R425_CANT_OPEN_DATA (Some msg) st
     | Inr (ip, addr) \<Rightarrow>
         ftp_session_send_reply os R229_EPSV_MODE
           (Some (''Entering Extended Passive Mode (|||'' @ show_nat (unat (PAL_NTOHS (sin_port addr))) @ ''|).'')) st }"

section \<open>The handlers keep the contract\<close>

interpretation PORT: ftp_handler cmd_PORT
  by unfold_locales (unfold cmd_PORT_def, intro wp; simp add: contract)

lemma post_local_ip [wp]:
  assumes "\<And>r w e t. neutral t \<Longrightarrow> Q r (adv w e t st)"
  shows "post (local_ip os st) Q"
  unfolding local_ip_def by (intro wp) (simp_all add: assms neutral_Cons neutral_append)

interpretation PASV: ftp_handler cmd_PASV
  by unfold_locales (unfold cmd_PASV_def open_listener_def, intro wp; simp add: contract)

interpretation EPSV: ftp_handler cmd_EPSV
  by unfold_locales (unfold cmd_EPSV_def open_listener_def, intro wp; simp add: contract)

section \<open>The PORT command\<close>

lemma scanf_fields_length: "scanf_fields n s = Some vs \<Longrightarrow> length vs = Suc n"
  by (induction n arbitrary: s vs) (auto split: option.splits prod.splits if_splits)

lemma digit_start:
  assumes "isdigit c"
  shows "\<not> isspace c" "c \<noteq> CHR ''-''" "c \<noteq> CHR ''+''"
  using assms by (auto simp: isdigit_def isspace_def char_code_def)

lemma scanf_u_show:
  assumes "int n \<le> ULONG_MAX" "rest = [] \<or> \<not> isdigit (hd rest)"
  shows "scanf_u (show_nat n @ rest) = Some (of_nat n, rest)"
proof -
  obtain c cs where c: "show_nat n = c # cs" by (cases "show_nat n") auto
  have d: "isdigit c" "list_all isdigit (show_nat n)" using show_nat_digits [of n] c by auto
  have "dropWhile isspace (show_nat n @ rest) = show_nat n @ rest"
    "take 1 (show_nat n @ rest) \<noteq> ''-''" "take 1 (show_nat n @ rest) \<noteq> ''+''"
    using digit_start [OF d(1)] by (auto simp: c)
  moreover have "takeWhile isdigit (show_nat n @ rest) = show_nat n"
    using d(2) assms(2) by (cases rest) (auto simp: list_all_iff takeWhile_append)
  ultimately show ?thesis using assms(1) by (simp add: scanf_u_def Let_def)
qed

text \<open>The text of a \<open>PORT\<close> command.\<close>

fun port_text :: "nat list \<Rightarrow> string" where
  "port_text [] = []"
| "port_text [n] = show_nat n"
| "port_text (n # ns) = show_nat n @ CHR '','' # port_text ns"

lemma not_digit_comma: "\<not> isdigit CHR '',''"
  by (simp add: isdigit_def char_code_def)

lemma scanf_fields_text:
  "length ns = Suc k \<Longrightarrow> list_all (\<lambda>n. n < 256) ns \<Longrightarrow> scanf_fields k (port_text ns) = Some (map of_nat ns)"
proof (induction k arbitrary: ns)
  case 0
  then obtain n where "ns = [n]" by (auto simp: length_Suc_conv)
  then show ?case using 0 scanf_u_show [of n "[]"] by (simp add: ULONG_MAX_def)
next
  case (Suc k)
  then obtain n m ms where ns: "ns = n # m # ms" by (auto simp: length_Suc_conv)
  then show ?case
    using Suc scanf_u_show [of n "CHR '','' # port_text (m # ms)"]
    by (simp add: ULONG_MAX_def not_digit_comma)
qed

text \<open>What \<open>PORT\<close> does to the session, by the cases of its checks.\<close>

lemma port_replies:
  "ftp_format_reply R501_SYNTAX_ARGS (Some ''Invalid PORT format.'') FTP_REPLY_BUFFER_SIZE = Inr (''501 Invalid PORT format.'' @ CRLF)"
  "ftp_format_reply R501_SYNTAX_ARGS (Some ''Invalid PORT values.'') FTP_REPLY_BUFFER_SIZE = Inr (''501 Invalid PORT values.'' @ CRLF)"
  "ftp_format_reply R501_SYNTAX_ARGS (Some ''Invalid address.'') FTP_REPLY_BUFFER_SIZE = Inr (''501 Invalid address.'' @ CRLF)"
  "ftp_format_reply R501_SYNTAX_ARGS (Some ''PORT address mismatch.'') FTP_REPLY_BUFFER_SIZE = Inr (''501 PORT address mismatch.'' @ CRLF)"
  "ftp_format_reply R200_OK (Some ''PORT command successful.'') FTP_REPLY_BUFFER_SIZE = Inr (''200 PORT command successful.'' @ CRLF)"
  by code_simp+

text \<open>The client has been sent \<open>m\<close>, or a part of it if sending failed.\<close>

definition answered :: "int \<Rightarrow> string \<Rightarrow> ftp_error \<Rightarrow> event list \<Rightarrow> bool" where
  "answered fd m r t \<longleftrightarrow> prefix (sent_to fd t) (bytes_of m) \<and> (r = FTP_OK \<longrightarrow> sent_to fd t = bytes_of m)"

lemma post_answer:
  assumes "ftp_format_reply code message FTP_REPLY_BUFFER_SIZE = Inr m" "os_sat os posix"
    and "\<And>r w e t. answered (ctrl_fd (sess st)) m r t \<Longrightarrow> Q r (adv w e t st)"
  shows "post (ftp_session_send_reply os code message st) Q"
  by (rule post_send_reply_text [OF assms(2)]) (use assms(1,3) in \<open>simp add: answered_def\<close>)

lemmas post_port_answer = port_replies [THEN post_answer]

lemma answered_code: "length (bytes_of c) = 4 \<Longrightarrow> answered fd (c @ m) FTP_OK t \<Longrightarrow> take 4 (sent_to fd t) = bytes_of c"
  by (simp add: answered_def)

lemma port_effect:
  assumes "os_sat os posix" "scanf_fields 5 a = Some vs" "\<not> list_ex (\<lambda>v. v > 255) vs" "port_number vs \<noteq> 0"
  shows "post (cmd_PORT os (Some a) st) (\<lambda>r st'. \<exists>addr t. trace st' = trace st @ t \<and>
     sess st' = (if port_ip_text vs = client_ip (sess st)
       then (sess st)\<lparr>data_addr := addr, data_mode := FTP_DATA_MODE_ACTIVE\<rparr>
       else (sess st)\<lparr>data_addr := addr\<rparr>) \<and>
     answered (ctrl_fd (sess st))
       ((if port_ip_text vs = client_ip (sess st) then ''200 PORT command successful.'' else ''501 PORT address mismatch.'') @ CRLF) r t \<and>
     inet_ntop (sin_addr addr) = port_ip_text vs \<and> pal_sockaddr_get_port addr = port_number vs)"
proof -
  have len: "length vs = 6" using scanf_fields_length [OF assms(2)] by simp
  have small: "unat (vs ! i) < 256" if "i < 6" for i
  proof -
    have "vs ! i \<in> set vs" using len that by simp
    then have "vs ! i \<le> 255" using assms(3) by (auto simp: list_ex_iff not_less)
    then show ?thesis by (simp add: word_le_nat_alt)
  qed
  let ?q = "quad (unat (vs ! 0)) (unat (vs ! 1)) (unat (vs ! 2)) (unat (vs ! 3))"
  have p: "inet_pton (port_ip_text vs) = Some ?q"
    unfolding port_ip_text_def by (rule inet_pton_dotted) (simp_all add: small)
  then have n: "inet_ntop ?q = port_ip_text vs" by (rule inet_ntop_pton)
  have m: "pal_make_sockaddr (port_ip_text vs) (port_number vs) x = (FTP_OK, \<lparr>sin_addr = ?q, sin_port = PAL_HTONS (port_number vs)\<rparr>)" for x
    using p assms(4) by (simp add: pal_make_sockaddr_def)
  show ?thesis
    unfolding cmd_PORT_def option.case assms(2)
    using assms(3)
    by (intro post_port_answer wp) (auto simp: m assms(1) pal_sockaddr_get_port_def n [simplified])
qed

lemma answered_501:
  "answered fd (''501 Invalid PORT format.'' @ CRLF) r t \<Longrightarrow> \<exists>m. answered fd (''501 '' @ m) r t"
  "answered fd (''501 Invalid PORT values.'' @ CRLF) r t \<Longrightarrow> \<exists>m. answered fd (''501 '' @ m) r t"
  "answered fd (''501 Invalid address.'' @ CRLF) r t \<Longrightarrow> \<exists>m. answered fd (''501 '' @ m) r t"
  "answered fd (''501 PORT address mismatch.'' @ CRLF) r t \<Longrightarrow> \<exists>m. answered fd (''501 '' @ m) r t"
  by auto

lemma port_refused:
  assumes "os_sat os posix"
    "\<nexists>vs. scanf_fields 5 a = Some vs \<and> \<not> list_ex (\<lambda>v. v > 255) vs \<and> port_number vs \<noteq> 0"
  shows "post (cmd_PORT os (Some a) st) (\<lambda>r st'. sess st' = sess st \<and>
    (\<exists>t m. trace st' = trace st @ t \<and> answered (ctrl_fd (sess st)) (''501 '' @ m) r t))"
proof -
  have m: "pal_make_sockaddr ip 0 x = (FTP_ERR_INVALID_PARAM, x)" for ip x
    by (simp add: pal_make_sockaddr_def)
  have [simp]: "s\<lparr>data_addr := data_addr s\<rparr> = s" for s :: ftp_session by simp
  show ?thesis
    unfolding cmd_PORT_def using assms(2)
    by (intro post_port_answer wp) (auto simp: m assms(1) intro: answered_501)
qed

text \<open>In active mode a data connection goes to the stored address.\<close>

lemma open_active_connects:
  assumes "data_mode (sess st) = FTP_DATA_MODE_ACTIVE"
  shows "post (ftp_session_open_data_connection os st) (\<lambda>r st'. r = FTP_OK \<longrightarrow>
    (\<exists>t q. trace st' = trace st @ t \<and> (Sys_connect (data_fd (sess st')) (data_addr (sess st)), q) \<in> set t \<and> 0 \<le> r_ret q))"
  unfolding ftp_session_open_data_connection_def open_data_active_def
  by (intro wp) (use assms in \<open>auto simp: not_less\<close>)

section \<open>Properties\<close>

text \<open>
  C26: a session that is not in active mode enters it by \<open>PORT\<close> only for an address that prints as the
  address of the client, with a port other than 0, and the reply is 200; every other \<open>PORT\<close> command leaves
  the mode as it was, and the reply is 501.  So one \<open>PORT\<close> command cannot direct the next
  transfer at a third party.  This is the build without \<^verbatim>\<open>FTP_PORT_ALLOW_FOREIGN_IP\<close>.
\<close>

theorem port_only_to_client:
  assumes "os_sat os posix" "data_mode (sess st) \<noteq> FTP_DATA_MODE_ACTIVE"
    and "cmd_PORT os (Some a) st = Some (r, st')" "trace st' = trace st @ t"
  shows "if data_mode (sess st') = FTP_DATA_MODE_ACTIVE
    then inet_ntop (sin_addr (data_addr (sess st'))) = client_ip (sess st') \<and>
      pal_sockaddr_get_port (data_addr (sess st')) \<noteq> 0 \<and>
      (r = FTP_OK \<longrightarrow> take 4 (sent_to (ctrl_fd (sess st)) t) = bytes_of ''200 '')
    else data_mode (sess st') = data_mode (sess st) \<and>
      (r = FTP_OK \<longrightarrow> take 4 (sent_to (ctrl_fd (sess st)) t) = bytes_of ''501 '')"
proof (cases "\<exists>vs. scanf_fields 5 a = Some vs \<and> \<not> list_ex (\<lambda>v. v > 255) vs \<and> port_number vs \<noteq> 0")
  case True
  then obtain vs where vs: "scanf_fields 5 a = Some vs" "\<not> list_ex (\<lambda>v. v > 255) vs" "port_number vs \<noteq> 0"
    by blast
  have code: "answered fd (''200 PORT command successful.'' @ CRLF) FTP_OK u \<Longrightarrow> take 4 (sent_to fd u) = bytes_of ''200 ''"
    "answered fd (''501 PORT address mismatch.'' @ CRLF) FTP_OK u \<Longrightarrow> take 4 (sent_to fd u) = bytes_of ''501 ''" for fd u
    using answered_code [of "''200 ''" fd "''PORT command successful.'' @ CRLF" u]
      answered_code [of "''501 ''" fd "''PORT address mismatch.'' @ CRLF" u] by simp_all
  from postD [OF port_effect [OF assms(1) vs] assms(3)] assms(2,4) vs(3)
  show ?thesis by (auto dest: code split: if_splits simp del: append_Cons)
next
  case False
  have code: "answered fd (''501 '' @ m) FTP_OK u \<Longrightarrow> take 4 (sent_to fd u) = bytes_of ''501 ''" for fd m u
    by (rule answered_code) simp_all
  from postD [OF port_refused [OF assms(1) False] assms(3)] assms(2,4)
  show ?thesis by (auto dest: code simp del: append_Cons)
qed

text \<open>
  C27: a refused \<open>PORT\<close> command still takes effect.  In a session that is already in active mode, a \<open>PORT\<close>
  command for a foreign address is refused with 501, and yet the session stays in active mode
  with that address, and a data connection opened next is connected to it.
\<close>

theorem port_mismatch_redirects:
  assumes "os_sat os posix" "data_mode (sess st) = FTP_DATA_MODE_ACTIVE"
    and "scanf_fields 5 a = Some vs" "\<not> list_ex (\<lambda>v. v > 255) vs" "port_number vs \<noteq> 0"
    and "port_ip_text vs \<noteq> client_ip (sess st)"
    and "cmd_PORT os (Some a) st = Some (FTP_OK, st1)" "trace st1 = trace st @ t1"
    and "ftp_session_open_data_connection os st1 = Some (FTP_OK, st2)" "trace st2 = trace st1 @ t2"
  shows "sent_to (ctrl_fd (sess st)) t1 = bytes_of (''501 PORT address mismatch.'' @ CRLF) \<and>
    (\<exists>addr q. (Sys_connect (data_fd (sess st2)) addr, q) \<in> set t2 \<and> 0 \<le> r_ret q \<and>
       inet_ntop (sin_addr addr) = port_ip_text vs \<and> pal_sockaddr_get_port addr = port_number vs)"
proof -
  obtain addr where s: "sess st1 = (sess st)\<lparr>data_addr := addr\<rparr>" "inet_ntop (sin_addr addr) = port_ip_text vs"
      "pal_sockaddr_get_port addr = port_number vs"
      "sent_to (ctrl_fd (sess st)) t1 = bytes_of (''501 PORT address mismatch.'' @ CRLF)"
    using postD [OF port_effect [OF assms(1,3,4,5)] assms(7)] assms(6,8) by (auto simp: answered_def)
  then have "data_mode (sess st1) = FTP_DATA_MODE_ACTIVE" using assms(2) by simp
  from postD [OF open_active_connects [OF this] assms(9)] assms(10) s show ?thesis by auto
qed

section \<open>Witnesses\<close>

definition port_session :: ftp_session where
  "port_session = zero_session\<lparr>ctrl_fd := 4, client_ip := ''10.0.0.1''\<rparr>"

definition port_st :: "ftp_data_mode \<Rightarrow> sysres list st" where
  "port_st m = start_st
    [io_res 28, io_res 8, io_res 0, io_res 0, io_res 0, io_res 0, io_res 0, io_res 0, io_res 0, io_res 0, io_res 0, io_res 0, io_res 0, io_res 0]
    (port_session\<lparr>data_mode := m\<rparr>)"

lemma port_returns:
  assumes "retry_bound os \<mu>" "os_sat os posix"
  shows "\<exists>r st'. cmd_PORT os args st = Some (r, st')"
  by (simp add: cmd_PORT_def Let_def send_reply_returns [OF assms(2,1)] split: option.split prod.split)

lemma port_own: "''10,0,0,1,4,1'' = port_text [10, 0, 0, 1, 4, 1]"
  by code_simp

lemma port_foreign: "''10,0,0,9,0,80'' = port_text [10, 0, 0, 9, 0, 80]"
  by code_simp

lemma port_numbers:
  "port_number [10, 0, 0, 1, 4, 1] = 1025" "port_number [10, 0, 0, 9, 0, 80] = 80"
  "port_ip_text [10, 0, 0, 1, 4, 1] = ''10.0.0.1''" "port_ip_text [10, 0, 0, 9, 0, 80] = ''10.0.0.9''"
  by code_simp+

theorem port_only_to_client_witness:
  "\<exists>r st'. cmd_PORT script_os (Some ''10,0,0,1,4,1'') (port_st FTP_DATA_MODE_NONE) = Some (r, st') \<and>
     data_mode (sess st') = FTP_DATA_MODE_ACTIVE \<and>
     inet_ntop (sin_addr (data_addr (sess st'))) = client_ip (sess st') \<and>
     pal_sockaddr_get_port (data_addr (sess st')) \<noteq> 0"
proof -
  obtain r st' where run: "cmd_PORT script_os (Some ''10,0,0,1,4,1'') (port_st FTP_DATA_MODE_NONE) = Some (r, st')"
    using port_returns [OF script_retry_bound script_os_posix] by blast
  have scan: "scanf_fields 5 ''10,0,0,1,4,1'' = Some [10, 0, 0, 1, 4, 1]"
    unfolding port_own by (subst scanf_fields_text) simp_all
  have active: "data_mode (sess st') = FTP_DATA_MODE_ACTIVE"
    using postD [OF port_effect [OF script_os_posix scan] run]
    by (auto simp: port_numbers port_st_def port_session_def)
  have "data_mode (sess (port_st FTP_DATA_MODE_NONE)) \<noteq> FTP_DATA_MODE_ACTIVE" "trace st' = trace (port_st FTP_DATA_MODE_NONE) @ trace st'"
    by (simp_all add: port_st_def start_st_def)
  from port_only_to_client [OF script_os_posix this(1) run this(2)] run active show ?thesis by auto
qed

lemma foreign_run:
  "\<exists>st1 st2. cmd_PORT script_os (Some ''10,0,0,9,0,80'') (port_st FTP_DATA_MODE_ACTIVE) = Some (FTP_OK, st1) \<and>
     ftp_session_open_data_connection script_os st1 = Some (FTP_OK, st2) \<and> (\<exists>t. trace st2 = trace st1 @ t)"
proof -
  have scan: "scanf_fields 5 ''10,0,0,9,0,80'' = Some [10, 0, 0, 9, 0, 80]"
    unfolding port_foreign by (subst scanf_fields_text) simp_all
  have p: "inet_pton ''10.0.0.9'' = Some 0x0A000009"
  proof -
    have "inet_ntop 0x0A000009 = ''10.0.0.9''" by code_simp
    then show ?thesis using inet_pton_ntop by metis
  qed
  let ?a = "\<lparr>sin_addr = 0x0A000009, sin_port = PAL_HTONS 80\<rparr>"
  let ?st = "upd (\<lambda>s. s\<lparr>data_addr := ?a\<rparr>) (port_st FTP_DATA_MODE_ACTIVE)"
  let ?w = "[io_res 8, io_res 0, io_res 0, io_res 0, io_res 0, io_res 0, io_res 0, io_res 0, io_res 0, io_res 0, io_res 0, io_res 0, io_res 0]"
  have port: "cmd_PORT script_os (Some ''10,0,0,9,0,80'') (port_st FTP_DATA_MODE_ACTIVE) =
      ftp_session_send_reply script_os R501_SYNTAX_ARGS (Some ''PORT address mismatch.'') ?st"
    by (simp add: cmd_PORT_def scan port_numbers pal_make_sockaddr_def p port_st_def port_session_def)
  obtain e t where reply: "ftp_session_send_reply script_os R501_SYNTAX_ARGS (Some ''PORT address mismatch.'') ?st = Some (FTP_OK, adv ?w e t ?st)"
    by (simp add: ftp_session_send_reply_def port_replies [simplified] pal_send_all_def send_all_loop.simps syscall_def posix_def
      port_st_def port_session_def start_st_def adv_def upd_def)
  have "\<exists>st2. ftp_session_open_data_connection script_os (adv ?w e t ?st) = Some (FTP_OK, st2) \<and>
      (\<exists>u. trace st2 = trace (adv ?w e t ?st) @ u)"
    by (simp add: ftp_session_open_data_connection_def open_data_active_def syscall_def setsockopt_def posix_def
      pal_socket_configure_data_def pal_socket_set_timeouts_def port_st_def port_session_def zero_session_def)
  then show ?thesis unfolding port reply by blast
qed

theorem port_mismatch_redirects_witness:
  "\<exists>st1 st2 addr fd q t. cmd_PORT script_os (Some ''10,0,0,9,0,80'') (port_st FTP_DATA_MODE_ACTIVE) = Some (FTP_OK, st1) \<and>
     sent_to 4 (trace st1) = bytes_of (''501 PORT address mismatch.'' @ CRLF) \<and>
     ftp_session_open_data_connection script_os st1 = Some (FTP_OK, st2) \<and> trace st2 = trace st1 @ t \<and>
     (Sys_connect fd addr, q) \<in> set t \<and> inet_ntop (sin_addr addr) = ''10.0.0.9'' \<and> pal_sockaddr_get_port addr = 80"
proof -
  obtain st1 st2 t where run: "cmd_PORT script_os (Some ''10,0,0,9,0,80'') (port_st FTP_DATA_MODE_ACTIVE) = Some (FTP_OK, st1)"
      "ftp_session_open_data_connection script_os st1 = Some (FTP_OK, st2)" "trace st2 = trace st1 @ t"
    using foreign_run by blast
  have scan: "scanf_fields 5 ''10,0,0,9,0,80'' = Some [10, 0, 0, 9, 0, 80]"
    unfolding port_foreign by (subst scanf_fields_text) simp_all
  have t1: "trace st1 = trace (port_st FTP_DATA_MODE_ACTIVE) @ trace st1" by (simp add: port_st_def start_st_def)
  have c: "ctrl_fd (sess (port_st FTP_DATA_MODE_ACTIVE)) = 4" by (simp add: port_st_def port_session_def)
  show ?thesis
    using port_mismatch_redirects [OF script_os_posix _ scan _ _ _ run(1) t1 run(2,3)] run c
    by (simp add: port_numbers port_st_def port_session_def) blast
qed

end
