(* ===== verification/Zf_Calendar.thy ===== *)
theory Zf_Calendar
  imports Zf_Prelude
begin

text \<open>
  \<^verbatim>\<open>gmtime_r\<close> and the printing of dates, as the listing commands use them.  The
  calendar is proleptic Gregorian; \<open>timegm\<close> is the reference inverse.
\<close>

section \<open>Definitions\<close>

definition leap :: "int \<Rightarrow> bool" where
  "leap y \<longleftrightarrow> y mod 4 = 0 \<and> (y mod 100 \<noteq> 0 \<or> y mod 400 = 0)"

definition year_days :: "int \<Rightarrow> int" where
  "year_days y = (if leap y then 366 else 365)"

lemma year_days_bounds: "365 \<le> year_days y" "year_days y \<le> 366"
  by (simp_all add: year_days_def)

text \<open>The year that contains day \<open>d\<close>, counted from the start of year \<open>y\<close>, and the day in it.\<close>

function find_year :: "int \<Rightarrow> int \<Rightarrow> int \<times> int" where
  "find_year y d =
    (if d < 0 then find_year (y - 1) (d + year_days (y - 1))
     else if d \<ge> year_days y then find_year (y + 1) (d - year_days y)
     else (y, d))"
  by pat_completeness auto
termination
  by (relation "measure (\<lambda>(y, d). if d < 0 then nat (1000 - d) else nat d)")
     (auto simp: year_days_def split: if_splits)

declare find_year.simps [simp del]

definition month_days :: "int \<Rightarrow> int list" where
  "month_days y = [31, if leap y then 29 else 28, 31, 30, 31, 30, 31, 31, 30, 31, 30, 31]"

fun find_month :: "int list \<Rightarrow> nat \<Rightarrow> int \<Rightarrow> nat \<times> int" where
  "find_month [] m d = (m, d)"
| "find_month (l # ls) m d = (if d < l then (m, d) else find_month ls (m + 1) (d - l))"

text \<open>Broken-down time; \<open>tm_year\<close> is the year itself, the month counts from 0.\<close>

record tm =
  tm_year :: int
  tm_mon :: nat
  tm_mday :: nat
  tm_hour :: nat
  tm_min :: nat
  tm_sec :: nat

definition gmtime :: "int \<Rightarrow> tm" where
  "gmtime t =
    (let (y, yd) = find_year 1970 (t div 86400);
         (m, md) = find_month (month_days y) 0 yd;
         s = nat (t mod 86400)
     in \<lparr>tm_year = y, tm_mon = m, tm_mday = nat md + 1,
         tm_hour = s div 3600, tm_min = s div 60 mod 60, tm_sec = s mod 60\<rparr>)"

text \<open>\<open>%02d\<close>, \<open>%04d\<close> and \<open>%b\<close>.\<close>

definition pad0 :: "nat \<Rightarrow> nat \<Rightarrow> string" where
  "pad0 w n = replicate (w - length (show_nat n)) CHR ''0'' @ show_nat n"

definition month_name :: "nat \<Rightarrow> string" where
  "month_name m = [''Jan'', ''Feb'', ''Mar'', ''Apr'', ''May'', ''Jun'', ''Jul'', ''Aug'',
                   ''Sep'', ''Oct'', ''Nov'', ''Dec''] ! m"

text \<open>The fields without the year, as in \<open>%m%d%H%M%S\<close>.\<close>

definition stamp_tail :: "tm \<Rightarrow> string" where
  "stamp_tail tm = pad0 2 (tm_mon tm + 1) @ pad0 2 (tm_mday tm) @ pad0 2 (tm_hour tm) @
                   pad0 2 (tm_min tm) @ pad0 2 (tm_sec tm)"

section \<open>The reference: seconds from a date\<close>

definition days_to_year :: "int \<Rightarrow> int" where
  "days_to_year y = (\<Sum>k = 1970..<y. year_days k) - (\<Sum>k = y..<1970. year_days k)"

definition timegm :: "tm \<Rightarrow> int" where
  "timegm tm =
    (days_to_year (tm_year tm) + sum_list (take (tm_mon tm) (month_days (tm_year tm))) +
     int (tm_mday tm) - 1) * 86400 +
    int (tm_hour tm) * 3600 + int (tm_min tm) * 60 + int (tm_sec tm)"

definition tm_ok :: "tm \<Rightarrow> bool" where
  "tm_ok tm \<longleftrightarrow> tm_mon tm < 12 \<and> 1 \<le> tm_mday tm \<and> int (tm_mday tm) \<le> month_days (tm_year tm) ! tm_mon tm \<and>
     tm_hour tm < 24 \<and> tm_min tm < 60 \<and> tm_sec tm < 60"

section \<open>Lemmas\<close>

lemma days_to_year_Suc: "days_to_year (y + 1) = days_to_year y + year_days y"
proof (cases "1970 \<le> y")
  case True
  then have "{1970..<y + 1} = insert y {1970..<y}" by auto
  with True show ?thesis by (simp add: days_to_year_def)
next
  case False
  then have "{y..<1970} = insert y {y + 1..<1970}" by auto
  with False show ?thesis by (simp add: days_to_year_def)
qed

lemma find_year_correct:
  "find_year y d = (y', d') \<Longrightarrow>
   days_to_year y + d = days_to_year y' + d' \<and> 0 \<le> d' \<and> d' < year_days y'"
proof (induction y d rule: find_year.induct)
  case (1 y d)
  show ?case
    using 1 days_to_year_Suc [of "y - 1"] days_to_year_Suc [of y]
    by (subst (asm) (3) find_year.simps) (auto split: if_splits)
qed

lemma find_month_correct:
  "find_month ls m d = (m', d') \<Longrightarrow> 0 \<le> d \<Longrightarrow> d < sum_list ls \<Longrightarrow> list_all (\<lambda>l. 0 \<le> l) ls \<Longrightarrow>
   \<exists>k. m' = m + k \<and> k < length ls \<and> d = sum_list (take k ls) + d' \<and> 0 \<le> d' \<and> d' < ls ! k"
proof (induction ls m d rule: find_month.induct)
  case (1 m d)
  then show ?case by simp
next
  case (2 l ls m d)
  show ?case
  proof (cases "d < l")
    case True
    with 2 show ?thesis by (auto intro: exI [of _ 0])
  next
    case False
    with 2 obtain k where "m' = m + 1 + k" "k < length ls" "d - l = sum_list (take k ls) + d'"
      "0 \<le> d'" "d' < ls ! k" by auto
    then show ?thesis by (intro exI [of _ "Suc k"]) auto
  qed
qed

lemma month_days_sum: "sum_list (month_days y) = year_days y" "list_all (\<lambda>l. 0 \<le> l) (month_days y)"
  by (simp_all add: month_days_def year_days_def)

lemma gmtime_correct: "timegm (gmtime t) = t \<and> tm_ok (gmtime t)"
proof -
  obtain y yd where y: "find_year 1970 (t div 86400) = (y, yd)" by (cases "find_year 1970 (t div 86400)")
  obtain m md where m: "find_month (month_days y) 0 yd = (m, md)" by (cases "find_month (month_days y) 0 yd")
  define s where "s = nat (t mod 86400)"
  have s: "s < 86400" "int s = t mod 86400" by (auto simp: s_def)
  have Y: "t div 86400 = days_to_year y + yd" "0 \<le> yd" "yd < year_days y"
    using find_year_correct [OF y] by (simp_all add: days_to_year_def)
  have M: "m < 12" "yd = sum_list (take m (month_days y)) + md" "0 \<le> md" "md < month_days y ! m"
    using find_month_correct [OF m] Y month_days_sum [of y] by (auto simp: month_days_def)
  have g: "gmtime t = \<lparr>tm_year = y, tm_mon = m, tm_mday = nat md + 1,
      tm_hour = s div 3600, tm_min = s div 60 mod 60, tm_sec = s mod 60\<rparr>"
    by (simp add: gmtime_def y m s_def Let_def)
  have hms: "int (s div 3600) * 3600 + int (s div 60 mod 60) * 60 + int (s mod 60) = int s"
  proof -
    have "s div 3600 = s div 60 div 60" by (simp add: div_mult2_eq [symmetric])
    moreover have "s = s div 60 * 60 + s mod 60" "s div 60 = s div 60 div 60 * 60 + s div 60 mod 60"
      by simp_all
    ultimately have "s div 3600 * 3600 + s div 60 mod 60 * 60 + s mod 60 = s" by linarith
    then show ?thesis by linarith
  qed
  have "t = t div 86400 * 86400 + int s" using s by simp
  then show ?thesis
    using hms s M Y by (auto simp: g timegm_def tm_ok_def less_mult_imp_div_less)
qed

lemma pad0_two:
  assumes "n < 100"
  shows "length (pad0 2 n) = 2 \<and> read_nat (pad0 2 n) = n"
proof -
  have one: "length (show_nat n) = 1" if "n < 10" by (subst show_nat.simps) (use that in simp)
  have two: "length (show_nat n) = 2" if "\<not> n < 10"
  proof -
    have "n div 10 < 10" using assms by simp
    then have "length (show_nat (n div 10)) = 1" by (subst show_nat.simps) simp
    then show ?thesis using that by (subst show_nat.simps) simp
  qed
  have z: "read_nat (CHR ''0'' # s) = read_nat s" for s
    by (simp add: read_nat_def digit_val_def char_code_def)
  show ?thesis using one two by (cases "n < 10") (simp_all add: pad0_def z)
qed

text \<open>Reading a time stamp of fourteen digits.\<close>

definition read_stamp :: "string \<Rightarrow> tm" where
  "read_stamp s =
    \<lparr>tm_year = int (read_nat (take 4 s)), tm_mon = read_nat (take 2 (drop 4 s)) - 1,
     tm_mday = read_nat (take 2 (drop 6 s)), tm_hour = read_nat (take 2 (drop 8 s)),
     tm_min = read_nat (take 2 (drop 10 s)), tm_sec = read_nat (take 2 (drop 12 s))\<rparr>"

lemma month_days_le: "m < 12 \<Longrightarrow> month_days y ! m \<le> 31"
  by (auto simp: month_days_def nth_Cons' )

lemma show_year: "1000 \<le> n \<Longrightarrow> n \<le> 9999 \<Longrightarrow> length (show_nat n) = 4"
  by (subst show_nat.simps, subst show_nat.simps, subst show_nat.simps, subst show_nat.simps)
     (simp add: div_mult2_eq [symmetric] less_mult_imp_div_less not_less less_eq_div_iff_mult_less_eq)

lemma read_stamp_correct:
  assumes "tm_ok tm" "1000 \<le> tm_year tm" "tm_year tm \<le> 9999"
  shows "read_stamp (show_nat (nat (tm_year tm)) @ stamp_tail tm) = tm"
proof -
  have "int (tm_mday tm) \<le> 31" using assms(1) month_days_le [of "tm_mon tm" "tm_year tm"]
    by (simp add: tm_ok_def)
  then have b: "tm_mon tm + 1 < 100" "tm_mday tm < 100" "tm_hour tm < 100" "tm_min tm < 100" "tm_sec tm < 100"
    using assms(1) by (auto simp: tm_ok_def)
  note p = b [THEN pad0_two]
  show ?thesis
    using p assms(2,3) show_year [of "nat (tm_year tm)"]
    by (simp add: read_stamp_def stamp_tail_def)
qed

end
