(* ===== verification/Ftp_Cmd_Files.thy ===== *)
theory Ftp_Cmd_Files
  imports Ftp_Cmd_Basic Zf_Calendar
begin

text \<open>
  Model of the file management handlers of \<^verbatim>\<open>src/src/ftp_commands.c\<close>: deletion,
  directories, renaming, size and time queries, and the commands that start a copy
  in the background.
\<close>

section \<open>Files and directories\<close>

definition FILE_PERM :: nat where [simp]: "FILE_PERM = 438"
definition DIR_PERM :: nat where [simp]: "DIR_PERM = 511"

definition cmd_DELE :: "'w handler" where
  "cmd_DELE os args st =
    (case args of
       None \<Rightarrow> Some (FTP_ERR_INVALID_PARAM, st)
     | Some a \<Rightarrow> do {
         (r, st) \<leftarrow> ftp_path_resolve os a FTP_PATH_MAX st;
         case r of
           Inl _ \<Rightarrow> ftp_session_send_reply os R550_FILE_ERROR (Some ''Invalid path.'') st
         | Inr resolved \<Rightarrow> do {
             (err, st) \<leftarrow> pal_file_delete os resolved st;
             if err \<noteq> FTP_OK
             then ftp_session_send_reply os R550_FILE_ERROR (Some ''Cannot delete file.'') st
             else ftp_session_send_reply os R250_FILE_ACTION_OK (Some ''File deleted.'') st } })"

definition cmd_RMD :: "'w handler" where
  "cmd_RMD os args st =
    (case args of
       None \<Rightarrow> Some (FTP_ERR_INVALID_PARAM, st)
     | Some a \<Rightarrow> do {
         (r, st) \<leftarrow> ftp_path_resolve os a FTP_PATH_MAX st;
         case r of
           Inl _ \<Rightarrow> ftp_session_send_reply os R550_FILE_ERROR (Some ''Invalid path.'') st
         | Inr resolved \<Rightarrow> do {
             (err, st) \<leftarrow> pal_dir_remove os resolved st;
             if err \<noteq> FTP_OK
             then ftp_session_send_reply os R550_FILE_ERROR (Some ''Cannot remove directory.'') st
             else ftp_session_send_reply os R250_FILE_ACTION_OK (Some ''Directory removed.'') st } })"

definition mkd_reply :: "'w os \<Rightarrow> string \<Rightarrow> 'w st \<Rightarrow> (ftp_error \<times> 'w st) ret" where
  "mkd_reply os resolved st =
    (let reply = CHR 0x22 # resolved @ CHR 0x22 # '' created.''
     in if length reply \<ge> FTP_REPLY_BUFFER_SIZE
        then ftp_session_send_reply os R257_PATH_CREATED (Some ''Directory created.'') st
        else ftp_session_send_reply os R257_PATH_CREATED (Some reply) st)"

definition cmd_MKD :: "'w handler" where
  "cmd_MKD os args st =
    (case args of
       None \<Rightarrow> Some (FTP_ERR_INVALID_PARAM, st)
     | Some a \<Rightarrow> do {
         (r, st) \<leftarrow> ftp_path_resolve os a FTP_PATH_MAX st;
         case r of
           Inl _ \<Rightarrow> ftp_session_send_reply os R550_FILE_ERROR (Some ''Invalid path.'') st
         | Inr resolved \<Rightarrow> do {
             (err, st) \<leftarrow> pal_dir_create os resolved DIR_PERM st;
             if err \<noteq> FTP_OK then do {
               (is_dir, st) \<leftarrow>
                 (if err = FTP_ERR_DIR_EXISTS then pal_path_is_directory os resolved st
                  else Some (0, st));
               if is_dir = 1 then mkd_reply os resolved st
               else ftp_session_send_reply os R550_FILE_ERROR (Some ''Cannot create directory.'') st }
             else mkd_reply os resolved st } })"

definition cmd_SIZE :: "'w handler" where
  "cmd_SIZE os args st =
    (case args of
       None \<Rightarrow> Some (FTP_ERR_INVALID_PARAM, st)
     | Some a \<Rightarrow> do {
         (r, st) \<leftarrow> ftp_path_resolve os a FTP_PATH_MAX st;
         case r of
           Inl _ \<Rightarrow> ftp_session_send_reply os R550_FILE_ERROR (Some ''Invalid path.'') st
         | Inr resolved \<Rightarrow> do {
             (s, st) \<leftarrow> vfs_stat os resolved st;
             case s of
               Inl _ \<Rightarrow> ftp_session_send_reply os R550_FILE_ERROR (Some ''File not found.'') st
             | Inr s \<Rightarrow>
                 ftp_session_send_reply os R213_FILE_STATUS (Some (show_nat (unat (st_size s)))) st } })"

text \<open>\<open>%04d\<close> of a year.\<close>

definition show_year4 :: "int \<Rightarrow> string" where
  "show_year4 y = (if y < 0 then CHR ''-'' # pad0 3 (nat (- y)) else pad0 4 (nat y))"

definition mdtm_text :: "int \<Rightarrow> string" where
  "mdtm_text mtime = (let tm = gmtime mtime in take 31 (show_year4 (tm_year tm) @ stamp_tail tm))"

definition cmd_MDTM :: "'w handler" where
  "cmd_MDTM os args st =
    (case args of
       None \<Rightarrow> Some (FTP_ERR_INVALID_PARAM, st)
     | Some a \<Rightarrow> do {
         (r, st) \<leftarrow> ftp_path_resolve os a FTP_PATH_MAX st;
         case r of
           Inl _ \<Rightarrow> ftp_session_send_reply os R550_FILE_ERROR (Some ''Invalid path.'') st
         | Inr resolved \<Rightarrow> do {
             (s, st) \<leftarrow> pal_file_stat os resolved st;
             case s of
               Inl _ \<Rightarrow> ftp_session_send_reply os R550_FILE_ERROR (Some ''File not found.'') st
             | Inr s \<Rightarrow>
                 ftp_session_send_reply os R213_FILE_STATUS (Some (mdtm_text (st_mtime s))) st } })"

section \<open>Background copy\<close>

text \<open>The copy thread clears \<open>copy_in_progress\<close> when it ends; the system tells whether it has.\<close>

definition copy_poll :: "'w os \<Rightarrow> 'w st \<Rightarrow> (unit \<times> 'w st) ret" where
  "copy_poll os st =
    (if copy_in_progress (sess st) then do {
       (r, st) \<leftarrow> syscall os Sys_copy_running st;
       Some ((), if r_ret r > 0 then st else upd (\<lambda>s. s\<lparr>copy_in_progress := False\<rparr>) st) }
     else Some ((), st))"

definition launch_copy :: "'w os \<Rightarrow> string \<Rightarrow> string \<Rightarrow> bool \<Rightarrow> 'w st \<Rightarrow> (ftp_error \<times> 'w st) ret" where
  "launch_copy os src dst is_move st = do {
     (m, st) \<leftarrow> syscall os (Sys_malloc 8208) st;
     if r_ret m < 0
     then ftp_session_send_reply os R451_LOCAL_ERROR (Some ''Memory allocation failed.'') st
     else do {
       let st = upd (\<lambda>s. s\<lparr>copy_in_progress := True\<rparr>) st;
       (_, st) \<leftarrow>
         (if copy_thread_valid (sess st)
          then do { (_, st) \<leftarrow> syscall os Sys_join_copy st; Some ((), st) }
          else Some ((), st));
       (c, st) \<leftarrow> syscall os (Sys_copy_thread (take (FTP_PATH_MAX - 1) src)
                              (take (FTP_PATH_MAX - 1) dst) is_move) st;
       if r_ret c \<noteq> 0
       then ftp_session_send_reply os R451_LOCAL_ERROR (Some ''Failed to create background thread.'')
              (upd (\<lambda>s. s\<lparr>copy_in_progress := False, copy_thread_valid := False\<rparr>) st)
       else ftp_session_send_reply os R250_FILE_ACTION_OK
              (Some (if is_move then ''Move started in background.'' else ''Copy started in background.''))
              (upd (\<lambda>s. s\<lparr>copy_thread_valid := True\<rparr>) st) } }"

definition start_async_copy ::
  "'w os \<Rightarrow> string \<Rightarrow> string \<Rightarrow> bool \<Rightarrow> 'w st \<Rightarrow> (ftp_error \<times> 'w st) ret" where
  "start_async_copy os src_ftp_path dst_ftp_path is_move st = do {
     (_, st) \<leftarrow> copy_poll os st;
     if copy_in_progress (sess st)
     then ftp_session_send_reply os R450_FILE_UNAVAILABLE (Some ''Operation already in progress.'') st
     else do {
       (r, st) \<leftarrow> ftp_path_resolve os src_ftp_path FTP_PATH_MAX st;
       case r of
         Inl _ \<Rightarrow> ftp_session_send_reply os R550_FILE_ERROR (Some ''Invalid path.'') st
       | Inr src \<Rightarrow> do {
           (r, st) \<leftarrow> ftp_path_resolve os dst_ftp_path FTP_PATH_MAX st;
           case r of
             Inl _ \<Rightarrow> ftp_session_send_reply os R550_FILE_ERROR (Some ''Invalid path.'') st
           | Inr dst \<Rightarrow>
               if src = dst
               then ftp_session_send_reply os R553_FILENAME_INVALID
                      (Some ''Source and destination are the same.'') st
               else launch_copy os src dst is_move st } } }"

definition cmd_CPFR :: "'w handler" where
  "cmd_CPFR os args st =
    (case args of
       None \<Rightarrow> Some (FTP_ERR_INVALID_PARAM, st)
     | Some a \<Rightarrow>
         if a = [] then ftp_session_send_reply os R501_SYNTAX_ARGS (Some ''Syntax: CPFR <path>'') st
         else do {
           (r, st) \<leftarrow> ftp_path_resolve os a FTP_PATH_MAX st;
           case r of
             Inl _ \<Rightarrow> ftp_session_send_reply os R550_FILE_ERROR (Some ''Invalid source path.'') st
           | Inr resolved \<Rightarrow> do {
               (ex, st) \<leftarrow> pal_path_exists os resolved st;
               if ex = 0
               then ftp_session_send_reply os R550_FILE_ERROR (Some ''Source does not exist.'') st
               else ftp_session_send_reply os R350_PENDING
                      (Some ''File exists, ready for destination name.'')
                      (upd (\<lambda>s. s\<lparr>copy_from := take (FTP_PATH_MAX - 1) a\<rparr>) st) } })"

definition cmd_CPTO :: "'w handler" where
  "cmd_CPTO os args st =
    (case args of
       None \<Rightarrow> Some (FTP_ERR_INVALID_PARAM, st)
     | Some a \<Rightarrow>
         if a = [] then ftp_session_send_reply os R501_SYNTAX_ARGS (Some ''Syntax: CPTO <path>'') st
         else if copy_from (sess st) = []
         then ftp_session_send_reply os R503_BAD_SEQUENCE
                (Some ''Bad sequence of commands (use CPFR first).'') st
         else do {
           (result, st) \<leftarrow> start_async_copy os (copy_from (sess st)) a False st;
           Some (result, upd (\<lambda>s. s\<lparr>copy_from := []\<rparr>) st) })"

definition cmd_COPY :: "'w handler" where
  "cmd_COPY os args st =
    (case args of
       None \<Rightarrow> Some (FTP_ERR_INVALID_PARAM, st)
     | Some a \<Rightarrow>
         if CHR '' '' \<notin> set a
         then ftp_session_send_reply os R501_SYNTAX_ARGS (Some ''Syntax: COPY <src> <dst>'') st
         else let src_arg = takeWhile (\<lambda>c. c \<noteq> CHR '' '') a;
                  dst_start = dropWhile (\<lambda>c. c = CHR '' '') (drop (length src_arg + 1) a)
              in if length src_arg \<ge> FTP_PATH_MAX
                 then ftp_session_send_reply os R501_SYNTAX_ARGS (Some ''Paths too long.'') st
                 else if dst_start = []
                 then ftp_session_send_reply os R501_SYNTAX_ARGS (Some ''Syntax: COPY <src> <dst>'') st
                 else start_async_copy os src_arg (take (FTP_PATH_MAX - 1) dst_start) False st)"

section \<open>Renaming\<close>

definition cmd_RNFR :: "'w handler" where
  "cmd_RNFR os args st =
    (case args of
       None \<Rightarrow> Some (FTP_ERR_INVALID_PARAM, st)
     | Some a \<Rightarrow> do {
         (r, st) \<leftarrow> ftp_path_resolve os a FTP_PATH_MAX st;
         case r of
           Inl _ \<Rightarrow> ftp_session_send_reply os R550_FILE_ERROR (Some ''Invalid path.'') st
         | Inr resolved \<Rightarrow> do {
             (ex, st) \<leftarrow> pal_path_exists os resolved st;
             if ex \<noteq> 1
             then ftp_session_send_reply os R550_FILE_ERROR (Some ''File not found.'') st
             else if length resolved \<ge> FTP_PATH_MAX
             then ftp_session_send_reply os R550_FILE_ERROR (Some ''Path too long.'') st
             else ftp_session_send_reply os R350_PENDING (Some ''Ready for RNTO.'')
                    (upd (\<lambda>s. s\<lparr>rename_from := resolved\<rparr>) st) } })"

definition rename_detail :: "ftp_error \<Rightarrow> string" where
  "rename_detail err =
    (if err = FTP_ERR_NOT_FOUND then ''Source not found.''
     else if err = FTP_ERR_PERMISSION then ''Permission denied.''
     else if err = FTP_ERR_PATH_TOO_LONG then ''Path too long.''
     else if err = FTP_ERR_OUT_OF_MEMORY then ''Out of memory.''
     else if err = FTP_ERR_DIR_OPEN then ''Cannot open directory.''
     else if err = FTP_ERR_FILE_OPEN then ''Cannot open file.''
     else if err = FTP_ERR_FILE_READ then ''Read error during copy.''
     else ''Rename failed (err='' @ show_int (err_code err) @ '').'')"

definition cmd_RNTO :: "'w handler" where
  "cmd_RNTO os args st =
    (case args of
       None \<Rightarrow> Some (FTP_ERR_INVALID_PARAM, st)
     | Some a \<Rightarrow>
         if rename_from (sess st) = []
         then ftp_session_send_reply os R503_BAD_SEQUENCE (Some ''RNFR required first.'') st
         else do {
           (r, st) \<leftarrow> ftp_path_resolve os a FTP_PATH_MAX st;
           case r of
             Inl _ \<Rightarrow> ftp_session_send_reply os R550_FILE_ERROR (Some ''Invalid path.'')
                        (upd (\<lambda>s. s\<lparr>rename_from := []\<rparr>) st)
           | Inr resolved \<Rightarrow> do {
               (err, st) \<leftarrow> pal_file_rename os (rename_from (sess st)) resolved st;
               if err = FTP_ERR_CROSS_DEVICE then do {
                 (async_err, st) \<leftarrow> start_async_copy os (rename_from (sess st)) a True st;
                 Some (async_err, upd (\<lambda>s. s\<lparr>rename_from := []\<rparr>) st) }
               else do {
                 let st = upd (\<lambda>s. s\<lparr>rename_from := []\<rparr>) st;
                 if err \<noteq> FTP_OK
                 then ftp_session_send_reply os R550_FILE_ERROR (Some (rename_detail err)) st
                 else ftp_session_send_reply os R250_FILE_ACTION_OK (Some ''File renamed.'') st } } })"

section \<open>The handlers keep the contract\<close>

interpretation DELE: ftp_handler cmd_DELE
  by unfold_locales (unfold cmd_DELE_def, intro wp; simp add: contract)

interpretation RMD: ftp_handler cmd_RMD
  by unfold_locales (unfold cmd_RMD_def, intro wp; simp add: contract)

interpretation MKD: ftp_handler cmd_MKD
  by unfold_locales (unfold cmd_MKD_def mkd_reply_def, intro wp; simp add: contract)

interpretation SIZE: ftp_handler cmd_SIZE
  by unfold_locales (unfold cmd_SIZE_def, intro wp; simp add: contract)

interpretation MDTM: ftp_handler cmd_MDTM
  by unfold_locales (unfold cmd_MDTM_def, intro wp; simp add: contract)

interpretation CPFR: ftp_handler cmd_CPFR
  by unfold_locales (unfold cmd_CPFR_def, intro wp; simp add: contract)

interpretation RNFR: ftp_handler cmd_RNFR
  by unfold_locales (unfold cmd_RNFR_def, intro wp; simp add: contract)

lemma post_copy_poll [wp]:
  assumes "\<And>w e t p. list_all quiet t \<Longrightarrow> Q () (adv w e t (upd (\<lambda>s. s\<lparr>copy_in_progress := p\<rparr>) st))"
  shows "post (copy_poll os st) Q"
proof -
  have [simp]: "upd (\<lambda>s. s\<lparr>copy_in_progress := copy_in_progress (sess st)\<rparr>) st = st" by (simp add: upd_def)
  have here: "Q () (adv w e t st)" if "list_all quiet t" for w e t
    using assms [OF that, of w e "copy_in_progress (sess st)"] by simp
  show ?thesis
    unfolding copy_poll_def using here [of "[]" "world st" "errno st"]
    by (intro wp) (simp_all add: assms here quiet_def)
qed

lemma post_start_async_copy [wp]:
  assumes sat: "os_sat os posix"
    and Q: "\<And>r w e t p v. list_all (ev_inside (root_path (sess st))) t \<Longrightarrow> (\<And>h. bal h t = 0) \<Longrightarrow>
      Q r (adv w e t (upd (\<lambda>s. s\<lparr>copy_in_progress := p, copy_thread_valid := v\<rparr>) st))"
  shows "post (start_async_copy os src dst mv st) Q"
proof -
  have V: "Q r (adv w e t (upd f st))"
    if "f (sess st) = (sess st)\<lparr>copy_in_progress := copy_in_progress (f (sess st)), copy_thread_valid := copy_thread_valid (f (sess st))\<rparr>"
      "list_all (ev_inside (root_path (sess st))) t" "\<And>h. bal h t = 0" for r w e t f
  proof -
    have "upd f st = upd (\<lambda>s. s\<lparr>copy_in_progress := copy_in_progress (f (sess st)), copy_thread_valid := copy_thread_valid (f (sess st))\<rparr>) st"
      unfolding upd_def by (subst that(1)) simp
    then show ?thesis by (simp only:) (rule Q [OF that(2,3)])
  qed
  have here: "Q r (adv w e t st)" if "list_all (ev_inside (root_path (sess st))) t" "\<And>h. bal h t = 0" for r w e t
    using V [of "\<lambda>s. s" t r w e] that by (simp add: upd_def)
  show ?thesis
    unfolding start_async_copy_def launch_copy_def
    apply (intro wp)
    apply (simp_all add: sat contract here)
    apply (rule V; auto simp: contract)+
    done
qed

interpretation CPTO: ftp_handler cmd_CPTO
  by unfold_locales (unfold cmd_CPTO_def, intro wp; simp add: contract)

interpretation COPY: ftp_handler cmd_COPY
  by unfold_locales (unfold cmd_COPY_def, intro wp; simp add: contract)

interpretation RNTO: ftp_handler cmd_RNTO
  by unfold_locales (unfold cmd_RNTO_def, intro wp; simp add: contract)

end
