(* ===== verification/Ftp_Cmd_List.thy ===== *)
theory Ftp_Cmd_List
  imports Ftp_Cmd_Files
begin

text \<open>
  Model of the directory listings of \<^verbatim>\<open>src/src/ftp_commands.c\<close>: \<^verbatim>\<open>LIST\<close>, \<^verbatim>\<open>NLST\<close>,
  \<^verbatim>\<open>MLSD\<close> and \<^verbatim>\<open>MLST\<close>, with their line formats.
\<close>

unbundle bit_operations_syntax

section \<open>Formatting\<close>

definition send_control_raw :: "'w os \<Rightarrow> string \<Rightarrow> 'w st \<Rightarrow> (ftp_error \<times> 'w st) ret" where
  "send_control_raw os payload st =
    (if ctrl_fd (sess st) < 0 then Some (FTP_ERR_SOCKET_SEND, st)
     else if payload = [] then Some (FTP_OK, st)
     else do {
       (sent, st) \<leftarrow> pal_send_all os (ctrl_fd (sess st)) (bytes_of payload) st;
       if sent \<noteq> int (length payload) then Some (FTP_ERR_SOCKET_SEND, st)
       else do { (_, st) \<leftarrow> touch os st; Some (FTP_OK, st) } })"

definition mlsx_type_from_mode :: "32 word \<Rightarrow> string" where
  "mlsx_type_from_mode mode = (if is_dir_mode mode then ''dir'' else ''file'')"

definition mlsx_format_modify_time :: "int \<Rightarrow> string" where
  "mlsx_format_modify_time mtime = (let tm = gmtime mtime in show_int (tm_year tm) @ stamp_tail tm)"

definition ftp_path_to_client_path :: "ftp_session \<Rightarrow> string \<Rightarrow> nat \<Rightarrow> ftp_error + string" where
  "ftp_path_to_client_path s resolved sz =
    (if sz < 2 then Inl FTP_ERR_PATH_TOO_LONG
     else if root_path s = ''/'' then
       if length resolved + 1 > sz then Inl FTP_ERR_PATH_TOO_LONG else Inr resolved
     else if take (length (root_path s)) resolved \<noteq> root_path s then Inl FTP_ERR_PATH_INVALID
     else let suffix = drop (length (root_path s)) resolved in
       if suffix = [] then Inr ''/''
       else if hd suffix = SLASH then
         if length suffix + 1 > sz then Inl FTP_ERR_PATH_TOO_LONG else Inr suffix
       else if length suffix + 1 \<ge> sz then Inl FTP_ERR_PATH_TOO_LONG
       else Inr (SLASH # suffix))"

text \<open>\<open>%04o\<close> of four octal digits.\<close>

definition show_octal4 :: "nat \<Rightarrow> string" where
  "show_octal4 n = map digit_char [n div 512 mod 8, n div 64 mod 8, n div 8 mod 8, n mod 8]"

definition mlsx_format_line :: "fstat \<Rightarrow> string \<Rightarrow> bool \<Rightarrow> nat \<Rightarrow> ftp_error + string" where
  "mlsx_format_line st display_name leading_space sz =
    (let line = (if leading_space then '' '' else []) @ ''type='' @ mlsx_type_from_mode (st_mode st) @
                '';size='' @ show_nat (if is_dir_mode (st_mode st) then 0 else unat (st_size st)) @
                '';modify='' @ mlsx_format_modify_time (st_mtime st) @
                '';unix.mode='' @ show_octal4 (unat (st_mode st AND 0xFFF)) @ ''; '' @ display_name @ CRLF
     in if length line \<ge> sz then Inl FTP_ERR_PATH_TOO_LONG else Inr line)"

text \<open>The permission string, bit by bit from the owner's read permission down.\<close>

definition perm_char :: "32 word \<Rightarrow> nat \<Rightarrow> char \<Rightarrow> char" where
  "perm_char mode k c = (if bit mode k then c else CHR ''-'')"

definition list_perms :: "32 word \<Rightarrow> string" where
  "list_perms mode =
    [if is_dir_mode mode then CHR ''d'' else CHR ''-'',
     perm_char mode 8 CHR ''r'', perm_char mode 7 CHR ''w'', perm_char mode 6 CHR ''x'',
     perm_char mode 5 CHR ''r'', perm_char mode 4 CHR ''w'', perm_char mode 3 CHR ''x'',
     perm_char mode 2 CHR ''r'', perm_char mode 1 CHR ''w'', perm_char mode 0 CHR ''x'']"

text \<open>\<open>%10lld\<close>\<close>

definition pad_left :: "nat \<Rightarrow> string \<Rightarrow> string" where
  "pad_left w s = replicate (w - length s) CHR '' '' @ s"

definition list_time :: "int \<Rightarrow> string" where
  "list_time mtime =
    (let tm = gmtime mtime
     in month_name (tm_mon tm) @ '' '' @ pad0 2 (tm_mday tm) @ '' '' @ pad0 2 (tm_hour tm) @ '':'' @
        pad0 2 (tm_min tm))"

definition list_line :: "fstat \<Rightarrow> string \<Rightarrow> string" where
  "list_line st name =
    list_perms (st_mode st) @ '' 1 ftp ftp '' @ pad_left 10 (show_int (sint (st_size st))) @ '' '' @
    list_time (st_mtime st) @ '' '' @ name @ CRLF"

section \<open>Reading a directory\<close>

text \<open>
  \<open>readdir\<close> answers with the type of the entry and its name, or fails at the end of the
  directory.  \<open>entry_stat\<close> is the status of an entry, with the fallback from its type.
\<close>

definition DT_DIR :: int where "DT_DIR = 4"

definition entry_stat :: "'w os \<Rightarrow> string \<Rightarrow> string \<Rightarrow> int \<Rightarrow> 'w st \<Rightarrow> (fstat \<times> 'w st) ret" where
  "entry_stat os path name d_type st = do {
     let fullpath = path @ ''/'' @ name;
     (r, st) \<leftarrow>
       (if length fullpath < FTP_PATH_MAX then vfs_stat os fullpath st
        else Some (Inl FTP_ERR_PATH_TOO_LONG, st));
     Some (case r of
             Inr s \<Rightarrow> s
           | Inl _ \<Rightarrow> \<lparr>st_mode = (if d_type = DT_DIR then S_IFDIR else S_IFREG), st_size = 0, st_mtime = 0\<rparr>,
           st) }"

partial_function (option) listing_loop ::
  "'w os \<Rightarrow> int \<Rightarrow> string \<Rightarrow> bool \<Rightarrow> 'w st \<Rightarrow> (unit \<times> 'w st) ret" where
  "listing_loop os dir path detailed st = do {
     (d, st) \<leftarrow> syscall os (Sys_readdir dir) st;
     if r_ret d < 0 then Some ((), st)
     else let name = cstring (r_str d) in
       if name = ''.'' \<or> name = ''..'' then listing_loop os dir path detailed st
       else do {
         (line, st) \<leftarrow>
           (if detailed then do {
              (s, st) \<leftarrow> entry_stat os path name (r_ret d) st;
              Some (list_line s name, st) }
            else Some (name @ CRLF, st));
         if length line \<ge> FTP_LIST_LINE_SIZE then listing_loop os dir path detailed st
         else do {
           (_, st) \<leftarrow> ftp_session_send_data os (bytes_of line) st;
           listing_loop os dir path detailed st } } }"

definition send_directory_listing :: "'w os \<Rightarrow> string \<Rightarrow> bool \<Rightarrow> 'w st \<Rightarrow> (ftp_error \<times> 'w st) ret" where
  "send_directory_listing os path detailed st = do {
     (d, st) \<leftarrow> syscall os (Sys_opendir path) st;
     if r_ret d < 0 then Some (FTP_ERR_DIR_OPEN, st)
     else do {
       (_, st) \<leftarrow> listing_loop os (r_ret d) path detailed st;
       (_, st) \<leftarrow> syscall os (Sys_closedir (r_ret d)) st;
       Some (FTP_OK, st) } }"

section \<open>The commands\<close>

definition path_arg :: "string option \<Rightarrow> ftp_session \<Rightarrow> string" where
  "path_arg args s = (case args of None \<Rightarrow> cwd s | Some a \<Rightarrow> a)"

definition cmd_LIST :: "'w handler" where
  "cmd_LIST os args st = do {
     (r, st) \<leftarrow> ftp_path_resolve os (path_arg args (sess st)) FTP_PATH_MAX st;
     case r of
       Inl _ \<Rightarrow> ftp_session_send_reply os R550_FILE_ERROR (Some ''Invalid path.'') st
     | Inr resolved \<Rightarrow> do {
         (err, st) \<leftarrow> ftp_session_open_data_connection os st;
         if err \<noteq> FTP_OK then ftp_session_send_reply os R425_CANT_OPEN_DATA None st
         else do {
           (_, st) \<leftarrow> ftp_session_send_reply os R150_FILE_OK None st;
           (_, st) \<leftarrow> syscall os (Sys_usleep 50000) st;
           (err, st) \<leftarrow> send_directory_listing os resolved True st;
           (_, st) \<leftarrow> ftp_session_close_data_connection os st;
           if err \<noteq> FTP_OK
           then ftp_session_send_reply os R451_LOCAL_ERROR (Some ''Error reading directory.'') st
           else ftp_session_send_reply os R226_TRANSFER_COMPLETE None st } } }"

definition cmd_NLST :: "'w handler" where
  "cmd_NLST os args st = do {
     (r, st) \<leftarrow> ftp_path_resolve os (path_arg args (sess st)) FTP_PATH_MAX st;
     case r of
       Inl _ \<Rightarrow> ftp_session_send_reply os R550_FILE_ERROR (Some ''Invalid path.'') st
     | Inr resolved \<Rightarrow> do {
         (err, st) \<leftarrow> ftp_session_open_data_connection os st;
         if err \<noteq> FTP_OK then ftp_session_send_reply os R425_CANT_OPEN_DATA None st
         else do {
           (_, st) \<leftarrow> ftp_session_send_reply os R150_FILE_OK None st;
           (_, st) \<leftarrow> syscall os (Sys_usleep 50000) st;
           (err, st) \<leftarrow> send_directory_listing os resolved False st;
           (_, st) \<leftarrow> ftp_session_close_data_connection os st;
           if err \<noteq> FTP_OK
           then ftp_session_send_reply os R451_LOCAL_ERROR (Some ''Error reading directory.'') st
           else ftp_session_send_reply os R226_TRANSFER_COMPLETE None st } } }"

partial_function (option) mlsd_loop ::
  "'w os \<Rightarrow> int \<Rightarrow> string \<Rightarrow> 'w st \<Rightarrow> (unit \<times> 'w st) ret" where
  "mlsd_loop os dir path st = do {
     (d, st) \<leftarrow> syscall os (Sys_readdir dir) st;
     if r_ret d < 0 then Some ((), st)
     else let name = cstring (r_str d) in
       if name = ''.'' \<or> name = ''..'' then mlsd_loop os dir path st
       else do {
         (s, st) \<leftarrow> entry_stat os path name (r_ret d) st;
         case mlsx_format_line s name False FTP_LIST_LINE_SIZE of
           Inl _ \<Rightarrow> mlsd_loop os dir path st
         | Inr line \<Rightarrow> do {
             (_, st) \<leftarrow> ftp_session_send_data os (bytes_of line) st;
             mlsd_loop os dir path st } } }"

definition cmd_MLSD :: "'w handler" where
  "cmd_MLSD os args st = do {
     (r, st) \<leftarrow> ftp_path_resolve os (path_arg args (sess st)) FTP_PATH_MAX st;
     case r of
       Inl _ \<Rightarrow> ftp_session_send_reply os R550_FILE_ERROR (Some ''Invalid path.'') st
     | Inr resolved \<Rightarrow> do {
         (err, st) \<leftarrow> ftp_session_open_data_connection os st;
         if err \<noteq> FTP_OK then ftp_session_send_reply os R425_CANT_OPEN_DATA None st
         else do {
           (_, st) \<leftarrow> ftp_session_send_reply os R150_FILE_OK None st;
           (_, st) \<leftarrow> syscall os (Sys_usleep 50000) st;
           (d, st) \<leftarrow> syscall os (Sys_opendir resolved) st;
           (_, st) \<leftarrow>
             (if r_ret d \<ge> 0 then do {
                (_, st) \<leftarrow> mlsd_loop os (r_ret d) resolved st;
                (_, st) \<leftarrow> syscall os (Sys_closedir (r_ret d)) st;
                Some ((), st) }
              else Some ((), st));
           (_, st) \<leftarrow> ftp_session_close_data_connection os st;
           ftp_session_send_reply os R226_TRANSFER_COMPLETE None st } } }"

definition cmd_MLST :: "'w handler" where
  "cmd_MLST os args st = do {
     (r, st) \<leftarrow> ftp_path_resolve os
       (if args \<noteq> None \<and> args \<noteq> Some [] then the args else cwd (sess st)) FTP_PATH_MAX st;
     case r of
       Inl _ \<Rightarrow> ftp_session_send_reply os R550_FILE_ERROR (Some ''Invalid path.'') st
     | Inr resolved \<Rightarrow> do {
         (s, st) \<leftarrow> vfs_stat os resolved st;
         case s of
           Inl _ \<Rightarrow> ftp_session_send_reply os R550_FILE_ERROR (Some ''File not found.'') st
         | Inr s \<Rightarrow>
             case ftp_path_to_client_path (sess st) resolved FTP_PATH_MAX of
               Inl _ \<Rightarrow> ftp_session_send_reply os R550_FILE_ERROR (Some ''Invalid path.'') st
             | Inr client_path \<Rightarrow>
                 case mlsx_format_line s client_path True FTP_LIST_LINE_SIZE of
                   Inl _ \<Rightarrow> ftp_session_send_reply os R451_LOCAL_ERROR (Some ''MLST formatting failed.'') st
                 | Inr listing_line \<Rightarrow>
                     let reply = ''250-Listing '' @ client_path @ CRLF
                     in if length reply \<ge> FTP_REPLY_BUFFER_SIZE
                        then ftp_session_send_reply os R451_LOCAL_ERROR (Some ''MLST formatting failed.'') st
                        else do {
                          (err, st) \<leftarrow> send_control_raw os reply st;
                          if err \<noteq> FTP_OK then Some (err, st)
                          else do {
                            (err, st) \<leftarrow> send_control_raw os listing_line st;
                            if err \<noteq> FTP_OK then Some (err, st)
                            else send_control_raw os (''250 End'' @ CRLF) st } } } }"

section \<open>The handlers keep the contract\<close>

lemma post_send_control_raw [wp]:
  assumes "os_sat os posix"
    and "\<And>r w e t la. neutral t \<Longrightarrow> Q r (adv w e t (upd (\<lambda>s. s\<lparr>last_activity := la\<rparr>) st))"
  shows "post (send_control_raw os payload st) Q"
proof -
  have [simp]: "upd (\<lambda>s. s\<lparr>last_activity := last_activity (sess st)\<rparr>) st = st" by (simp add: upd_def)
  have here: "Q r (adv w e t st)" if "neutral t" for r w e t
    using assms(2) [OF that, of r w e "last_activity (sess st)"] by simp
  show ?thesis
    unfolding send_control_raw_def using here [of "[]" _ "world st" "errno st"]
    by (intro wp post_send_all [OF assms(1)])
       (simp_all add: here assms(2) sends_neutral neutral_append quiet_neutral)
qed

lemma post_entry_stat [wp]:
  assumes "\<And>r w e t. list_all quiet t \<Longrightarrow> Q r (adv w e t st)"
  shows "post (entry_stat os path name d_type st) Q"
  unfolding entry_stat_def vfs_stat_def using assms [of "[]" _ "world st" "errno st"]
  by (intro wp) (simp_all add: assms)

definition listed :: "event list \<Rightarrow> ftp_crypto_ctx \<Rightarrow> bool" where
  "listed t c \<longleftrightarrow> neutral t \<and> crypto_ok c"

lemma listed_append: "listed t c \<Longrightarrow> neutral u \<Longrightarrow> listed (u @ t) c"
  by (simp add: listed_def neutral_append)

lemma listing_events:
  "neutral [(Sys_readdir dir, r)]" "list_all quiet t \<Longrightarrow> neutral ((Sys_readdir dir, r) # t)"
  "list_all (sends fd) u \<Longrightarrow> neutral ((Sys_readdir dir, r) # u)"
  "list_all quiet t \<Longrightarrow> list_all (sends fd) u \<Longrightarrow> neutral ((Sys_readdir dir, r) # t @ u)"
  by (simp_all add: neutral_Cons neutral_append quiet_neutral sends_neutral)

lemma listing_loop_spec:
  assumes ret: "listing_loop os dir path detailed st = Some (r, st')" and sat: "os_sat os posix"
    and ok: "crypto_ok (crypto (sess st))"
  shows "vol_adv listed st st'"
proof -
  let ?P = "\<lambda>os dir path detailed st y.
    os_sat os posix \<and> crypto_ok (crypto (sess st)) \<longrightarrow> vol_adv listed st (snd y)"
  have "?P os dir path detailed st (r, st')"
  proof (rule listing_loop.raw_induct [where P = ?P, OF _ ret], rule impI, goal_cases)
    case (1 loop os dir path detailed st y)
    have IH: "post (loop os dir path detailed st) (\<lambda>_. vol_adv listed st)"
      if "crypto_ok (crypto (sess st))" for st
      using 1(1,3) that by (fastforce simp: post_def)
    have "post (Some y) (\<lambda>_. vol_adv listed st)"
      unfolding 1(2) [symmetric]
      apply (intro wp post_mono [OF IH])
      by (use 1(3) in simp_all)
         ((rule vol_adv_advI | (erule vol_adv_adv vol_adv_vol, erule listed_append));
          simp add: listed_def listing_events)+
    then show ?case by (cases y) (simp add: post_def)
  qed
  then show ?thesis using sat ok by simp
qed

lemma mlsd_loop_spec:
  assumes ret: "mlsd_loop os dir path st = Some (r, st')" and sat: "os_sat os posix"
    and ok: "crypto_ok (crypto (sess st))"
  shows "vol_adv listed st st'"
proof -
  let ?P = "\<lambda>os dir path st y.
    os_sat os posix \<and> crypto_ok (crypto (sess st)) \<longrightarrow> vol_adv listed st (snd y)"
  have "?P os dir path st (r, st')"
  proof (rule mlsd_loop.raw_induct [where P = ?P, OF _ ret], rule impI, goal_cases)
    case (1 loop os dir path st y)
    have IH: "post (loop os dir path st) (\<lambda>_. vol_adv listed st)"
      if "crypto_ok (crypto (sess st))" for st
      using 1(1,3) that by (fastforce simp: post_def)
    have "post (Some y) (\<lambda>_. vol_adv listed st)"
      unfolding 1(2) [symmetric]
      apply (intro wp post_mono [OF IH])
      by (use 1(3) in simp_all)
         ((rule vol_adv_advI | (erule vol_adv_adv vol_adv_vol, erule listed_append));
          simp add: listed_def listing_events)+
    then show ?case by (cases y) (simp add: post_def)
  qed
  then show ?thesis using sat ok by simp
qed

lemma post_listing_loops [wp]:
  assumes "os_sat os posix" "crypto_ok (crypto (sess st))"
    and "\<And>w e t v. neutral t \<Longrightarrow> crypto_ok (fst (snd (snd v))) \<Longrightarrow> Q () (adv w e t (upd (vol v) st))"
  shows "post (listing_loop os dir path detailed st) Q" "post (mlsd_loop os dir path st) Q"
  using assms by (auto simp: post_def listed_def elim!: vol_advE dest!: listing_loop_spec mlsd_loop_spec)

interpretation LIST: ftp_handler cmd_LIST
  by unfold_locales (unfold cmd_LIST_def send_directory_listing_def, intro wp; simp add: contract)

interpretation NLST: ftp_handler cmd_NLST
  by unfold_locales (unfold cmd_NLST_def send_directory_listing_def, intro wp; simp add: contract)

interpretation MLSD: ftp_handler cmd_MLSD
  by unfold_locales (unfold cmd_MLSD_def, intro wp; simp add: contract)

interpretation MLST: ftp_handler cmd_MLST
  by unfold_locales (unfold cmd_MLST_def, intro wp; simp add: contract)

section \<open>Reading an entry of a machine listing\<close>

text \<open>
  The reader a client has for the lines of \<open>MLSD\<close> and \<open>MLST\<close>: the facts up to the first
  space, each a name and a value, then the name of the entry up to the end of the line.
\<close>

definition read_fact :: "string \<Rightarrow> string \<times> string" where
  "read_fact f = (takeWhile (\<lambda>c. c \<noteq> CHR ''='') f, drop 1 (dropWhile (\<lambda>c. c \<noteq> CHR ''='') f))"

definition read_entry :: "string \<Rightarrow> (string \<times> string) list \<times> string" where
  "read_entry line =
    (let line = (if take 1 line = '' '' then drop 1 line else line)
     in (map read_fact (butlast (split_on (CHR '';'') (takeWhile (\<lambda>c. c \<noteq> CHR '' '') line))),
         butlast (butlast (drop 1 (dropWhile (\<lambda>c. c \<noteq> CHR '' '') line)))))"

definition read_octal :: "string \<Rightarrow> nat" where
  "read_octal s = foldl (\<lambda>n c. 8 * n + digit_val c) 0 s"

lemma show_octal4: "n < 4096 \<Longrightarrow> read_octal (show_octal4 n) = n" "list_all isdigit (show_octal4 n)"
proof -
  assume "n < 4096"
  then have top: "n div 512 mod 8 = n div 512" "n div 512 < 8"
    by (simp_all add: less_mult_imp_div_less)
  have digit: "digit_val (digit_char (k mod 8)) = k mod 8" for k
    using mod_less_divisor [of 8 k] by (simp del: mod_less_divisor)
  have "8 * (n div 512) + n div 64 mod 8 = n div 64" "8 * (n div 64) + n div 8 mod 8 = n div 8"
    "8 * (n div 8) + n mod 8 = n"
    using mult_div_mod_eq [of 8 "n div 64"] mult_div_mod_eq [of 8 "n div 8"]
    by (simp_all add: div_mult2_eq [symmetric])
  then show "read_octal (show_octal4 n) = n"
    using top by (simp add: read_octal_def show_octal4_def digit)
next
  show "list_all isdigit (show_octal4 n)" by (simp add: show_octal4_def)
qed

lemma digits_free:
  assumes "list_all isdigit s"
  shows "CHR '' '' \<notin> set s" "CHR '';'' \<notin> set s" "CHR ''='' \<notin> set s"
  using assms by (auto simp: list_all_iff isdigit_def char_code_def)

lemma takeWhile_free: "c \<notin> set a \<Longrightarrow> takeWhile (\<lambda>x. x \<noteq> c) (a @ c # b) = a"
    "c \<notin> set a \<Longrightarrow> dropWhile (\<lambda>x. x \<noteq> c) (a @ c # b) = c # b"
  by (induction a) auto

lemma split_facts:
  assumes "\<And>f. f \<in> set fs \<Longrightarrow> c \<notin> set f"
  shows "split_on c (concat (map (\<lambda>f. f @ [c]) fs)) = fs @ [[]]"
  using assms by (induction fs) (simp_all add: split_on_append_sep split_on_single)

lemma pad0_digits: "list_all isdigit (pad0 w n)"
  by (simp add: pad0_def show_nat_digits list_all_iff isdigit_def char_code_def) (use show_nat_digits [of n] in \<open>auto simp: list_all_iff isdigit_def char_code_def\<close>)

lemma stamp_digits: "0 \<le> tm_year tm \<Longrightarrow> list_all isdigit (show_int (tm_year tm) @ stamp_tail tm)"
  by (simp add: show_int_def stamp_tail_def pad0_digits show_nat_digits)

lemma mlsx_line_read:
  assumes "mlsx_format_line s name sp sz = Inr line" "0 \<le> tm_year (gmtime (st_mtime s))"
  shows "read_entry line =
    ([(''type'', mlsx_type_from_mode (st_mode s)),
      (''size'', show_nat (if is_dir_mode (st_mode s) then 0 else unat (st_size s))),
      (''modify'', mlsx_format_modify_time (st_mtime s)),
      (''unix.mode'', show_octal4 (unat (st_mode s AND 0xFFF)))], name)"
proof -
  let ?ty = "mlsx_type_from_mode (st_mode s)"
  let ?z = "show_nat (if is_dir_mode (st_mode s) then 0 else unat (st_size s))"
  let ?m = "mlsx_format_modify_time (st_mtime s)" and ?o = "show_octal4 (unat (st_mode s AND 0xFFF))"
  let ?fs = "[''type='' @ ?ty, ''size='' @ ?z, ''modify='' @ ?m, ''unix.mode='' @ ?o]"
  let ?facts = "concat (map (\<lambda>f. f @ '';'') ?fs)"
  have d: "list_all isdigit ?z" "list_all isdigit ?m" "list_all isdigit ?o"
    using stamp_digits [OF assms(2)]
    by (simp_all add: show_nat_digits show_octal4 mlsx_format_modify_time_def Let_def)
  have ty: "CHR '' '' \<notin> set ?ty" "CHR '';'' \<notin> set ?ty" by (simp_all add: mlsx_type_from_mode_def)
  note free = d [THEN digits_free(1)] d [THEN digits_free(2)] ty
  have line: "line = (if sp then '' '' else []) @ ?facts @ CHR '' '' # name @ CRLF"
    using assms(1) by (auto simp: mlsx_format_line_def Let_def split: if_splits)
  have body: "(if take 1 line = '' '' then drop 1 line else line) = ?facts @ CHR '' '' # name @ CRLF"
    by (simp add: line)
  have sf: "split_on (CHR '';'') ?facts = ?fs @ [[]]"
    by (rule split_facts) (use free in auto)
  have sp: "CHR '' '' \<notin> set ?facts" using free by auto
  show ?thesis
    unfolding read_entry_def body Let_def takeWhile_free [OF sp] sf
    by (simp add: read_fact_def butlast_append)
qed

section \<open>Properties\<close>

text \<open>
  C28: A client that reads a line of a machine listing gets the facts of the file back: the
  type and the name as they are, the size (0 for a directory) and the twelve mode bits as
  numbers, and from the time stamp the very second of the last change, for every time in
  the years 1000 to 9999.
\<close>

theorem mlsx_facts_round_trip:
  assumes "mlsx_format_line s name leading_space sz = Inr line"
    "1000 \<le> tm_year (gmtime (st_mtime s))" "tm_year (gmtime (st_mtime s)) \<le> 9999"
  shows "\<exists>size modify mode.
    read_entry line = ([(''type'', if is_dir_mode (st_mode s) then ''dir'' else ''file''), (''size'', size),
                        (''modify'', modify), (''unix.mode'', mode)], name) \<and>
    read_nat size = (if is_dir_mode (st_mode s) then 0 else unat (st_size s)) \<and>
    timegm (read_stamp modify) = st_mtime s \<and>
    read_octal mode = unat (st_mode s AND 0xFFF)"
proof -
  have "read_stamp (mlsx_format_modify_time (st_mtime s)) = gmtime (st_mtime s)"
    using read_stamp_correct [of "gmtime (st_mtime s)"] gmtime_correct assms(2,3)
    by (simp add: mlsx_format_modify_time_def Let_def show_int_def)
  moreover have "unat (st_mode s AND 0xFFF) < 4096"
    using word_and_le1 [of "st_mode s" "0xFFF"] by (simp add: word_le_nat_alt)
  ultimately show ?thesis
    using mlsx_line_read [OF assms(1)] assms(2) gmtime_correct
    by (simp add: show_octal4 mlsx_type_from_mode_def)
qed

section \<open>Witnesses\<close>

theorem mlsx_facts_round_trip_witness:
  "\<exists>line size modify mode.
    mlsx_format_line \<lparr>st_mode = 0x81A4, st_size = 1234, st_mtime = 86400\<rparr> ''a b'' False 512 = Inr line \<and>
    read_entry line = ([(''type'', ''file''), (''size'', size), (''modify'', modify), (''unix.mode'', mode)], ''a b'') \<and>
    read_nat size = 1234 \<and> timegm (read_stamp modify) = 86400 \<and> read_octal mode = 420"
proof -
  let ?s = "\<lparr>st_mode = 0x81A4, st_size = 1234, st_mtime = 86400\<rparr>"
  have "mlsx_format_line ?s ''a b'' False 512 =
      Inr (''type=file;size=1234;modify=19700102000000;unix.mode=0644; a b'' @ CRLF)"
    by code_simp
  moreover have "tm_year (gmtime 86400) = 1970" by code_simp
  moreover have "\<not> is_dir_mode 0x81A4" by code_simp
  ultimately show ?thesis
    using mlsx_facts_round_trip [of ?s "''a b''" False 512] by simp
qed

end
