(* ===== verification/File_Trace.thy ===== *)
theory File_Trace
  imports Ftp_Contract
begin

text \<open>
  Calls on an open file, read off the trace: the position of the file, what the calls say
  about its contents, and the bytes that reach the peer of a socket.
\<close>

section \<open>The file behind a descriptor\<close>

text \<open>
  \<open>file_trace F fd p t\<close>: the calls of \<open>t\<close> on \<open>fd\<close> behave as on a regular file with contents
  \<open>F\<close> and file position \<open>p\<close>.  Its size is the length of \<open>F\<close>, a read returns the bytes at the
  position and advances it, a seek to an offset succeeds, an \<open>open\<close> starts at 0, and \<open>sendfile\<close> with an offset sends no
  bytes past the end and leaves the position alone.
\<close>

fun ev_pos :: "int \<Rightarrow> nat \<Rightarrow> event \<Rightarrow> nat" where
  "ev_pos fd p (c, r) =
    (case c of
       Sys_read f _ \<Rightarrow> if f = fd then p + nat (r_ret r) else p
     | Sys_lseek f off \<Rightarrow> if f = fd then nat off else p
     | Sys_open _ _ _ \<Rightarrow> if r_ret r = fd then 0 else p
     | _ \<Rightarrow> p)"

fun ev_file :: "byte list \<Rightarrow> int \<Rightarrow> nat \<Rightarrow> event \<Rightarrow> bool" where
  "ev_file F fd p (c, r) \<longleftrightarrow>
    (case c of
       Sys_read f _ \<Rightarrow> f = fd \<and> 0 < r_ret r \<longrightarrow> r_data r = take (nat (r_ret r)) (drop p F)
     | Sys_lseek f off \<Rightarrow> f = fd \<longrightarrow> r_ret r = off
     | Sys_fstat f \<Rightarrow> f = fd \<longrightarrow> unat (st_size (r_stat r)) = length F
     | Sys_sendfile _ f off _ \<Rightarrow> f = fd \<and> 0 < r_ret r \<longrightarrow> nat off + nat (r_ret r) \<le> length F
     | _ \<Rightarrow> True)"

definition file_pos :: "int \<Rightarrow> nat \<Rightarrow> event list \<Rightarrow> nat" where
  "file_pos fd p t = foldl (ev_pos fd) p t"

fun file_trace :: "byte list \<Rightarrow> int \<Rightarrow> nat \<Rightarrow> event list \<Rightarrow> bool" where
  "file_trace F fd p [] \<longleftrightarrow> True"
| "file_trace F fd p (e # t) \<longleftrightarrow> ev_file F fd p e \<and> file_trace F fd (ev_pos fd p e) t"

text \<open>The bytes the peer of \<open>sock\<close> gets, where \<open>sendfile\<close> takes them from \<open>F\<close>.\<close>

fun ev_delivered :: "byte list \<Rightarrow> int \<Rightarrow> int \<Rightarrow> event \<Rightarrow> byte list" where
  "ev_delivered F sock fd (c, r) =
    (case c of
       Sys_sendfile s f off _ \<Rightarrow> if s = sock \<and> f = fd then take (nat (r_ret r)) (drop (nat off) F) else []
     | _ \<Rightarrow> ev_sent sock (c, r))"

definition delivered :: "byte list \<Rightarrow> int \<Rightarrow> int \<Rightarrow> event list \<Rightarrow> byte list" where
  "delivered F sock fd t = concat (map (ev_delivered F sock fd) t)"

lemma file_simps [simp]:
  "file_pos fd p [] = p" "file_pos fd p (e # t) = file_pos fd (ev_pos fd p e) t"
  "file_pos fd p (t @ u) = file_pos fd (file_pos fd p t) u"
  "delivered F sock fd [] = []" "delivered F sock fd (e # t) = ev_delivered F sock fd e @ delivered F sock fd t"
  "delivered F sock fd (t @ u) = delivered F sock fd t @ delivered F sock fd u"
  by (simp_all add: file_pos_def delivered_def)

lemma file_trace_append [simp]:
  "file_trace F fd p (t @ u) \<longleftrightarrow> file_trace F fd p t \<and> file_trace F fd (file_pos fd p t) u"
  by (induction t arbitrary: p) simp_all

text \<open>Events that have nothing to do with the file and send nothing.\<close>

definition idle :: "int \<Rightarrow> int \<Rightarrow> event list \<Rightarrow> bool" where
  "idle sock fd t \<longleftrightarrow>
    neutral t \<and> (\<forall>F p. delivered F sock fd t = [] \<and> file_pos fd p t = p)"

lemma idle_simps [simp]: "idle sock fd []" "idle sock fd t \<Longrightarrow> idle sock fd u \<Longrightarrow> idle sock fd (t @ u)"
  by (simp_all add: idle_def neutral_append)

lemma idleD:
  assumes "idle sock fd t"
  shows "neutral t" "delivered F sock fd t = []" "file_pos fd p t = p"
  using assms by (simp_all add: idle_def)

lemma quiet_file: "quiet e \<Longrightarrow> ev_delivered F sock fd e = [] \<and> ev_pos fd p e = p"
  by (cases e) (simp add: quiet_def split: syscall.splits)

lemma quiet_idle: "list_all quiet t \<Longrightarrow> idle sock fd t"
  unfolding idle_def
  by (rule conjI [OF quiet_neutral], assumption, induction t) (simp_all add: quiet_file)

lemma sends_file: "sends fd' e \<Longrightarrow> ev_delivered F sock fd e = ev_sent sock e \<and> ev_pos fd p e = p"
  using quiet_file [of e F sock fd p] quiet_moves_nothing [of e sock]
  by (cases e) (auto simp: sends_def split: syscall.splits)

lemma sends_trace:
  assumes "list_all (sends fd') t"
  shows "delivered F sock fd t = sent_to sock t" "file_pos fd p t = p"
proof -
  have "delivered F sock fd t = sent_to sock t \<and> file_pos fd p t = p"
    using assms
  proof (induction t)
    case (Cons e t)
    then show ?case using sends_file [of fd' e F sock fd p] by simp
  qed simp
  then show "delivered F sock fd t = sent_to sock t" "file_pos fd p t = p" by simp_all
qed

lemma still_trace_file:
  assumes "list_all (\<lambda>e. ev_paths e = [] \<and> \<not> ev_moves e) t"
  shows "delivered F sock fd t = []" "file_pos fd p t = p"
proof -
  have one: "ev_delivered F sock fd e = [] \<and> ev_pos fd p e = p"
    if "ev_paths e = []" "\<not> ev_moves e" for e
    using that by (cases e) (simp split: syscall.splits)
  have "delivered F sock fd t = [] \<and> file_pos fd p t = p"
    using assms by (induction t) (simp_all add: one)
  then show "delivered F sock fd t = []" "file_pos fd p t = p" by simp_all
qed

lemma sends_elsewhere: "list_all (sends fd) t \<Longrightarrow> sock \<noteq> fd \<Longrightarrow> sent_to sock t = []"
proof (induction t)
  case (Cons e t)
  then show ?case using quiet_moves_nothing [of e sock]
    by (cases e) (auto simp: sends_def split: syscall.splits)
qed simp

end
