(* ===== verification/Ftp_Cmd_Retr.thy ===== *)
theory Ftp_Cmd_Retr
  imports File_Trace
begin

text \<open>
  Model of \<open>cmd_RETR\<close> of \<^verbatim>\<open>src/src/ftp_commands.c\<close>: the download of a file, which
  alternates between \<open>sendfile\<close> and a read loop.  The hints to the page cache
  (\<open>posix_fadvise\<close>) change no behaviour and are left out, as is logging.
\<close>

section \<open>Definitions\<close>

text \<open>The local variables of the transfer loop.\<close>

record retr =
  rt_node :: vfs_node
  rt_offset :: int
  remaining :: nat
  rt_sent :: "64 word"
  use_sendfile :: bool
  rt_buf :: "nat option"

text \<open>Account for \<open>n\<close> bytes sent by \<open>sendfile\<close>.\<close>

definition sf_account :: "'w os \<Rightarrow> int \<Rightarrow> retr \<Rightarrow> 'w st \<Rightarrow> (retr \<times> 'w st) ret" where
  "sf_account os n rt st = do {
     let rt = rt\<lparr>remaining := remaining rt - nat n, rt_sent := rt_sent rt + of_int n\<rparr>;
     (_, st) \<leftarrow> touch os st;
     Some (rt, upd (\<lambda>s. s\<lparr>stats := (stats s)\<lparr>bytes_sent := bytes_sent (stats s) + of_int n\<rparr>\<rparr>) st) }"

definition sf_call :: "'w os \<Rightarrow> retr \<Rightarrow> 'w st \<Rightarrow> ((int \<times> retr) \<times> 'w st) ret" where
  "sf_call os rt st = do {
     ((sent, off), st) \<leftarrow> pal_sendfile os (data_fd (sess st)) (vn_fd (rt_node rt)) (rt_offset rt)
       (if remaining rt > FTP_RETR_SENDFILE_CHUNK then FTP_RETR_SENDFILE_CHUNK else remaining rt) st;
     Some ((sent, rt\<lparr>rt_offset := off\<rparr>), st) }"

text \<open>\<open>k\<close> retries are left; an interrupted call is not counted.\<close>

partial_function (option) sf_retry ::
  "'w os \<Rightarrow> retr \<Rightarrow> nat \<Rightarrow> 'w st \<Rightarrow> ((bool \<times> retr) \<times> 'w st) ret" where
  "sf_retry os rt k st =
    (if k = 0 then Some ((False, rt), st)
     else do {
       (_, st) \<leftarrow> syscall os (Sys_usleep FTP_SENDFILE_EAGAIN_SLEEP_US) st;
       ((r_sent, rt), st) \<leftarrow> sf_call os rt st;
       if r_sent > 0 then do {
         (rt, st) \<leftarrow> sf_account os r_sent rt st;
         Some ((True, rt), st) }
       else if r_sent < 0 \<and> errno st = EINTR then sf_retry os rt k st
       else sf_retry os rt (k - 1) st })"

definition sync_offset :: "'w os \<Rightarrow> bool \<Rightarrow> retr \<Rightarrow> 'w st \<Rightarrow> (retr \<times> 'w st) ret" where
  "sync_offset os sf rt st = do {
     (node, st) \<leftarrow> vfs_set_offset os (rt_node rt) (of_int (rt_offset rt)) st;
     Some (rt\<lparr>rt_node := node, use_sendfile := sf\<rparr>, st) }"

partial_function (option) sf_burst ::
  "'w os \<Rightarrow> bool \<Rightarrow> retr \<Rightarrow> 'w st \<Rightarrow> (retr \<times> 'w st) ret" where
  "sf_burst os sf_sent_any rt st =
    (if remaining rt = 0 then Some (rt, st)
     else do {
       ((sent, rt), st) \<leftarrow> sf_call os rt st;
       if sent > 0 then do {
         (rt, st) \<leftarrow> sf_account os sent rt st;
         sf_burst os True rt st }
       else if sent < 0 \<and> errno st = EINTR then sf_burst os sf_sent_any rt st
       else if sent < 0 \<and> (errno st = EIO \<or> errno st = ESTALE \<or> errno st = EBADF \<or> errno st = EFAULT)
       then sync_offset os False rt st
       else do {
         ((recovered, rt), st) \<leftarrow> sf_retry os rt FTP_SENDFILE_EAGAIN_RETRIES st;
         if recovered then sf_burst os True rt st
         else sync_offset os (sf_sent_any \<and> use_sendfile rt) rt st } })"

text \<open>The read loop; the result says whether it failed.\<close>

definition read_want :: "retr \<Rightarrow> nat \<Rightarrow> nat" where
  "read_want rt cooldown_left =
    (let want = (if remaining rt < ftp_buffer_size then remaining rt else ftp_buffer_size)
     in if want > cooldown_left then cooldown_left else want)"

partial_function (option) read_loop ::
  "'w os \<Rightarrow> retr \<Rightarrow> nat \<Rightarrow> 'w st \<Rightarrow> ((bool \<times> retr) \<times> 'w st) ret" where
  "read_loop os rt cooldown_left st =
    (if remaining rt = 0 \<or> cooldown_left = 0 then Some ((False, rt), st)
     else do {
       ((n, bs, node), st) \<leftarrow> vfs_read os (rt_node rt) (read_want rt cooldown_left) st;
       let rt = rt\<lparr>rt_node := node\<rparr>;
       if n \<le> 0 then
         if n < 0 \<and> errno st = EINTR then read_loop os rt cooldown_left st
         else Some ((True, rt), st)
       else do {
         (sent, st) \<leftarrow> ftp_session_send_data os bs st;
         if sent \<noteq> n then Some ((True, rt\<lparr>remaining := 1\<rparr>), st)
         else do {
           let rt = rt\<lparr>rt_sent := rt_sent rt + of_int sent, remaining := remaining rt - nat n\<rparr>;
           (_, st) \<leftarrow> touch os st;
           read_loop os rt (cooldown_left - nat n) st } } })"

text \<open>The phases of one round of the transfer loop: \<open>sendfile\<close>, the buffer, reading.\<close>

definition sf_phase :: "'w os \<Rightarrow> retr \<Rightarrow> 'w st \<Rightarrow> (retr \<times> 'w st) ret" where
  "sf_phase os rt st =
    (if use_sendfile rt then do {
       (_, st) \<leftarrow> pal_socket_cork os (data_fd (sess st)) st;
       (rt, st) \<leftarrow> sf_burst os False rt st;
       (_, st) \<leftarrow> pal_socket_uncork os (data_fd (sess st)) st;
       Some (rt, st) }
     else Some (rt, st))"

definition buf_phase :: "retr \<Rightarrow> 'w st \<Rightarrow> (retr \<times> 'w st) ret" where
  "buf_phase rt st =
    (if rt_buf rt = None then do {
       (b, st) \<leftarrow> ftp_buffer_acquire st;
       Some (rt\<lparr>rt_buf := b\<rparr>, st) }
     else Some (rt, st))"

definition read_phase :: "'w os \<Rightarrow> nat \<Rightarrow> retr \<Rightarrow> 'w st \<Rightarrow> ((bool \<times> retr) \<times> 'w st) ret" where
  "read_phase os file_size rt st = do {
     let can_retry_sf = (vn_sendfile (rt_node rt) \<and> use_sendfile rt \<and> rt_sent rt > 0 \<and>
                         remaining rt > SENDFILE_COOLDOWN_BYTES);
     (_, st) \<leftarrow> pal_socket_cork os (data_fd (sess st)) st;
     ((read_error, rt), st) \<leftarrow>
       read_loop os rt (if can_retry_sf then SENDFILE_COOLDOWN_BYTES else remaining rt) st;
     (_, st) \<leftarrow> pal_socket_uncork os (data_fd (sess st)) st;
     Some ((read_error,
            if \<not> read_error \<and> can_retry_sf \<and> remaining rt > 0
            then rt\<lparr>use_sendfile := True, rt_offset := int file_size - int (remaining rt)\<rparr> else rt), st) }"

partial_function (option) retr_loop ::
  "'w os \<Rightarrow> nat \<Rightarrow> retr \<Rightarrow> 'w st \<Rightarrow> (retr \<times> 'w st) ret" where
  "retr_loop os file_size rt st =
    (if remaining rt = 0 then Some (rt, st)
     else do {
       (rt, st) \<leftarrow> sf_phase os rt st;
       if remaining rt = 0 then Some (rt, st)
       else do {
         (rt, st) \<leftarrow> buf_phase rt st;
         if rt_buf rt = None then Some (rt\<lparr>remaining := 1\<rparr>, st)
         else do {
           ((read_error, rt), st) \<leftarrow> read_phase os file_size rt st;
           if read_error then Some (rt, st) else retr_loop os file_size rt st } } })"

text \<open>The transfer and its clean-up: what follows the opening of the data connection.\<close>

definition retr_transfer :: "'w os \<Rightarrow> vfs_node \<Rightarrow> int \<Rightarrow> 'w st \<Rightarrow> (ftp_error \<times> 'w st) ret" where
  "retr_transfer os node offset st = do {
     let file_size = unat (vn_size node);
     let rt = \<lparr>rt_node = node, rt_offset = offset, remaining = file_size - nat offset, rt_sent = 0,
               use_sendfile = (vn_sendfile node \<and> FTP_TRANSFER_RATE_LIMIT_BPS = 0 \<and>
                               active (crypto (sess st)) = 0),
               rt_buf = None\<rparr>;
     (rt, st) \<leftarrow> retr_loop os file_size rt st;
     let st = ftp_buffer_release (rt_buf rt) st;
     (_, st) \<leftarrow> vfs_close os (rt_node rt) st;
     (_, st) \<leftarrow> ftp_session_close_data_connection os st;
     let st = upd (\<lambda>s. s\<lparr>restart_offset := 0\<rparr>) st;
     if remaining rt = 0 then do {
       let st = upd (\<lambda>s. s\<lparr>stats := (stats s)\<lparr>files_sent := files_sent (stats s) + 1\<rparr>\<rparr>) st;
       (_, st) \<leftarrow> syscall os Sys_clock st;
       ftp_session_send_reply os R226_TRANSFER_COMPLETE None st }
     else ftp_session_send_reply os R426_TRANSFER_ABORTED (Some ''Transfer failed.'') st }"

definition cmd_RETR :: "'w handler" where
  "cmd_RETR os args st =
    (case args of
       None \<Rightarrow> Some (FTP_ERR_INVALID_PARAM, st)
     | Some a \<Rightarrow> do {
         (r, st) \<leftarrow> ftp_path_resolve os a FTP_PATH_MAX st;
         case r of
           Inl _ \<Rightarrow> ftp_session_send_reply os R550_FILE_ERROR (Some ''Invalid path.'') st
         | Inr resolved \<Rightarrow> do {
             (n, st) \<leftarrow> vfs_open os resolved st;
             case n of
               Inl _ \<Rightarrow> ftp_session_send_reply os R550_FILE_ERROR (Some ''Cannot open file.'') st
             | Inr node \<Rightarrow> do {
                 (s, st) \<leftarrow> vfs_stat os resolved st;
                 if (case s of Inl _ \<Rightarrow> False | Inr s \<Rightarrow> \<not> is_reg_mode (st_mode s)) then do {
                   (_, st) \<leftarrow> vfs_close os node st;
                   let st = upd (\<lambda>s. s\<lparr>restart_offset := 0\<rparr>) st;
                   ftp_session_send_reply os R550_FILE_ERROR (Some ''Not a regular file.'') st }
                 else do {
                   let offset = restart_offset (sess st);
                   if offset < 0 \<or> offset > int (unat (vn_size node)) then do {
                     (_, st) \<leftarrow> vfs_close os node st;
                     let st = upd (\<lambda>s. s\<lparr>restart_offset := 0\<rparr>) st;
                     ftp_session_send_reply os R550_FILE_ERROR (Some ''Invalid offset.'') st }
                   else do {
                     (node, st) \<leftarrow> vfs_set_offset os node (of_int offset) st;
                     (_, st) \<leftarrow> ftp_session_send_reply os R150_FILE_OK None st;
                     (err, st) \<leftarrow> ftp_session_open_data_connection os st;
                     if err \<noteq> FTP_OK then do {
                       (_, st) \<leftarrow> vfs_close os node st;
                       ftp_session_send_reply os R425_CANT_OPEN_DATA None st }
                     else retr_transfer os node offset st } } } } })"

section \<open>The transfer loops\<close>

text \<open>
  \<open>progress\<close>: the events \<open>t\<close> took the transfer from \<open>rt\<close> to \<open>rt'\<close> by delivering the
  encryption of the bytes in between.
\<close>

definition progress ::
  "byte list \<Rightarrow> int \<Rightarrow> int \<Rightarrow> nat \<Rightarrow> retr \<Rightarrow> retr \<Rightarrow> ftp_crypto_ctx \<Rightarrow> event list \<Rightarrow> ftp_crypto_ctx \<Rightarrow> bool" where
  "progress F sock fd p rt rt' c t c' \<longleftrightarrow>
    neutral t \<and> vn_fd (rt_node rt') = fd \<and> rt_buf rt' = rt_buf rt \<and> remaining rt' \<le> remaining rt \<and>
    moved (remaining rt - remaining rt') c c' \<and>
    (file_trace F fd p t \<longrightarrow>
      delivered F sock fd t =
        fst (cipher c (take (remaining rt - remaining rt') (drop (length F - remaining rt) F))))"

lemma progress_refl: "idle sock fd t \<Longrightarrow> vn_fd (rt_node rt) = fd \<Longrightarrow> progress F sock fd p rt rt c t c"
  by (simp add: progress_def idleD)

lemma progress_trans:
  assumes "progress F sock fd p rt rt1 c t c1" "progress F sock fd (file_pos fd p t) rt1 rt2 c1 u c2"
    "crypto_ok c" "remaining rt \<le> length F"
  shows "progress F sock fd p rt rt2 c (t @ u) c2"
proof -
  let ?r = "remaining rt" and ?r1 = "remaining rt1" and ?r2 = "remaining rt2"
  let ?a = "take (?r - ?r1) (drop (length F - ?r) F)" and ?b = "take (?r1 - ?r2) (drop (length F - ?r1) F)"
  have le: "?r2 \<le> ?r1" "?r1 \<le> ?r" and mv: "moved (?r - ?r1) c c1" "moved (?r1 - ?r2) c1 c2"
    using assms(1,2) by (auto simp: progress_def)
  have n: "(?r - ?r1) + (?r1 - ?r2) = ?r - ?r2" using le by simp
  have "length ?a = ?r - ?r1" using assms(4) by simp
  then have ap: "fst (cipher c (?a @ ?b)) = fst (cipher c ?a) @ fst (cipher c1 ?b)"
    using moved_append [OF assms(3), of ?a c1 ?b] mv by simp
  have "?a @ ?b = take (?r - ?r2) (drop (length F - ?r) F)"
    using take_add [of "?r - ?r1" "?r1 - ?r2" "drop (length F - ?r) F"] le assms(4) n
    by (simp add: add.commute)
  then show ?thesis
    using assms(1,2) moved_trans [OF mv] n ap by (auto simp: progress_def neutral_append)
qed

lemma progress_idle:
  assumes "progress F sock fd p rt rt1 c t c1" "idle sock fd u"
  shows "progress F sock fd p rt rt1 c (t @ u) c1"
  using assms by (simp add: progress_def idleD neutral_append)

lemma idle_progress:
  assumes "progress F sock fd p rt rt1 c t c1" "idle sock fd u"
  shows "progress F sock fd p rt rt1 c (u @ t) c1"
  using assms by (simp add: progress_def idleD neutral_append)

lemma post_sf_call [wp]:
  assumes sat: "os_sat os posix"
    and "\<And>n w e t. n \<le> 0 \<Longrightarrow> idle (data_fd (sess st)) (vn_fd (rt_node rt)) t \<Longrightarrow> Q (n, rt) (adv w e t st)"
    and "\<And>r w e n. 0 < r_ret r \<Longrightarrow> nat (r_ret r) \<le> remaining rt \<Longrightarrow> 0 \<le> rt_offset rt \<Longrightarrow>
      Q (r_ret r, rt\<lparr>rt_offset := rt_offset rt + r_ret r\<rparr>)
        (adv w e [(Sys_sendfile (data_fd (sess st)) (vn_fd (rt_node rt)) (rt_offset rt) n, r)] st)"
  shows "post (sf_call os rt st) Q"
proof -
  have [simp]: "rt\<lparr>rt_offset := rt_offset rt\<rparr> = rt" by simp
  have fail: "idle sock fd [(Sys_sendfile s f off n, r)]" if "\<not> 0 < r_ret r" for s f off n r sock fd
    using that by (simp add: idle_def neutral_Cons)
  show ?thesis
    unfolding sf_call_def pal_sendfile_def set_errno_def
    apply (intro post_syscall_sat [OF sat] wp)
    apply (auto simp: posix_def split: if_splits intro!: assms fail)
    using assms(2) [of 0 "[]" "world st" "errno st"] by simp
qed

lemma post_sf_account [wp]:
  assumes "\<And>w e t v. list_all quiet t \<Longrightarrow> fst (snd (snd v)) = crypto (sess st) \<Longrightarrow>
    Q (rt\<lparr>remaining := remaining rt - nat n, rt_sent := rt_sent rt + of_int n\<rparr>) (adv w e t (upd (vol v) st))"
  shows "post (sf_account os n rt st) Q"
proof -
  have Q: "Q (rt\<lparr>remaining := remaining rt - nat n, rt_sent := rt_sent rt + of_int n\<rparr>) (adv w e t (upd f st))"
    if "list_all quiet t" "f (sess st) = vol (vol_of (f (sess st))) (sess st)" "crypto (f (sess st)) = crypto (sess st)"
    for w e t f
    unfolding upd_volI [of f st, OF that(2)] using that by (intro assms) simp_all
  show ?thesis
    unfolding sf_account_def by (intro wp) (simp, rule Q; simp add: vol_def vol_of_def)
qed

text \<open>What the \<open>sendfile\<close> loops do, with encryption off.\<close>

definition sf_inv :: "byte list \<Rightarrow> int \<Rightarrow> retr \<Rightarrow> bool" where
  "sf_inv F fd rt \<longleftrightarrow> vn_fd (rt_node rt) = fd \<and> remaining rt \<le> length F \<and>
     rt_offset rt = int (length F) - int (remaining rt)"

definition sf_to ::
  "byte list \<Rightarrow> int \<Rightarrow> int \<Rightarrow> retr \<Rightarrow> retr \<Rightarrow> ftp_crypto_ctx \<Rightarrow> event list \<Rightarrow> ftp_crypto_ctx \<Rightarrow> bool" where
  "sf_to F sock fd rt rt' c t c' \<longleftrightarrow> c' = c \<and> sf_inv F fd rt' \<and> (\<forall>p. progress F sock fd p rt rt' c t c)"

lemma sf_toD: "sf_to F sock fd rt rt' c t c' \<Longrightarrow> c' = c \<and> vn_fd (rt_node rt') = fd \<and> sf_inv F fd rt'"
  by (simp add: sf_to_def sf_inv_def)

lemma sf_to_refl: "sf_inv F fd rt \<Longrightarrow> idle sock fd t \<Longrightarrow> sf_to F sock fd rt rt c t c"
  by (simp add: sf_to_def progress_refl sf_inv_def)

lemma sf_to_trans:
  "sf_to F sock fd rt rt1 c t c \<Longrightarrow> sf_to F sock fd rt1 rt2 c u c2 \<Longrightarrow> crypto_ok c \<Longrightarrow> sf_inv F fd rt \<Longrightarrow>
   sf_to F sock fd rt rt2 c (t @ u) c2"
  by (auto simp: sf_to_def sf_inv_def intro: progress_trans)

lemma sf_to_step:
  assumes "sf_inv F fd rt" "active c = 0" "0 < r_ret r" "nat (r_ret r) \<le> remaining rt" "idle sock fd u" "idle sock fd u'"
  shows "sf_to F sock fd rt
    (rt\<lparr>rt_offset := rt_offset rt + r_ret r, remaining := remaining rt - nat (r_ret r), rt_sent := x\<rparr>) c
    (u @ (Sys_sendfile sock fd (rt_offset rt) n, r) # u') c"
proof -
  have off: "nat (rt_offset rt) = length F - remaining rt" "0 \<le> rt_offset rt" using assms(1) by (auto simp: sf_inv_def)
  have "neutral (u @ (Sys_sendfile sock fd (rt_offset rt) n, r) # u')"
    using assms(5,6) by (auto simp: idleD intro!: neutral_append neutral_Cons)
  then show ?thesis
    using assms off
    by (auto simp: sf_to_def sf_inv_def progress_def moved_def cipher_def idleD)
qed

lemma usleep_idle: "idle sock fd [(Sys_usleep n, r)]" "idle sock fd t \<Longrightarrow> idle sock fd ((Sys_usleep n, r) # t)"
  by (simp_all add: idle_def neutral_Cons)

lemma sf_to_steps:
  assumes "sf_inv F fd rt" "active c = 0" "r_ret r = m" "0 < m" "nat m \<le> remaining rt" "idle sock fd u"
  shows "sf_to F sock fd rt (rt\<lparr>rt_offset := rt_offset rt + m, remaining := remaining rt - nat m, rt_sent := x\<rparr>) c
      ((Sys_sendfile sock fd (rt_offset rt) n, r) # u) c"
    "sf_to F sock fd rt (rt\<lparr>rt_offset := rt_offset rt + m, remaining := remaining rt - nat m, rt_sent := x\<rparr>) c
      ((Sys_usleep d, q) # (Sys_sendfile sock fd (rt_offset rt) n, r) # u) c"
  using sf_to_step [of F fd rt c r sock "[]" u x n] sf_to_step [of F fd rt c r sock "[(Sys_usleep d, q)]" u x n] assms
  by (simp_all add: usleep_idle)

lemma sf_to_idle: "sf_to F sock fd rt rt' c t c' \<Longrightarrow> idle sock fd u \<Longrightarrow> sf_to F sock fd rt rt' c (u @ t) c'"
  by (simp add: sf_to_def idle_progress)

lemma vol_adv_volI: "P t (fst (snd (snd v))) \<Longrightarrow> vol_adv P st (adv w e t (upd (vol v) st))"
  by (rule vol_advI) simp_all

lemma sf_retry_spec:
  assumes ret: "sf_retry os rt k st = Some ((b, rt'), st')" and sat: "os_sat os posix"
    and inv: "sf_inv F (vn_fd (rt_node rt)) rt" "active (crypto (sess st)) = 0"
  shows "vol_adv (sf_to F (data_fd (sess st)) (vn_fd (rt_node rt)) rt rt' (crypto (sess st))) st st'"
proof -
  let ?P = "\<lambda>os rt k st y.
    os_sat os posix \<and> sf_inv F (vn_fd (rt_node rt)) rt \<and> active (crypto (sess st)) = 0 \<longrightarrow>
    vol_adv (sf_to F (data_fd (sess st)) (vn_fd (rt_node rt)) rt (snd (fst y)) (crypto (sess st))) st (snd y)"
  have "?P os rt k st ((b, rt'), st')"
  proof (rule sf_retry.raw_induct [where P = ?P, OF _ ret], rule impI, goal_cases)
    case (1 loop os rt k st y)
    let ?Q = "\<lambda>st rt r. vol_adv (sf_to F (data_fd (sess st)) (vn_fd (rt_node rt)) rt (snd r) (crypto (sess st))) st"
    have IH: "post (loop os rt k st) (?Q st rt)"
      if "sf_inv F (vn_fd (rt_node rt)) rt" "active (crypto (sess st)) = 0" for rt k st
      using 1(1,3) that by (fastforce simp: post_def)
    have "post (Some y) (?Q st rt)"
      unfolding 1(2) [symmetric]
      apply (intro wp post_mono [OF IH])
      apply (use 1(3) in simp_all)
      subgoal by (simp add: vol_adv_refl sf_to_refl)
      subgoal by (erule vol_adv_adv, erule sf_to_idle) (simp add: usleep_idle)
      subgoal by (erule vol_adv_adv, erule sf_to_idle) (simp add: usleep_idle)
      subgoal by (auto intro!: vol_adv_volI sf_to_steps simp: quiet_idle)
      done
    then show ?case by (cases y) (simp add: post_def)
  qed
  then show ?thesis using sat inv by simp
qed

definition sf_end ::
  "byte list \<Rightarrow> int \<Rightarrow> int \<Rightarrow> retr \<Rightarrow> retr \<Rightarrow> ftp_crypto_ctx \<Rightarrow> event list \<Rightarrow> ftp_crypto_ctx \<Rightarrow> bool" where
  "sf_end F sock fd rt rt' c t c' \<longleftrightarrow> sf_to F sock fd rt rt' c t c' \<and>
    (remaining rt' = 0 \<or> (\<forall>p. file_pos fd p t = length F - remaining rt'))"

lemma sf_end_trans:
  assumes "sf_end F sock fd rt1 rt2 c u c2" "sf_to F sock fd rt rt1 c t c" "active c = 0" "sf_inv F fd rt"
  shows "sf_end F sock fd rt rt2 c (t @ u) c2"
  using assms sf_to_trans [of F sock fd rt rt1 c t rt2 u c2] by (auto simp: sf_end_def crypto_ok_def)

lemma sf_end_idle: "sf_end F sock fd rt rt' c u c' \<Longrightarrow> idle sock fd t \<Longrightarrow> sf_end F sock fd rt rt' c (t @ u) c'"
  by (auto simp: sf_end_def sf_to_idle)

lemma sf_end_sync:
  assumes "sf_inv F fd rt" "length F < 2 ^ 64" "idle sock fd u"
  shows "sf_end F sock fd rt (rt\<lparr>rt_node := (rt_node rt)\<lparr>vn_offset := x\<rparr>, use_sendfile := sf\<rparr>) c
    (u @ [(Sys_lseek fd (uint (word_of_int (rt_offset rt) :: 64 word)), r)]) c"
proof -
  have "rt_offset rt < 2 ^ 64" "0 \<le> rt_offset rt" using assms(1,2) by (auto simp: sf_inv_def)
  then have "uint (word_of_int (rt_offset rt) :: 64 word) = rt_offset rt" by (simp add: uint_word_of_int)
  then show ?thesis
    using assms(1,3) by (auto simp: sf_end_def sf_to_def sf_inv_def progress_def idleD neutral_Cons intro!: neutral_append)
qed

lemma sf_end_stall:
  assumes "sf_to F sock fd rt rt' c ta c'" "idle sock fd t" "sf_inv F fd rt" "active c = 0" "length F < 2 ^ 64"
  shows "sf_end F sock fd rt (rt'\<lparr>rt_node := (rt_node rt')\<lparr>vn_offset := x\<rparr>, use_sendfile := sf\<rparr>) c
    (t @ ta @ [(Sys_lseek (vn_fd (rt_node rt')) (uint (word_of_int (rt_offset rt') :: 64 word)), r)]) c'"
  using sf_toD [OF assms(1)] assms sf_end_sync [where u = "[]" and rt = rt']
  by (intro sf_end_idle [OF _ assms(2)] sf_end_trans [of F sock fd rt']) auto

lemma post_sync_offset [wp]:
  assumes "0 \<le> vn_fd (rt_node rt)"
    and "\<And>w e r. Q (rt\<lparr>rt_node := (rt_node rt)\<lparr>vn_offset := word_of_int (rt_offset rt)\<rparr>, use_sendfile := sf\<rparr>)
      (adv w e [(Sys_lseek (vn_fd (rt_node rt)) (uint (word_of_int (rt_offset rt) :: 64 word)), r)] st)"
  shows "post (sync_offset os sf rt st) Q"
  unfolding sync_offset_def vfs_set_offset_def pal_file_seek_def
  by (intro wp) (use assms in simp_all)

lemma sf_burst_spec:
  assumes ret: "sf_burst os b rt st = Some (rt', st')" and sat: "os_sat os posix"
    and inv: "sf_inv F (vn_fd (rt_node rt)) rt" "active (crypto (sess st)) = 0" "0 \<le> vn_fd (rt_node rt)"
    and F: "length F < 2 ^ 64"
  shows "vol_adv (sf_end F (data_fd (sess st)) (vn_fd (rt_node rt)) rt rt' (crypto (sess st))) st st'"
proof -
  let ?R = "\<lambda>rt st r. vol_adv (sf_end F (data_fd (sess st)) (vn_fd (rt_node rt)) rt r (crypto (sess st))) st"
  let ?ok = "\<lambda>rt st. sf_inv F (vn_fd (rt_node rt)) rt \<and> active (crypto (sess st)) = 0 \<and> 0 \<le> vn_fd (rt_node rt)"
  let ?P = "\<lambda>os b rt st y. os_sat os posix \<and> ?ok rt st \<longrightarrow> ?R rt st (fst y) (snd y)"
  have "?P os b rt st (rt', st')"
  proof (rule sf_burst.raw_induct [where P = ?P, OF _ ret], rule impI, goal_cases)
    case (1 loop os b rt st y)
    have IH: "post (loop os b rt st) (?R rt st)" if "?ok rt st" for b rt st
      using 1(1,3) that by (fastforce simp: post_def)
    have retry: "post (sf_retry os rt k st) Q"
      if "?ok rt st" "\<And>r rt' w e t v. sf_to F (data_fd (sess st)) (vn_fd (rt_node rt)) rt rt' (crypto (sess st)) t (fst (snd (snd v))) \<Longrightarrow>
        Q (r, rt') (adv w e t (upd (vol v) st))" for k rt st Q
      using 1(3) that by (intro postI) (auto dest!: sf_retry_spec elim!: vol_advE)
    have "post (Some y) (?R rt st)"
      unfolding 1(2) [symmetric]
      apply (intro wp post_mono [OF IH] retry)
      apply (use 1(3) in simp_all)
      subgoal by (simp add: vol_adv_refl sf_end_def sf_to_refl)
      subgoal by (erule vol_adv_adv, erule sf_end_idle)
      subgoal by (rule vol_adv_advI, rule sf_end_sync) (use F in simp_all)
      subgoal by (auto simp: sf_to_def sf_inv_def)
      subgoal
        by (erule vol_adv_vol, frule sf_toD) (simp, rule sf_end_idle, erule sf_end_trans; simp)
      subgoal by (auto simp: sf_to_def sf_inv_def)
      subgoal by (rule vol_adv_volI, rule sf_end_stall) (use F in auto)
      subgoal by (auto simp: sf_inv_def)
      subgoal
        by (erule vol_adv_vol, simp, erule sf_end_trans [where t = "x # y" for x y, simplified])
           (auto simp: quiet_idle intro!: sf_to_steps)
      done
    then show ?case by (cases y) (simp add: post_def)
  qed
  then show ?thesis using sat inv by simp
qed

subsection \<open>The read loop\<close>

definition read_end ::
  "byte list \<Rightarrow> int \<Rightarrow> int \<Rightarrow> retr \<Rightarrow> nat \<Rightarrow> bool \<times> retr \<Rightarrow> ftp_crypto_ctx \<Rightarrow> event list \<Rightarrow> ftp_crypto_ctx \<Rightarrow> bool" where
  "read_end F sock fd rt left r c t c' \<longleftrightarrow>
    neutral t \<and> crypto_ok c' \<and> vn_fd (rt_node (snd r)) = fd \<and> rt_buf (snd r) = rt_buf rt \<and>
    (if fst r then remaining (snd r) \<noteq> 0
     else progress F sock fd (length F - remaining rt) rt (snd r) c t c' \<and>
          file_pos fd (length F - remaining rt) t = length F - remaining (snd r) \<and>
          remaining (snd r) = remaining rt - left)"

lemma read_end_idle:
  "read_end F sock fd rt left r c t c' \<Longrightarrow> idle sock fd u \<Longrightarrow> read_end F sock fd rt left r c (u @ t) c'"
  by (auto simp: read_end_def idleD neutral_append idle_progress)

lemma read_end_step:
  assumes "read_end F sock fd rt1 (left - n) r c1 u c'"
    "progress F sock fd (length F - remaining rt) rt rt1 c t c1"
    "file_pos fd (length F - remaining rt) t = length F - remaining rt1"
    "remaining rt1 = remaining rt - n" "n \<le> left" "crypto_ok c" "remaining rt \<le> length F"
  shows "read_end F sock fd rt left r c (t @ u) c'"
proof (cases "fst r")
  case True
  with assms show ?thesis by (auto simp: read_end_def progress_def neutral_append)
next
  case False
  then have "progress F sock fd (length F - remaining rt) rt (snd r) c (t @ u) c'"
    using assms by (intro progress_trans [of F sock fd _ rt rt1 c t c1]) (auto simp: read_end_def)
  with False assms show ?thesis by (auto simp: read_end_def progress_def neutral_append)
qed

lemma read_progress:
  assumes "nat n = length bs" "0 < n" "n = r_ret r" "bs = r_data r" "length bs \<le> remaining rt" "remaining rt \<le> length F"
    "list_all (sends sock) t" "list_all quiet u" "sent_to sock t = fst (cipher c bs)" "moved (length bs) c c'"
    "vn_fd (rt_node rt1) = fd" "rt_buf rt1 = rt_buf rt" "remaining rt1 = remaining rt - nat n"
  shows "progress F sock fd (length F - remaining rt) rt rt1 c ((Sys_read fd k, r) # t @ u) c'"
    "file_pos fd (length F - remaining rt) ((Sys_read fd k, r) # t @ u) = length F - remaining rt1"
proof -
  have "idle sock fd u" using assms(8) by (rule quiet_idle)
  then show "progress F sock fd (length F - remaining rt) rt rt1 c ((Sys_read fd k, r) # t @ u) c'"
    using assms sends_trace [OF assms(7)]
    by (auto simp: progress_def idleD neutral_append sends_neutral intro!: neutral_Cons)
  show "file_pos fd (length F - remaining rt) ((Sys_read fd k, r) # t @ u) = length F - remaining rt1"
    using assms sends_trace [OF assms(7)] \<open>idle sock fd u\<close> by (simp add: idleD)
qed

lemma read_want_le: "read_want rt left \<le> remaining rt" "read_want rt left \<le> left"
  by (simp_all add: read_want_def Let_def)

lemma post_vfs_read [wp]:
  assumes sat: "os_sat os posix"
    and "\<And>n bs w e t. n \<le> 0 \<Longrightarrow> idle (data_fd (sess st)) (vn_fd node) t \<Longrightarrow> Q (n, bs, node) (adv w e t st)"
    and "\<And>r w e. 0 < r_ret r \<Longrightarrow> r_ret r = int (length (r_data r)) \<Longrightarrow> length (r_data r) \<le> len \<Longrightarrow>
      Q (r_ret r, r_data r, node\<lparr>vn_offset := vn_offset node + word_of_int (r_ret r)\<rparr>)
        (adv w e [(Sys_read (vn_fd node) len, r)] st)"
  shows "post (vfs_read os node len st) Q"
  unfolding vfs_read_def pal_file_read_def set_errno_def
  by (intro post_syscall_sat [OF sat] wp)
     (auto simp: posix_def idle_def neutral_Cons intro!: assms)

lemma vol_touch: "vol (vol_of (vol v s\<lparr>last_activity := a\<rparr>)) s = vol v s\<lparr>last_activity := a\<rparr>"
  by (simp add: vol_def vol_of_def split: prod.split)

lemma read_loop_spec:
  assumes ret: "read_loop os rt left st = Some (r, st')" and sat: "os_sat os posix"
    and inv: "remaining rt \<le> length F" "crypto_ok (crypto (sess st))"
  shows "vol_adv (read_end F (data_fd (sess st)) (vn_fd (rt_node rt)) rt left r (crypto (sess st))) st st'"
proof -
  let ?R = "\<lambda>rt left st r. vol_adv (read_end F (data_fd (sess st)) (vn_fd (rt_node rt)) rt left r (crypto (sess st))) st"
  let ?P = "\<lambda>os rt left st y. os_sat os posix \<and> remaining rt \<le> length F \<and> crypto_ok (crypto (sess st)) \<longrightarrow>
    ?R rt left st (fst y) (snd y)"
  have "?P os rt left st (r, st')"
  proof (rule read_loop.raw_induct [where P = ?P, OF _ ret], rule impI, goal_cases)
    case (1 loop os rt left st y)
    have IH: "post (loop os rt left st) (?R rt left st)"
      if "remaining rt \<le> length F" "crypto_ok (crypto (sess st))" for rt left st
      using 1(1,3) that by (fastforce simp: post_def)
    have "post (Some y) (?R rt left st)"
      unfolding 1(2) [symmetric]
      apply (intro wp post_mono [OF IH])
      apply (use 1(3) in simp_all)
      subgoal by (auto intro!: vol_adv_refl simp: read_end_def progress_refl)
      subgoal by (erule vol_adv_adv, erule read_end_idle)
      subgoal by (auto intro!: vol_adv_advI dest: idleD(1) simp: read_end_def)
      subgoal for r by (cases "r_data r") auto
      subgoal by (auto intro!: vol_adv_volI neutral_Cons simp: read_end_def sends_neutral)
      subgoal by linarith
      subgoal for r n b y ra t v
        using read_want_le [of rt left]
        by (elim vol_adv_step, simp only: vol_touch)
           (erule read_end_step [OF _ read_progress [where n = n and r = r]]; auto)
      done
    then show ?case by (cases y) (simp add: post_def)
  qed
  then show ?thesis using sat inv by simp
qed

subsection \<open>The whole transfer\<close>

definition retr_adv :: "(event list \<Rightarrow> ftp_crypto_ctx \<Rightarrow> 64 word \<Rightarrow> bool) \<Rightarrow> 'w st \<Rightarrow> 'w st \<Rightarrow> bool" where
  "retr_adv P st st' \<longleftrightarrow>
    (\<exists>w e t v m. st' = adv w e t (set_pool m (upd (vol v) st)) \<and> P t (fst (snd (snd v))) m)"

lemma retr_advI: "P t (fst (snd (snd v))) m \<Longrightarrow> retr_adv P st (adv w e t (set_pool m (upd (vol v) st)))"
  unfolding retr_adv_def by blast

lemma retr_adv_step:
  assumes "retr_adv P' (adv w e t (set_pool m (upd (vol v) st))) st'" "\<And>t' c m. P' t' c m \<Longrightarrow> P (t @ t') c m"
  shows "retr_adv P st st'"
  using assms unfolding retr_adv_def by fastforce

lemma retr_adv_volI: "P t (fst (snd (snd v))) (pool st) \<Longrightarrow> retr_adv P st (adv w e t (upd (vol v) st))"
  using retr_advI [of P t v "pool st" st w e] by simp

lemma retr_adv_refl: "P [] (crypto (sess st)) (pool st) \<Longrightarrow> retr_adv P st st"
  using retr_adv_volI [of P "[]" "vol_of (sess st)" st "world st" "errno st"] by (simp add: upd_def)

definition retr_inv :: "byte list \<Rightarrow> retr \<Rightarrow> ftp_crypto_ctx \<Rightarrow> bool" where
  "retr_inv F rt c \<longleftrightarrow> 0 \<le> vn_fd (rt_node rt) \<and> crypto_ok c \<and> remaining rt \<le> length F \<and> length F < 2 ^ 64 \<and>
     (use_sendfile rt \<and> remaining rt \<noteq> 0 \<longrightarrow> active c = 0 \<and> rt_offset rt = int (length F) - int (remaining rt))"

definition retr_end ::
  "byte list \<Rightarrow> int \<Rightarrow> int \<Rightarrow> retr \<Rightarrow> retr \<Rightarrow> ftp_crypto_ctx \<Rightarrow> 64 word \<Rightarrow> event list \<Rightarrow> ftp_crypto_ctx \<Rightarrow> 64 word \<Rightarrow> bool" where
  "retr_end F sock fd rt rt' c m t c' m' \<longleftrightarrow>
    neutral t \<and> crypto_ok c' \<and> vn_fd (rt_node rt') = fd \<and>
    (rt_buf rt' = rt_buf rt \<and> m' = m \<or> rt_buf rt = None \<and> acquire_mask m = (rt_buf rt', m')) \<and>
    (remaining rt' = 0 \<longrightarrow> file_trace F fd (length F - remaining rt) t \<longrightarrow>
      delivered F sock fd t = fst (cipher c (drop (length F - remaining rt) F)))"

lemma retr_end_stop:
  assumes "neutral t" "crypto_ok c'" "vn_fd (rt_node rt') = fd" "remaining rt' \<noteq> 0"
    "rt_buf rt' = rt_buf rt \<and> m' = m \<or> rt_buf rt = None \<and> acquire_mask m = (rt_buf rt', m')"
  shows "retr_end F sock fd rt rt' c m t c' m'"
  using assms by (simp add: retr_end_def)

lemma retr_end_done:
  assumes "progress F sock fd (length F - remaining rt) rt rt' c t c'" "remaining rt' = 0" "crypto_ok c"
  shows "retr_end F sock fd rt rt' c m t c' m"
  using assms by (auto simp: retr_end_def progress_def intro: moved_ok)

lemma retr_end_progress:
  assumes "progress F sock fd (length F - remaining rt) rt rt1 c t c1"
    "file_pos fd (length F - remaining rt) t = length F - remaining rt1"
    "retr_end F sock fd rt1' rt2 c1 m1 u c2 m2" "remaining rt1' = remaining rt1"
    "rt_buf rt1' = rt_buf rt \<and> m1 = m \<or> rt_buf rt = None \<and> acquire_mask m = (rt_buf rt1', m1) \<and> rt_buf rt1' \<noteq> None"
    "crypto_ok c" "remaining rt \<le> length F"
  shows "retr_end F sock fd rt rt2 c m (t @ u) c2 m2"
proof -
  let ?r = "remaining rt" and ?r1 = "remaining rt1"
  let ?a = "take (?r - ?r1) (drop (length F - ?r) F)"
  have le: "?r1 \<le> ?r" and mv: "moved (?r - ?r1) c c1" and nt: "neutral t"
    and d: "file_trace F fd (length F - ?r) t \<longrightarrow> delivered F sock fd t = fst (cipher c ?a)"
    using assms(1) by (auto simp: progress_def)
  have la: "length ?a = ?r - ?r1" using assms(7) by simp
  have "?a @ drop (length F - ?r1) F = drop (length F - ?r) F"
    using append_take_drop_id [of "?r - ?r1" "drop (length F - ?r) F"] le assms(7) by (simp add: add.commute)
  then have whole: "fst (cipher c (drop (length F - ?r) F)) = fst (cipher c ?a) @ fst (cipher c1 (drop (length F - ?r1) F))"
    using moved_append [OF assms(6), of ?a c1] mv la by metis
  have buf: "rt_buf rt2 = rt_buf rt \<and> m2 = m \<or> rt_buf rt = None \<and> acquire_mask m = (rt_buf rt2, m2)"
    using assms(3,5) unfolding retr_end_def by metis
  show ?thesis
    unfolding retr_end_def whole file_trace_append file_simps assms(2)
    using assms(3,4) d nt buf by (simp add: retr_end_def neutral_append)
qed

lemma retr_end_idle:
  assumes "retr_end F sock fd rt rt' c m t c' m'" "idle sock fd u"
  shows "retr_end F sock fd rt rt' c m (u @ t) c' m'" "retr_end F sock fd rt rt' c m (t @ u) c' m'"
  using assms by (auto simp: retr_end_def idleD neutral_append)

lemma progress_around:
  "progress F sock fd p rt rt' c t c' \<Longrightarrow> idle sock fd u \<Longrightarrow> idle sock fd u' \<Longrightarrow>
   progress F sock fd p rt rt' c (u @ t @ u') c'"
  by (intro idle_progress progress_idle)

lemma retr_end_round:
  assumes "progress F sock fd (length F - remaining rt) rt rt1 c t c1"
    "file_pos fd (length F - remaining rt) t = length F - remaining rt1"
    "progress F sock fd (length F - remaining rt1) (rt1\<lparr>rt_buf := b\<rparr>) rt2 c1 u c2"
    "file_pos fd (length F - remaining rt1) u = length F - remaining rt2"
    "retr_end F sock fd rt2 rt3 c2 m1 x c3 m2"
    "rt_buf rt1 = b \<and> m1 = m \<or> rt_buf rt1 = None \<and> acquire_mask m = (b, m1)" "b \<noteq> None"
    "crypto_ok c" "remaining rt \<le> length F"
  shows "retr_end F sock fd rt rt3 c m ((t @ u) @ x) c3 m2"
proof -
  have "retr_end F sock fd (rt1\<lparr>rt_buf := b\<rparr>) rt3 c1 m1 (u @ x) c3 m2"
    using retr_end_progress [of F sock fd "rt1\<lparr>rt_buf := b\<rparr>" rt2 c1 u c2 rt2 rt3 m1 x c3 m2 m1] assms
    by (auto simp: progress_def intro: moved_ok)
  from retr_end_progress [OF assms(1,2) this] show ?thesis
    using assms by (auto simp: progress_def)
qed

lemma post_sf_phase:
  assumes sat: "os_sat os posix" and inv: "retr_inv F rt (crypto (sess st))" "remaining rt \<noteq> 0"
    and Q: "\<And>rt' w e t v. progress F (data_fd (sess st)) (vn_fd (rt_node rt)) (length F - remaining rt) rt rt'
          (crypto (sess st)) t (fst (snd (snd v))) \<Longrightarrow>
        retr_inv F rt' (fst (snd (snd v))) \<Longrightarrow>
        remaining rt' = 0 \<or> file_pos (vn_fd (rt_node rt)) (length F - remaining rt) t = length F - remaining rt' \<Longrightarrow>
        Q rt' (adv w e t (upd (vol v) st))"
  shows "post (sf_phase os rt st) Q"
proof -
  have burst: "post (sf_burst os b rt (adv w e t st)) Q"
    if "use_sendfile rt"
      "\<And>rt' w' e' t' v. sf_end F (data_fd (sess st)) (vn_fd (rt_node rt)) rt rt' (crypto (sess st)) t' (fst (snd (snd v))) \<Longrightarrow>
         Q rt' (adv w' e' (t @ t') (upd (vol v) st))" for b w e t Q
    using that sat inv unfolding retr_inv_def
    by (intro postI) (auto simp: sf_inv_def dest!: sf_burst_spec [where F = F] elim!: vol_advE)
  have Q0: "Q rt st" if "\<not> use_sendfile rt"
    using Q [of rt "[]" "vol_of (sess st)" "world st" "errno st"] inv that
    by (simp add: progress_refl upd_def)
  have Q1: "Q rt' (adv w e (t @ u @ t') (upd (vol v) st))"
    if "use_sendfile rt" "list_all quiet t" "list_all quiet t'"
      "sf_end F (data_fd (sess st)) (vn_fd (rt_node rt)) rt rt' (crypto (sess st)) u (fst (snd (snd v)))" for rt' w e t u t' v
  proof (rule Q)
    note i = quiet_idle [OF that(2)] quiet_idle [OF that(3)]
    show "progress F (data_fd (sess st)) (vn_fd (rt_node rt)) (length F - remaining rt) rt rt'
          (crypto (sess st)) (t @ u @ t') (fst (snd (snd v)))"
      using that(4) by (auto simp: sf_end_def sf_to_def intro!: progress_around i)
    show "retr_inv F rt' (fst (snd (snd v)))"
      using that(1,4) inv by (auto simp: retr_inv_def sf_end_def sf_to_def sf_inv_def)
    show "remaining rt' = 0 \<or> file_pos (vn_fd (rt_node rt)) (length F - remaining rt) (t @ u @ t') = length F - remaining rt'"
      using that(4) i by (auto simp: sf_end_def idleD)
  qed
  show ?thesis
    unfolding sf_phase_def by (intro wp burst) (simp_all add: Q0 Q1)
qed

lemma post_buf_phase:
  assumes "\<And>b m. rt_buf rt = b \<and> b \<noteq> None \<and> m = pool st \<or> rt_buf rt = None \<and> acquire_mask (pool st) = (b, m) \<Longrightarrow>
    Q (rt\<lparr>rt_buf := b\<rparr>) (set_pool m st)"
  shows "post (buf_phase rt st) Q"
proof -
  have "Q rt st" if "rt_buf rt \<noteq> None" using assms [of "rt_buf rt" "pool st"] that by simp
  then show ?thesis unfolding buf_phase_def by (intro wp assms) simp_all
qed

lemma post_read_phase:
  assumes sat: "os_sat os posix" and inv: "retr_inv F rt (crypto (sess st))" "n = length F" "remaining rt \<noteq> 0"
    and Q: "\<And>b rt' w e t v. neutral t \<Longrightarrow> crypto_ok (fst (snd (snd v))) \<Longrightarrow>
        vn_fd (rt_node rt') = vn_fd (rt_node rt) \<Longrightarrow> rt_buf rt' = rt_buf rt \<Longrightarrow>
        (if b then remaining rt' \<noteq> 0
         else retr_inv F rt' (fst (snd (snd v))) \<and>
           progress F (data_fd (sess st)) (vn_fd (rt_node rt)) (length F - remaining rt) rt rt'
             (crypto (sess st)) t (fst (snd (snd v))) \<and>
           file_pos (vn_fd (rt_node rt)) (length F - remaining rt) t = length F - remaining rt') \<Longrightarrow>
        Q (b, rt') (adv w e t (upd (vol v) st))"
  shows "post (read_phase os n rt st) Q"
proof -
  let ?sock = "data_fd (sess st)" and ?fd = "vn_fd (rt_node rt)"
  have read: "post (read_loop os rt left (adv w e t st)) Q"
    if "\<And>b rt' w' e' t' v. read_end F ?sock ?fd rt left (b, rt') (crypto (sess st)) t' (fst (snd (snd v))) \<Longrightarrow>
         Q (b, rt') (adv w' e' (t @ t') (upd (vol v) st))" for left w e t Q
    using that sat inv unfolding retr_inv_def
    by (intro postI) (auto dest!: read_loop_spec [where F = F] elim!: vol_advE)
  have Q1: "Q (b, if \<not> b \<and> sf \<and> 0 < remaining rt' then rt'\<lparr>use_sendfile := True, rt_offset := int n - int (remaining rt')\<rparr> else rt')
      (adv w e (t @ u @ t') (upd (vol v) st))"
    if q: "list_all quiet t" "list_all quiet t'" and sf: "sf \<Longrightarrow> use_sendfile rt"
      and r: "read_end F ?sock ?fd rt (if sf then SENDFILE_COOLDOWN_BYTES else remaining rt) (b, rt') (crypto (sess st)) u (fst (snd (snd v)))"
    for b rt' w e t u t' v sf
  proof (rule Q)
    note i = quiet_idle [OF q(1)] quiet_idle [OF q(2)]
    let ?rt = "if \<not> b \<and> sf \<and> 0 < remaining rt' then rt'\<lparr>use_sendfile := True, rt_offset := int n - int (remaining rt')\<rparr> else rt'"
    have [simp]: "rt_node ?rt = rt_node rt'" "rt_buf ?rt = rt_buf rt'" "remaining ?rt = remaining rt'" by simp_all
    show "neutral (t @ u @ t')" using r i by (simp add: read_end_def neutral_append idleD)
    show "crypto_ok (fst (snd (snd v)))" "vn_fd (rt_node ?rt) = ?fd" "rt_buf ?rt = rt_buf rt"
      using r by (simp_all add: read_end_def)
    show "if b then remaining ?rt \<noteq> 0
         else retr_inv F ?rt (fst (snd (snd v))) \<and>
           progress F ?sock ?fd (length F - remaining rt) rt ?rt (crypto (sess st)) (t @ u @ t') (fst (snd (snd v))) \<and>
           file_pos ?fd (length F - remaining rt) (t @ u @ t') = length F - remaining ?rt"
    proof (cases b)
      case True
      with r show ?thesis by (simp add: read_end_def)
    next
      case False
      then have p: "progress F ?sock ?fd (length F - remaining rt) rt rt' (crypto (sess st)) u (fst (snd (snd v)))"
        using r by (simp add: read_end_def)
      then have "progress F ?sock ?fd (length F - remaining rt) rt ?rt (crypto (sess st)) (t @ u @ t') (fst (snd (snd v)))"
        using progress_around [OF p i] by (simp add: progress_def)
      moreover have "retr_inv F ?rt (fst (snd (snd v)))"
        using False r p inv sf by (auto simp: read_end_def retr_inv_def progress_def moved_def)
      ultimately show ?thesis using False r i by (simp add: read_end_def idleD)
    qed
  qed
  show ?thesis
    unfolding read_phase_def
    by (intro wp read) (simp only: adv_adv upd_adv append_assoc prod.inject, elim conjE, hypsubst, rule Q1; simp)
qed

lemma retr_loop_spec:
  assumes ret: "retr_loop os n rt st = Some (rt', st')" and sat: "os_sat os posix"
    and inv: "retr_inv F rt (crypto (sess st))" and n: "n = length F"
  shows "retr_adv (retr_end F (data_fd (sess st)) (vn_fd (rt_node rt)) rt rt' (crypto (sess st)) (pool st)) st st'"
proof -
  let ?R = "\<lambda>rt st r. retr_adv (retr_end F (data_fd (sess st)) (vn_fd (rt_node rt)) rt r (crypto (sess st)) (pool st)) st"
  let ?P = "\<lambda>os n rt st y. os_sat os posix \<and> retr_inv F rt (crypto (sess st)) \<and> n = length F \<longrightarrow> ?R rt st (fst y) (snd y)"
  have "?P os n rt st (rt', st')"
  proof (rule retr_loop.raw_induct [where P = ?P, OF _ ret], rule impI, goal_cases)
    case (1 loop os n rt st y)
    have IH: "post (loop os n rt st) (?R rt st)" if "retr_inv F rt (crypto (sess st))" for rt st
      using 1(1,3) that by (fastforce simp: post_def)
    have sat: "os_sat os posix" and inv: "retr_inv F rt (crypto (sess st))" and n: "n = length F" using 1(3) by auto
    have "post (Some y) (?R rt st)"
      unfolding 1(2) [symmetric]
      apply (intro wp post_mono [OF IH] post_sf_phase [OF sat inv] post_buf_phase post_read_phase [where F = F, OF sat])
      apply (use 1(3) in simp_all)
      subgoal using inv by (auto intro!: retr_adv_refl retr_end_done progress_refl simp: retr_inv_def)
      subgoal using inv by (auto intro!: retr_adv_volI retr_end_done simp: retr_inv_def)
      subgoal by (auto intro!: retr_advI retr_end_stop simp: progress_def retr_inv_def)
      subgoal by (simp add: retr_inv_def)
      subgoal by (auto intro!: retr_advI retr_end_stop simp: progress_def neutral_append)
      subgoal for rt' t v b m ba rt'a wa ea ta va
        by (elim retr_adv_step, rule retr_end_round [of F _ _ rt rt' _ t "fst (snd (snd v))" b rt'a ta "fst (snd (snd va))" _ m])
           (use inv in \<open>simp_all add: retr_inv_def progress_def\<close>)
      done
    then show ?case by (cases y) (simp add: post_def)
  qed
  then show ?thesis using sat inv n by simp
qed

subsection \<open>The handler\<close>

lemma buffer_release_eq:
  "ftp_buffer_release b st = set_pool (case b of None \<Rightarrow> pool st | Some i \<Rightarrow> release_mask i (pool st)) st"
  by (cases b) (simp_all add: ftp_buffer_release_def)

text \<open>
  What the transfer leaves: the file and the data connection are closed, the buffer is
  returned, and if the transfer counted as sent, the client got the encryption of the
  file from the offset on.
\<close>

definition retr_result :: "byte list \<Rightarrow> int \<Rightarrow> int \<Rightarrow> ftp_session \<Rightarrow> event list \<Rightarrow> ftp_session \<Rightarrow> bool" where
  "retr_result F fd off s t s' \<longleftrightarrow>
    list_all (\<lambda>e. ev_paths e = []) t \<and> (\<forall>h. bal h t = - of_bool (h = Fd fd) - holds s h) \<and>
    data_fd s' < 0 \<and> pasv_fd s' < 0 \<and> crypto_ok (crypto s') \<and>
    ctrl_fd s' = ctrl_fd s \<and> root_path s' = root_path s \<and> cwd s' = cwd s \<and> rename_from s' = rename_from s \<and>
    (files_sent (stats s') \<noteq> files_sent (stats s) \<longrightarrow> data_fd s \<noteq> ctrl_fd s \<longrightarrow> file_trace F fd (nat off) t \<longrightarrow>
      delivered F (data_fd s) fd t = fst (cipher (crypto s) (drop (nat off) F)))"

lemma post_retr_transfer:
  assumes sat: "os_sat os posix" and ok: "crypto_ok (crypto (sess st))" "0 \<le> vn_fd node"
    "0 \<le> off" "off \<le> int (length F)" "length F = unat (vn_size node)"
    and Q: "\<And>r w e t f. retr_result F (vn_fd node) off (sess st) t (f (sess st)) \<Longrightarrow> Q r (adv w e t (upd f st))"
  shows "post (retr_transfer os node off st) Q"
proof -
  have F: "length F < 2 ^ 64" using unsigned_less [of "vn_size node", where ?'a = nat] ok(5) by simp
  let ?rt = "\<lparr>rt_node = node, rt_offset = off, remaining = unat (vn_size node) - nat off, rt_sent = 0,
    use_sendfile = (vn_sendfile node \<and> FTP_TRANSFER_RATE_LIMIT_BPS = 0 \<and> active (crypto (sess st)) = 0), rt_buf = None\<rparr>"
  have inv: "retr_inv F ?rt (crypto (sess st))" using ok F by (auto simp: retr_inv_def)
  have loop: "post (retr_loop os (unat (vn_size node)) ?rt st) Q"
    if "\<And>rt' w e t v m. retr_end F (data_fd (sess st)) (vn_fd node) ?rt rt' (crypto (sess st)) (pool st) t (fst (snd (snd v))) m \<Longrightarrow>
      Q rt' (adv w e t (set_pool m (upd (vol v) st)))" for Q
  proof (rule postI)
    fix rt' st' assume "retr_loop os (unat (vn_size node)) ?rt st = Some (rt', st')"
    from retr_loop_spec [OF this sat inv] ok(5) obtain w e t v m
      where "st' = adv w e t (set_pool m (upd (vol v) st))"
        "retr_end F (data_fd (sess st)) (vn_fd node) ?rt rt' (crypto (sess st)) (pool st) t (fst (snd (snd v))) m"
      by (auto simp: retr_adv_def)
    then show "Q rt' st'" using that by simp
  qed
  have pool: "(case rt_buf rt' of None \<Rightarrow> m | Some i \<Rightarrow> release_mask i m) = pool st"
    if "retr_end F (data_fd (sess st)) (vn_fd node) ?rt rt' (crypto (sess st)) (pool st) t c m" for rt' t c m
    using that release_acquired [of "pool st"] acquire_None [of "pool st" m]
    by (auto simp: retr_end_def split: option.splits)
  have tail: "list_all (\<lambda>e. ev_paths e = []) ta \<and> delivered F (data_fd (sess st)) fd ta = [] \<and> (data_fd (sess st) \<noteq> ctrl_fd (sess st) \<longrightarrow> delivered F (data_fd (sess st)) fd tb = [])"
    if "list_all (\<lambda>e. ev_paths e = [] \<and> \<not> ev_moves e) ta" "list_all (sends (ctrl_fd (sess st))) tb" for ta tb fd
    using still_trace_file [OF that(1)] sends_trace [OF that(2)] sends_elsewhere [OF that(2)] that(1) by (simp add: list_all_iff)
  show ?thesis
    unfolding retr_transfer_def buffer_release_eq vfs_close_def Let_def
    apply (intro wp loop)
    apply (simp_all add: pool sat)
    subgoal for rt' t v m res ta x ra rb wd ec tb
      using sends_neutral [of "ctrl_fd (sess st)" tb] ok tail [of ta tb]
      by (intro Q) (auto simp: retr_result_def retr_end_def neutralD)
    subgoal for rt' t v m res ta x ra wc ec tb
      using sends_neutral [of "ctrl_fd (sess st)" tb] ok tail [of ta tb]
      by (intro Q) (auto simp: retr_result_def retr_end_def neutralD)
    using ok by (auto simp: retr_end_def)
qed

lemma post_vfs_open:
  assumes "\<And>err w e t. touches [path] t \<Longrightarrow> Q (Inl err) (adv w e t st)"
    and "\<And>node q f w e. 0 \<le> vn_fd node \<Longrightarrow> r_ret q = vn_fd node \<Longrightarrow> vn_size node = st_size (r_stat f) \<Longrightarrow>
      Q (Inr node) (adv w e [(Sys_open path [O_RDONLY] 0, q), (Sys_fstat (vn_fd node), f)] st)"
  shows "post (vfs_open os path st) Q"
  unfolding vfs_open_def pal_file_fstat_def
  apply (intro wp)
  apply (simp_all add: assms(1) touches_def)
  subgoal for res e r w
    using assms(2) [of "\<lparr>vn_fd = r_ret res, vn_size = st_size (r_stat r), vn_offset = 0, vn_sendfile = True\<rparr>" res r]
    by auto
  done

lemma post_vfs_set_offset:
  assumes "0 \<le> vn_fd node"
    and "\<And>w e r. Q (node\<lparr>vn_offset := off\<rparr>) (adv w e [(Sys_lseek (vn_fd node) (uint off), r)] st)"
  shows "post (vfs_set_offset os node off st) Q"
  unfolding vfs_set_offset_def pal_file_seek_def by (intro wp) (use assms in simp_all)

lemma post_vfs_close:
  assumes "0 \<le> vn_fd node" and "\<And>n r w e. Q n (adv w e [(Sys_close (vn_fd node), r)] st)"
  shows "post (vfs_close os node st) Q"
  unfolding vfs_close_def by (intro wp) (use assms in simp_all)

lemma retr_result_keeps:
  assumes "retr_result F fd off s t s'"
  shows "list_all (ev_inside root) t \<and> (\<forall>h. bal h t = - of_bool (h = Fd fd) - holds s h) \<and>
    data_fd s' < 0 \<and> pasv_fd s' < 0 \<and> crypto_ok (crypto s') \<and> root_path s' = root_path s \<and>
    ctrl_fd s' = ctrl_fd s \<and> cwd s' = cwd s \<and> rename_from s' = rename_from s"
  using assms by (auto simp: retr_result_def intro: inside_pathless)

lemma retr_keeps:
  assumes sat: "os_sat os posix" and ok: "sess_ok (sess st)"
  shows "post (cmd_RETR os args st) (\<lambda>_. keeps st)"
proof -
  have tr: "post (retr_transfer os node off st') Q"
    if "crypto_ok (crypto (sess st'))" "0 \<le> vn_fd node" "0 \<le> off" "off \<le> int (unat (vn_size node))"
      "\<And>r w e t f F. retr_result F (vn_fd node) off (sess st') t (f (sess st')) \<Longrightarrow> Q r (adv w e t (upd f st'))"
    for node off Q and st' :: "'a st"
    using that by (intro post_retr_transfer [OF sat, where F = "replicate (unat (vn_size node)) 0"]) simp_all
  show ?thesis
    unfolding cmd_RETR_def
    apply (intro tr post_vfs_open post_vfs_set_offset post_vfs_close wp)
    apply (use sat ok in \<open>simp_all add: sess_okD\<close>)
    subgoal by (simp add: contract)
    subgoal by (simp add: contract) (erule inside_touches, simp)
    subgoal by (simp add: contract)
    subgoal by (simp add: contract)
    subgoal by (simp add: contract)
    subgoal by (drule retr_result_keeps [where root = "root_path (sess st)"]) (simp add: contract)
    done
qed


interpretation RETR: ftp_handler cmd_RETR
  by unfold_locales (rule retr_keeps)

lemma pathless_no_open: "list_all (\<lambda>e. ev_paths e = []) t \<Longrightarrow> (Sys_open p f m, q) \<notin> set t"
  by (auto simp: list_all_iff)

lemma bal_untouched: "list_all (\<lambda>e. ev_bal h e = 0) t \<Longrightarrow> bal h t = 0"
  by (induction t) simp_all

lemma still_pathless: "list_all (\<lambda>e. ev_paths e = [] \<and> \<not> ev_moves e) t \<Longrightarrow> list_all (\<lambda>e. ev_paths e = []) t"
  by (simp add: list_all_iff)

definition retr_claim :: "string \<Rightarrow> byte list \<Rightarrow> ftp_session \<Rightarrow> event list \<Rightarrow> ftp_session \<Rightarrow> bool" where
  "retr_claim path F s t s' \<longleftrightarrow>
    (\<forall>fl m q. files_sent (stats s') \<noteq> files_sent (stats s) \<longrightarrow> (Sys_open path fl m, q) \<in> set t \<longrightarrow>
      file_trace F (r_ret q) 0 t \<longrightarrow> list_all (\<lambda>e. ev_bal (Fd (ctrl_fd s)) e = 0) t \<longrightarrow> pasv_fd s \<noteq> ctrl_fd s \<longrightarrow>
      confined (root_path s) path \<and>
      (\<exists>sock. sock \<noteq> ctrl_fd s \<and>
        delivered F sock (r_ret q) t = fst (cipher (crypto s) (drop (nat (restart_offset s)) F))))"

lemma retr_claim_transfer:
  assumes q: "list_all quiet t" "list_all quiet ta" "list_all (sends (ctrl_fd s)) tb"
      "list_all (\<lambda>e. ev_paths e = [] \<and> \<not> ev_moves e) tc"
    and x: "confined (root_path s) x" "r_ret qo = fd" "0 \<le> off" "off \<le> int (unat (st_size (r_stat f)))" "off = restart_offset s"
    and d: "0 \<le> d" "\<And>h. bal h tc = holds (s\<lparr>data_fd := d, pasv_fd := p\<rparr>) h - holds s h" "data_fd s < 0"
    and r: "retr_result (if length F = unat (st_size (r_stat f)) then F else G) fd off
        (s\<lparr>data_fd := d, pasv_fd := p, sstate := xb\<rparr>) td s'"
  shows "retr_claim path F s (t @ (Sys_open x [O_RDONLY] 0, qo) # (Sys_fstat fd, f) # ta @
    (Sys_lseek fd (uint (word_of_int off :: 64 word)), rb) # tb @ tc @ td) s'"
  unfolding retr_claim_def
proof (intro allI impI)
  fix fl m q
  let ?T = "t @ (Sys_open x [O_RDONLY] 0, qo) # (Sys_fstat fd, f) # ta @
    (Sys_lseek fd (uint (word_of_int off :: 64 word)), rb) # tb @ tc @ td"
  assume sent: "files_sent (stats s') \<noteq> files_sent (stats s)"
    and op: "(Sys_open path fl m, q) \<in> set ?T" and tr: "file_trace F (r_ret q) 0 ?T"
    and fresh: "list_all (\<lambda>e. ev_bal (Fd (ctrl_fd s)) e = 0) ?T" and pasv: "pasv_fd s \<noteq> ctrl_fd s"
  have less: "list_all (\<lambda>e. ev_paths e = []) t" "list_all (\<lambda>e. ev_paths e = []) ta"
    "list_all (\<lambda>e. ev_paths e = []) tb" "list_all (\<lambda>e. ev_paths e = []) tc" "list_all (\<lambda>e. ev_paths e = []) td"
    using q r by (simp_all add: quiet_neutral sends_neutral neutralD(2) still_pathless retr_result_def)
  then have qo: "path = x" "q = qo" using op by (auto simp: pathless_no_open)
  have off: "uint (word_of_int off :: 64 word) = off"
    using x(3,4) uint_lt2p [of "st_size (r_stat f)"] by (simp add: uint_word_of_int)
  have sz: "length F = unat (st_size (r_stat f))" using tr x(2) qo by simp
  have "bal (Fd (ctrl_fd s)) tc = 0" using fresh by (simp add: bal_untouched)
  then have ctrl: "d \<noteq> ctrl_fd s" using d pasv by (auto simp: holds_def of_bool_def split: if_splits)
  have td: "file_trace F fd (nat off) td"
    using tr qo x(2) by (simp add: off sends_trace [OF q(3)] still_trace_file [OF q(4)])
  have "delivered F d fd td = fst (cipher (crypto s) (drop (nat off) F))"
    using r sent ctrl td by (simp add: retr_result_def sz)
  then have "delivered F d fd ?T = fst (cipher (crypto s) (drop (nat off) F))"
    using q(3) ctrl by (simp add: idleD(2) [OF quiet_idle] q sends_trace [OF q(3)] sends_elsewhere [OF q(3) ctrl] still_trace_file [OF q(4)])
  then show "confined (root_path s) path \<and> (\<exists>sock. sock \<noteq> ctrl_fd s \<and>
      delivered F sock (r_ret q) ?T = fst (cipher (crypto s) (drop (nat (restart_offset s)) F)))"
    using x ctrl qo by auto
qed

lemma retr_claim:
  fixes st :: "'w st"
  assumes sat: "os_sat os posix" and ok: "sess_ok (sess st)"
  shows "post (cmd_RETR os args st) (\<lambda>_ st'. \<forall>t. trace st' = trace st @ t \<longrightarrow> retr_claim path F (sess st) t (sess st'))"
proof -
  let ?F = "\<lambda>node. if length F = unat (vn_size node) then F else replicate (unat (vn_size node)) 0"
  have tr: "post (retr_transfer os node off st') Q"
    if "crypto_ok (crypto (sess st'))" "0 \<le> vn_fd node" "0 \<le> off" "off \<le> int (unat (vn_size node))"
      "\<And>r w e t f. retr_result (?F node) (vn_fd node) off (sess st') t (f (sess st')) \<Longrightarrow> Q r (adv w e t (upd f st'))"
    for node off Q and st' :: "'w st"
    using that by (intro post_retr_transfer [OF sat, where F = "?F node"]) simp_all
  show ?thesis
    unfolding cmd_RETR_def
    apply (intro tr post_vfs_open post_vfs_set_offset post_vfs_close wp)
    apply (use sat ok in \<open>simp_all add: sess_okD split del: if_split\<close>)
    apply (simp_all add: retr_claim_def)[6]
    by (rule retr_claim_transfer) (use ok in \<open>auto simp: sess_okD resolved_ok_confined\<close>)
qed

section \<open>Properties\<close>

text \<open>
  C3: A download that counts as sent delivers the file.  If \<^verbatim>\<open>RETR\<close> ends with its file counter
  raised, then the one file it opened lies inside the root, and the bytes that went out on
  a data socket, by \<open>sendfile\<close> or after reading, are exactly the encryption of the file from
  the restart offset to its end, however the kernel cut the transfer into pieces.  The
  file keeps its contents during the transfer, and the descriptor of the control
  connection is not handed out a second time.
\<close>

theorem retr_delivers_file:
  assumes "os_sat os posix" "sess_ok (sess st)"
    and "cmd_RETR os (Some a) st = Some (r, st')" "trace st' = trace st @ t"
    and "files_sent (stats (sess st')) \<noteq> files_sent (stats (sess st))"
    and "(Sys_open path fl m, q) \<in> set t" "file_trace F (r_ret q) 0 t"
    and "list_all (\<lambda>e. ev_bal (Fd (ctrl_fd (sess st))) e = 0) t" "pasv_fd (sess st) \<noteq> ctrl_fd (sess st)"
  shows "confined (root_path (sess st)) path \<and>
    (\<exists>sock. sock \<noteq> ctrl_fd (sess st) \<and>
      delivered F sock (r_ret q) t =
        fst (cipher (crypto (sess st)) (drop (nat (restart_offset (sess st))) F)))"
  using postD [OF retr_claim [OF assms(1,2), where path = path and F = F] assms(3)] assms(4-)
  unfolding retr_claim_def by blast

section \<open>Witnesses\<close>

text \<open>A download of three bytes by \<open>sendfile\<close> over an active data connection.\<close>

definition retr_script :: "sysres list" where
  "retr_script =
    [io_res 0, (io_res 0)\<lparr>r_str := ''/srv/f''\<rparr>, io_res 7,
     (io_res 0)\<lparr>r_stat := \<lparr>st_mode = S_IFREG, st_size = 3, st_mtime = 0\<rparr>\<rparr>,
     (io_res 0)\<lparr>r_stat := \<lparr>st_mode = S_IFREG, st_size = 3, st_mtime = 0\<rparr>\<rparr>,
     io_res 1, io_res (int (6 + length (get_default_message R150_FILE_OK))), io_res 8,
     io_res 0, io_res 0, io_res 0, io_res 0, io_res 0, io_res 0, io_res 0, io_res 0, io_res 0, io_res 0,
     io_res 0, io_res 0, io_res 2, io_res 0, io_res 0, io_res 0, io_res 0, io_res 0,
     io_res (int (6 + length (get_default_message R226_TRANSFER_COMPLETE)))]"

definition retr_st :: "sysres list st" where
  "retr_st = start_st retr_script (demo_session\<lparr>data_mode := FTP_DATA_MODE_ACTIVE, restart_offset := 1\<rparr>)"

lemma retr_resolve:
  "ftp_path_resolve script_os ''../f'' FTP_PATH_MAX retr_st =
    Some (Inr ''/srv/f'', adv (drop 2 retr_script) 0
      [(Sys_stat ''/srv/f'', io_res 0), (Sys_realpath ''/srv/f'', (io_res 0)\<lparr>r_str := ''/srv/f''\<rparr>)] retr_st)"
  by code_simp

lemma reply_sent:
  assumes "0 \<le> ctrl_fd (sess st)" "world st = io_res (int (6 + length (get_default_message code))) # ws"
  shows "ftp_session_send_reply script_os code None st =
    Some (FTP_OK, adv ws (errno st)
      [(Sys_send (ctrl_fd (sess st)) (bytes_of (show_nat (reply_num code) @ '' '' @ get_default_message code @ CRLF)),
        io_res (int (6 + length (get_default_message code))))] st)"
proof -
  have "ftp_format_reply code None FTP_REPLY_BUFFER_SIZE = Inr (show_nat (reply_num code) @ '' '' @ get_default_message code @ CRLF)"
    using length_get_default_message [of code] by (subst format_reply_cases) (simp_all add: Let_def)
  moreover have "length (show_nat (reply_num code)) = 3"
    using reply_num_range [of code] by (intro show_nat_three) auto
  ultimately show ?thesis
    using assms
    by (simp add: ftp_session_send_reply_def pal_send_all_def send_all_loop.simps syscall_def posix_def)
qed

lemma retr_run:
  "\<exists>r st'. cmd_RETR script_os (Some ''../f'') retr_st = Some (r, st') \<and>
     files_sent (stats (sess st')) = 1 \<and> (Sys_open ''/srv/f'' [O_RDONLY] 0, io_res 7) \<in> set (trace st') \<and>
     file_trace [1, 2, 3] 7 0 (trace st') \<and> list_all (\<lambda>e. ev_bal (Fd 4) e = 0) (trace st')"
  unfolding cmd_RETR_def
  apply (simp add: retr_resolve [simplified])
  apply (simp add: retr_script_def vfs_open_def pal_file_open_def syscall_def posix_def pal_file_fstat_def
     vfs_stat_def pal_file_stat_def is_reg_mode_def S_IFMT_def S_IFREG_def retr_st_def demo_session_def zero_session_def
     vfs_set_offset_def pal_file_seek_def)
  apply (simp add: reply_sent ftp_session_open_data_connection_def open_data_active_def syscall_def setsockopt_def
    pal_socket_configure_data_def pal_socket_set_timeouts_def posix_def)
  by (simp add: retr_transfer_def retr_loop.simps [of script_os] sf_phase_def sf_burst.simps sf_call_def sf_account_def
    pal_sendfile_def pal_socket_cork_def pal_socket_uncork_def setsockopt_def touch_def sys_time_def syscall_def posix_def
    ftp_buffer_release_def vfs_close_def pal_file_close_def ftp_session_close_data_connection_def pal_close_def reply_sent)

lemma retr_st_ok: "sess_ok (sess retr_st)"
proof -
  have "confined ''/srv'' ''/srv/a''" by code_simp
  then show ?thesis by (simp add: sess_ok_def retr_st_def demo_session_def zero_session_def crypto_ok_def)
qed

theorem retr_delivers_file_witness:
  "\<exists>r st' sock. cmd_RETR script_os (Some ''../f'') retr_st = Some (r, st') \<and>
     sock \<noteq> 4 \<and> delivered [1, 2, 3] sock 7 (trace st') = [2, 3] \<and> confined ''/srv'' ''/srv/f''"
proof -
  obtain r st' where run: "cmd_RETR script_os (Some ''../f'') retr_st = Some (r, st')"
    and st': "files_sent (stats (sess st')) = 1" "(Sys_open ''/srv/f'' [O_RDONLY] 0, io_res 7) \<in> set (trace st')"
      "file_trace [1, 2, 3] 7 0 (trace st')" "list_all (\<lambda>e. ev_bal (Fd 4) e = 0) (trace st')"
    using retr_run by blast
  have s: "sess retr_st = demo_session\<lparr>data_mode := FTP_DATA_MODE_ACTIVE, restart_offset := 1\<rparr>" "trace retr_st = []"
    by (simp_all add: retr_st_def)
  from retr_delivers_file [OF script_os_posix retr_st_ok run, of "trace st'" "''/srv/f''" "[O_RDONLY]" 0 "io_res 7" "[1, 2, 3]"] run st'
  show ?thesis
    by (auto simp: s demo_session_def zero_session_def cipher_def)
qed

end
