(* ===== verification/Stor_Pipe.thy ===== *)
theory Stor_Pipe
  imports Ftp_Types
begin

text \<open>
  Model of the double-buffered writer of \<^verbatim>\<open>STOR\<close> in \<^verbatim>\<open>src/src/ftp_commands.c\<close>
  (\<open>stor_pipe_t\<close>, \<open>stor_writer_thread\<close> and the producer loop of \<open>cmd_STOR\<close>).  Two threads
  share two buffers.  What a thread does while it holds the mutex is one step, and so is
  one \<open>recv\<close> and one write of a buffer, which run without it.  A thread that waits on a
  condition variable is blocked as long as the condition of its loop holds; the signals
  themselves are not modelled, so every wake-up is taken to arrive, and a deadlock here is one
  that no signal could end.
\<close>

section \<open>Definitions\<close>

record stor_pipe =
  pbuf :: "nat \<Rightarrow> byte list"
  plen :: "nat \<Rightarrow> nat"
  pactive :: nat
  perror :: int
  pdone :: bool
  pwritten :: "64 word"

text \<open>Where the producer and the writer stand.\<close>

datatype producer_pc = P_check | P_recv nat | P_hand nat nat | P_done | P_join | P_end

datatype writer_pc = W_check | W_write nat nat | W_wrote nat nat bool int | W_exit

text \<open>The shared structure, the two threads, and the local variables of the producer.\<close>

record stor_sys =
  pipe :: stor_pipe
  ppc :: producer_pc
  wpc :: writer_pc
  total_received :: "64 word"
  stor_ok :: bool
  fail_stage :: nat
  saved_errno :: int

definition stor_init :: stor_sys where
  "stor_init =
    \<lparr>pipe = \<lparr>pbuf = (\<lambda>_. []), plen = (\<lambda>_. 0), pactive = 0, perror = 0, pdone = False, pwritten = 0\<rparr>,
     ppc = P_check, wpc = W_check, total_received = 0, stor_ok = True, fail_stage = 0, saved_errno = 0\<rparr>"

subsection \<open>The producer\<close>

text \<open>The producer is blocked on a full buffer with no error, and on joining a running writer.\<close>

definition prod_blocked :: "stor_sys \<Rightarrow> bool" where
  "prod_blocked s \<longleftrightarrow>
    (case ppc s of
       P_check \<Rightarrow> plen (pipe s) (pactive (pipe s)) \<noteq> 0 \<and> perror (pipe s) = 0
     | P_join \<Rightarrow> wpc s \<noteq> W_exit
     | P_end \<Rightarrow> True
     | _ \<Rightarrow> False)"

definition prod_check :: "stor_sys \<Rightarrow> stor_sys" where
  "prod_check s = s\<lparr>ppc := (if perror (pipe s) \<noteq> 0 then P_done else P_recv (pactive (pipe s)))\<rparr>"

text \<open>The result of \<open>recv\<close>: interrupted, failed, end of data, or \<open>d\<close> stored in the buffer.\<close>

definition prod_interrupted :: "stor_sys \<Rightarrow> stor_sys" where
  "prod_interrupted s = s\<lparr>ppc := P_check\<rparr>"

definition prod_failed :: "int \<Rightarrow> stor_sys \<Rightarrow> stor_sys" where
  "prod_failed e s = s\<lparr>ppc := P_done, saved_errno := e, fail_stage := 2, stor_ok := False\<rparr>"

definition prod_eof :: "stor_sys \<Rightarrow> stor_sys" where
  "prod_eof s = s\<lparr>ppc := P_done\<rparr>"

definition prod_received :: "nat \<Rightarrow> byte list \<Rightarrow> stor_sys \<Rightarrow> stor_sys" where
  "prod_received i d s =
    s\<lparr>pipe := (pipe s)\<lparr>pbuf := (pbuf (pipe s))(i := d)\<rparr>, ppc := P_hand i (length d),
      total_received := total_received s + of_nat (length d)\<rparr>"

definition prod_hand :: "nat \<Rightarrow> nat \<Rightarrow> stor_sys \<Rightarrow> stor_sys" where
  "prod_hand i n s =
    s\<lparr>pipe := (pipe s)\<lparr>plen := (plen (pipe s))(i := n), pactive := 1 - i\<rparr>, ppc := P_check\<rparr>"

definition prod_done :: "stor_sys \<Rightarrow> stor_sys" where
  "prod_done s = s\<lparr>pipe := (pipe s)\<lparr>pdone := True\<rparr>, ppc := P_join\<rparr>"

definition prod_join :: "stor_sys \<Rightarrow> stor_sys" where
  "prod_join s =
    (let s = (if perror (pipe s) \<noteq> 0
              then s\<lparr>saved_errno := perror (pipe s), fail_stage := 3, stor_ok := False\<rparr> else s)
     in s\<lparr>ppc := P_end, total_received := pwritten (pipe s) + (total_received s - pwritten (pipe s))\<rparr>)"

subsection \<open>The writer\<close>

definition writer_blocked :: "stor_sys \<Rightarrow> bool" where
  "writer_blocked s \<longleftrightarrow>
    (case wpc s of
       W_check \<Rightarrow> plen (pipe s) (1 - pactive (pipe s)) = 0 \<and> \<not> pdone (pipe s)
     | W_exit \<Rightarrow> True
     | _ \<Rightarrow> False)"

definition writer_check :: "stor_sys \<Rightarrow> stor_sys" where
  "writer_check s =
    (let drain = 1 - pactive (pipe s); nbytes = plen (pipe s) drain
     in s\<lparr>wpc := (if nbytes = 0 \<and> pdone (pipe s) then W_exit else W_write drain nbytes)\<rparr>)"

text \<open>The write has succeeded, or failed with the error \<open>e\<close>.\<close>

definition writer_wrote :: "nat \<Rightarrow> nat \<Rightarrow> bool \<Rightarrow> int \<Rightarrow> stor_sys \<Rightarrow> stor_sys" where
  "writer_wrote d n write_ok e s = s\<lparr>wpc := W_wrote d n write_ok e\<rparr>"

definition writer_release :: "nat \<Rightarrow> nat \<Rightarrow> bool \<Rightarrow> int \<Rightarrow> stor_sys \<Rightarrow> stor_sys" where
  "writer_release d n write_ok e s =
    (let p = (if write_ok then (pipe s)\<lparr>pwritten := pwritten (pipe s) + of_nat n\<rparr>
              else (pipe s)\<lparr>perror := e\<rparr>)
     in s\<lparr>pipe := p\<lparr>plen := (plen p)(d := 0)\<rparr>, wpc := (if write_ok then W_check else W_exit)\<rparr>)"

subsection \<open>Interleavings\<close>

text \<open>
  A state of a run is the system, the bytes received so far and the contents of the
  file.  A write that fails may have stored any part of its buffer.
\<close>

type_synonym stor_run = "stor_sys \<times> byte list \<times> byte list"

inductive stor_step :: "stor_run \<Rightarrow> stor_run \<Rightarrow> bool" where
  p_check: "ppc s = P_check \<Longrightarrow> \<not> prod_blocked s \<Longrightarrow> stor_step (s, R, F) (prod_check s, R, F)"
| p_interrupted: "ppc s = P_recv i \<Longrightarrow> stor_step (s, R, F) (prod_interrupted s, R, F)"
| p_failed: "ppc s = P_recv i \<Longrightarrow> stor_step (s, R, F) (prod_failed e s, R, F)"
| p_eof: "ppc s = P_recv i \<Longrightarrow> stor_step (s, R, F) (prod_eof s, R, F)"
| p_received: "ppc s = P_recv i \<Longrightarrow> d \<noteq> [] \<Longrightarrow> stor_step (s, R, F) (prod_received i d s, R @ d, F)"
| p_hand: "ppc s = P_hand i n \<Longrightarrow> stor_step (s, R, F) (prod_hand i n s, R, F)"
| p_done: "ppc s = P_done \<Longrightarrow> stor_step (s, R, F) (prod_done s, R, F)"
| p_join: "ppc s = P_join \<Longrightarrow> \<not> prod_blocked s \<Longrightarrow> stor_step (s, R, F) (prod_join s, R, F)"
| w_check: "wpc s = W_check \<Longrightarrow> \<not> writer_blocked s \<Longrightarrow> stor_step (s, R, F) (writer_check s, R, F)"
| w_write: "wpc s = W_write d n \<Longrightarrow>
    stor_step (s, R, F) (writer_wrote d n True e s, R, F @ take n (pbuf (pipe s) d))"
| w_fail: "wpc s = W_write d n \<Longrightarrow> e \<noteq> 0 \<Longrightarrow> prefix x (take n (pbuf (pipe s) d)) \<Longrightarrow>
    stor_step (s, R, F) (writer_wrote d n False e s, R, F @ x)"
| w_release: "wpc s = W_wrote d n b e \<Longrightarrow> stor_step (s, R, F) (writer_release d n b e s, R, F)"

inductive_cases stor_stepE: "stor_step (s, R, F) x"

section \<open>The invariant\<close>

text \<open>The bytes received but not yet handed over.\<close>

definition in_hand :: "stor_sys \<Rightarrow> byte list" where
  "in_hand s = (case ppc s of P_hand i n \<Rightarrow> pbuf (pipe s) i | _ \<Rightarrow> [])"

text \<open>The contents of a buffer as its length says.\<close>

definition full :: "stor_pipe \<Rightarrow> nat \<Rightarrow> bool" where
  "full p i \<longleftrightarrow> plen p i = length (pbuf p i) \<and> plen p i \<noteq> 0"

text \<open>
  \<open>in_order H F s\<close>: the file \<open>F\<close> and the full buffers make up the bytes \<open>H\<close> that were
  handed over.  Where the active buffer is full, the producer waits for the writer.  If it
  handed over two buffers before the writer looked, the writer takes the newer one first,
  and the file then lacks the older one: \<open>missing b F H\<close>.
\<close>

definition missing :: "byte list \<Rightarrow> byte list \<Rightarrow> byte list \<Rightarrow> bool" where
  "missing b F H \<longleftrightarrow> (\<exists>X Y. F = X @ Y \<and> H = X @ b @ Y)"

definition in_order :: "byte list \<Rightarrow> byte list \<Rightarrow> stor_sys \<Rightarrow> bool" where
  "in_order H F s \<longleftrightarrow>
    (let p = pipe s; a = pactive p; o' = 1 - a
     in case wpc s of
          W_check \<Rightarrow>
            if plen p a = 0 then
              (if plen p o' = 0 then F = H else full p o' \<and> F @ pbuf p o' = H)
            else full p a \<and> ppc s = P_check \<and>
              (if plen p o' = 0 then missing (pbuf p a) F H
               else full p o' \<and> F @ pbuf p a @ pbuf p o' = H)
        | W_write d n \<Rightarrow>
            n = plen p d \<and> full p d \<and>
            (if d = o' then
               (if plen p a = 0 then F @ pbuf p d = H
                else full p a \<and> ppc s = P_check \<and> F @ pbuf p a @ pbuf p d = H)
             else d = a \<and> full p o' \<and> ppc s = P_check \<and> F @ pbuf p d @ pbuf p o' = H)
        | W_wrote d n b e \<Rightarrow>
            (if \<not> b then e \<noteq> 0 \<and> n = plen p d \<and> full p d
             else n = plen p d \<and> full p d \<and>
            (if d = o' then
               (if plen p a = 0 then F = H
                else full p a \<and> ppc s = P_check \<and> missing (pbuf p a) F H)
             else d = a \<and> full p o' \<and> ppc s = P_check \<and> F @ pbuf p o' = H))
        | W_exit \<Rightarrow> pdone p \<and> plen p a = 0 \<and> F = H)"

definition prod_inv :: "stor_sys \<Rightarrow> bool" where
  "prod_inv s \<longleftrightarrow>
    (let p = pipe s; a = pactive p
     in case ppc s of
          P_check \<Rightarrow> \<not> pdone p
        | P_recv i \<Rightarrow> i = a \<and> plen p a = 0 \<and> \<not> pdone p
        | P_hand i n \<Rightarrow> i = a \<and> plen p a = 0 \<and> n = length (pbuf p a) \<and> n \<noteq> 0 \<and> \<not> pdone p
        | P_done \<Rightarrow> \<not> pdone p
        | P_join \<Rightarrow> pdone p
        | P_end \<Rightarrow> pdone p \<and> wpc s = W_exit \<and> (stor_ok s \<longrightarrow> perror p = 0))"

definition stor_inv :: "byte list \<Rightarrow> byte list \<Rightarrow> stor_sys \<Rightarrow> bool" where
  "stor_inv R F s \<longleftrightarrow> pactive (pipe s) \<le> 1 \<and> prod_inv s \<and>
    (if perror (pipe s) = 0 then \<exists>H. R = H @ in_hand s \<and> in_order H F s else wpc s = W_exit)"

lemmas stor_defs = stor_inv_def prod_inv_def in_order_def in_hand_def full_def Let_def

lemma missingI [intro, simp]: "missing b (X @ Y) (X @ b @ Y)"
  unfolding missing_def by blast

lemma stor_inv_init: "stor_inv [] [] stor_init"
  by (simp add: stor_defs stor_init_def)

lemma inv_check:
  assumes "stor_inv R F s" "ppc s = P_check" "\<not> prod_blocked s"
  shows "stor_inv R F (prod_check s)"
  using assms by (cases "wpc s") (auto simp: stor_defs prod_check_def prod_blocked_def split: if_splits)

lemma inv_recv:
  assumes "stor_inv R F s" "ppc s = P_recv i"
  shows "stor_inv R F (prod_interrupted s)" "stor_inv R F (prod_failed e s)" "stor_inv R F (prod_eof s)"
    "d \<noteq> [] \<Longrightarrow> stor_inv (R @ d) F (prod_received i d s)"
  using assms
  by (cases "wpc s"; auto simp: stor_defs prod_interrupted_def prod_failed_def prod_eof_def prod_received_def split: if_splits)+

lemma inv_hand:
  assumes "stor_inv R F s" "ppc s = P_hand i n"
  shows "stor_inv R F (prod_hand i n s)"
  using assms by (cases "wpc s"; cases "pactive (pipe s)") (auto simp: stor_defs prod_hand_def split: if_splits)

lemma inv_done:
  assumes "stor_inv R F s" "ppc s = P_done"
  shows "stor_inv R F (prod_done s)"
  using assms by (cases "wpc s") (auto simp: stor_defs prod_done_def split: if_splits)

lemma inv_join:
  assumes "stor_inv R F s" "ppc s = P_join" "\<not> prod_blocked s"
  shows "stor_inv R F (prod_join s)"
  using assms by (auto simp: stor_defs prod_join_def prod_blocked_def split: if_splits)

lemma inv_wcheck:
  assumes "stor_inv R F s" "wpc s = W_check" "\<not> writer_blocked s"
  shows "stor_inv R F (writer_check s)"
  using assms by (cases "ppc s") (auto simp: stor_defs writer_check_def writer_blocked_def split: if_splits)

lemma inv_wrote:
  assumes "stor_inv R F s" "wpc s = W_write d n"
  shows "stor_inv R (F @ take n (pbuf (pipe s) d)) (writer_wrote d n True e s)"
    "e \<noteq> 0 \<Longrightarrow> stor_inv R (F @ x) (writer_wrote d n False e s)"
  using assms by (cases "ppc s"; auto simp: stor_defs writer_wrote_def split: if_splits)+

lemma inv_release_fail:
  assumes "stor_inv R F s" "wpc s = W_wrote d n False e"
  shows "stor_inv R F (writer_release d n False e s)"
  using assms
  by (simp add: stor_inv_def writer_release_def Let_def split: if_splits)
    (simp_all add: prod_inv_def in_order_def full_def Let_def split: producer_pc.splits)

lemma prod_inv_release:
  assumes "prod_inv s" "wpc s = W_wrote d n b e"
  shows "prod_inv (writer_release d n b e s)"
  using assms by (cases "ppc s") (auto simp: prod_inv_def writer_release_def Let_def)

lemma in_order_release:
  assumes "in_order H F s" "wpc s = W_wrote d n True e" "pactive (pipe s) \<le> 1"
  shows "in_order H F (writer_release d n True e s)"
  using assms
  apply (cases "pactive (pipe s)")
  apply (simp_all add: in_order_def full_def writer_release_def Let_def split: if_splits)
  apply auto
  done

lemma inv_release_ok:
  assumes "stor_inv R F s" "wpc s = W_wrote d n True e"
  shows "stor_inv R F (writer_release d n True e s)"
proof -
  have p: "pactive (pipe s) \<le> 1" "prod_inv s" "perror (pipe s) = 0"
    using assms by (auto simp: stor_inv_def split: if_splits)
  then obtain H where H: "R = H @ in_hand s" "in_order H F s"
    using assms by (auto simp: stor_inv_def)
  have "in_hand (writer_release d n True e s) = in_hand s"
    by (simp add: in_hand_def writer_release_def Let_def split: producer_pc.split)
  moreover have "pactive (pipe (writer_release d n True e s)) = pactive (pipe s)"
    "perror (pipe (writer_release d n True e s)) = perror (pipe s)"
    by (simp_all add: writer_release_def Let_def)
  ultimately show ?thesis
    using p H prod_inv_release [OF p(2) assms(2)] in_order_release [OF H(2) assms(2) p(1)]
    by (auto simp: stor_inv_def)
qed

lemma inv_release:
  assumes "stor_inv R F s" "wpc s = W_wrote d n b e"
  shows "stor_inv R F (writer_release d n b e s)"
  using assms by (cases b) (simp_all add: inv_release_ok inv_release_fail)

lemma stor_step_inv:
  assumes "stor_step (s, R, F) (s', R', F')" "stor_inv R F s"
  shows "stor_inv R' F' s'"
  using assms(1)
  by (cases rule: stor_step.cases)
    (use assms(2) in \<open>simp_all add: inv_check inv_recv inv_hand inv_done inv_join inv_wcheck inv_wrote inv_release\<close>)

lemma stor_reach_inv:
  assumes "stor_step\<^sup>*\<^sup>* (stor_init, [], []) (s, R, F)"
  shows "stor_inv R F s"
  using assms
proof (induction "(s, R, F)" arbitrary: s R F rule: rtranclp_induct)
  case base
  then show ?case by (simp add: stor_inv_init)
next
  case (step y)
  then show ?case by (cases y) (auto dest: stor_step_inv)
qed

text \<open>A joined producer with a successful transfer has a file in the order of arrival.\<close>

lemma stor_inv_end: "stor_inv R F s \<Longrightarrow> ppc s = P_end \<Longrightarrow> stor_ok s \<Longrightarrow> F = R"
  by (auto simp: stor_defs)

lemma stor_inv_excl:
  "stor_inv R F s \<Longrightarrow> ppc s = P_recv i \<or> ppc s = P_hand i m \<Longrightarrow> wpc s = W_write d n \<Longrightarrow> i \<noteq> d"
  by (auto simp: stor_defs split: if_splits)

text \<open>The states in which neither thread can move.\<close>

lemma stor_stuck:
  assumes "stor_inv R F s" "prod_blocked s" "writer_blocked s" "ppc s \<noteq> P_end"
  shows "ppc s = P_check \<and> wpc s = W_check \<and> pbuf (pipe s) (pactive (pipe s)) \<noteq> [] \<and>
    missing (pbuf (pipe s) (pactive (pipe s))) F R"
  using assms
  by (cases "ppc s"; cases "wpc s")
    (auto simp: stor_defs prod_blocked_def writer_blocked_def split: if_splits)

section \<open>Runs\<close>

text \<open>A choice of the next step, for concrete runs.\<close>

datatype stor_choice = A_check | A_eof | A_received "byte list" | A_hand | A_done | A_join
  | A_wcheck | A_write | A_release

fun stor_act :: "stor_choice \<Rightarrow> stor_run \<Rightarrow> stor_run option" where
  "stor_act A_check (s, R, F) =
    (if ppc s = P_check \<and> \<not> prod_blocked s then Some (prod_check s, R, F) else None)"
| "stor_act A_eof (s, R, F) = (case ppc s of P_recv i \<Rightarrow> Some (prod_eof s, R, F) | _ \<Rightarrow> None)"
| "stor_act (A_received d) (s, R, F) =
    (case ppc s of P_recv i \<Rightarrow> if d = [] then None else Some (prod_received i d s, R @ d, F) | _ \<Rightarrow> None)"
| "stor_act A_hand (s, R, F) = (case ppc s of P_hand i n \<Rightarrow> Some (prod_hand i n s, R, F) | _ \<Rightarrow> None)"
| "stor_act A_done (s, R, F) = (if ppc s = P_done then Some (prod_done s, R, F) else None)"
| "stor_act A_join (s, R, F) =
    (if ppc s = P_join \<and> \<not> prod_blocked s then Some (prod_join s, R, F) else None)"
| "stor_act A_wcheck (s, R, F) =
    (if wpc s = W_check \<and> \<not> writer_blocked s then Some (writer_check s, R, F) else None)"
| "stor_act A_write (s, R, F) =
    (case wpc s of W_write d n \<Rightarrow> Some (writer_wrote d n True 0 s, R, F @ take n (pbuf (pipe s) d)) | _ \<Rightarrow> None)"
| "stor_act A_release (s, R, F) =
    (case wpc s of W_wrote d n b e \<Rightarrow> Some (writer_release d n b e s, R, F) | _ \<Rightarrow> None)"

fun stor_acts :: "stor_choice list \<Rightarrow> stor_run \<Rightarrow> stor_run option" where
  "stor_acts [] x = Some x"
| "stor_acts (a # as) x = Option.bind (stor_act a x) (stor_acts as)"

lemma stor_act_step: "stor_act a x = Some y \<Longrightarrow> stor_step x y"
  by (cases "(a, x)" rule: stor_act.cases)
    (auto intro: stor_step.intros split: if_splits producer_pc.splits writer_pc.splits)

lemma stor_acts_steps: "stor_acts as x = Some y \<Longrightarrow> stor_step\<^sup>*\<^sup>* x y"
  by (induction as arbitrary: x)
    (auto simp: bind_eq_Some_conv intro: converse_rtranclp_into_rtranclp stor_act_step)

lemmas stor_run_defs = stor_init_def prod_blocked_def writer_blocked_def prod_check_def prod_eof_def
  prod_received_def prod_hand_def prod_done_def prod_join_def writer_check_def writer_wrote_def
  writer_release_def Let_def

text \<open>The writer gets its turn after each chunk, or only after the second one.\<close>

definition chunk_acts :: "byte list \<Rightarrow> stor_choice list" where
  "chunk_acts d = [A_check, A_received d, A_hand]"

definition fair_acts :: "stor_choice list" where
  "fair_acts = chunk_acts [1, 2] @ [A_wcheck] @ chunk_acts [3] @ [A_write, A_release, A_wcheck,
     A_check, A_write, A_eof, A_done, A_release, A_wcheck, A_join]"

definition late_acts :: "stor_choice list" where
  "late_acts = chunk_acts [1, 2] @ chunk_acts [3] @ [A_wcheck, A_write, A_release]"

definition busy_acts :: "stor_choice list" where
  "busy_acts = chunk_acts [1, 2] @ [A_wcheck, A_check]"

definition both_busy :: stor_run where "both_busy = the (stor_acts busy_acts (stor_init, [], []))"
definition fair_end :: stor_run where "fair_end = the (stor_acts fair_acts (stor_init, [], []))"
definition late_end :: stor_run where "late_end = the (stor_acts late_acts (stor_init, [], []))"

lemma fair_run: "stor_acts fair_acts (stor_init, [], []) = Some fair_end"
  "ppc (fst fair_end) = P_end" "stor_ok (fst fair_end)" "snd fair_end = ([1, 2, 3], [1, 2, 3])"
  by (simp_all add: fair_end_def fair_acts_def chunk_acts_def stor_run_defs)

lemma late_run: "stor_acts late_acts (stor_init, [], []) = Some late_end"
  "ppc (fst late_end) = P_check" "prod_blocked (fst late_end)" "writer_blocked (fst late_end)"
  "snd late_end = ([1, 2, 3], [3])"
  by (simp_all add: late_end_def late_acts_def chunk_acts_def stor_run_defs)

lemma busy_run: "stor_acts busy_acts (stor_init, [], []) = Some both_busy"
  "ppc (fst both_busy) = P_recv 1" "wpc (fst both_busy) = W_write 0 2"
  by (simp_all add: both_busy_def busy_acts_def chunk_acts_def stor_run_defs)

section \<open>Properties\<close>

text \<open>
  C9: whenever the upload through the two buffers ends in success, under any interleaving
  of the receiving thread and the writer, the file holds the received bytes in the order
  they arrived.
\<close>

theorem stor_pipe_in_order:
  assumes "stor_step\<^sup>*\<^sup>* (stor_init, [], []) (s, R, F)" "ppc s = P_end" "stor_ok s"
  shows "F = R"
  using stor_reach_inv [OF assms(1)] assms(2,3) by (rule stor_inv_end)

theorem stor_pipe_in_order_witness:
  "snd fair_end = ([1, 2, 3], [1, 2, 3]) \<and> snd (snd fair_end) = fst (snd fair_end)"
proof -
  have "stor_step\<^sup>*\<^sup>* (stor_init, [], []) (fst fair_end, fst (snd fair_end), snd (snd fair_end))"
    using stor_acts_steps [OF fair_run(1)] by simp
  from stor_pipe_in_order [OF this fair_run(2,3)] show ?thesis by (simp add: fair_run(4))
qed

text \<open>
  C29: the receiving thread never fills the buffer that the writer is writing to the file.
\<close>

theorem stor_buffers_exclusive:
  assumes "stor_step\<^sup>*\<^sup>* (stor_init, [], []) (s, R, F)"
    and "ppc s = P_recv i \<or> ppc s = P_hand i m" and "wpc s = W_write d n"
  shows "i \<noteq> d"
  using stor_reach_inv [OF assms(1)] assms(2,3) by (rule stor_inv_excl)

theorem stor_buffers_exclusive_witness:
  "ppc (fst both_busy) = P_recv 1 \<and> wpc (fst both_busy) = W_write 0 2 \<and> (1::nat) \<noteq> 0"
proof -
  have "stor_step\<^sup>*\<^sup>* (stor_init, [], []) (fst both_busy, fst (snd both_busy), snd (snd both_busy))"
    using stor_acts_steps [OF busy_run(1)] by simp
  from stor_buffers_exclusive [OF this, of 1 0 0 2] show ?thesis by (simp add: busy_run)
qed

text \<open>
  C30: the only states in which an upload stops for ever before its end are those in which
  the receiving thread waits for a buffer to be written, the writer waits for a buffer
  to be handed over, and the file lacks the bytes of the buffer that both leave alone.
  The witness reaches such a state: two buffers are handed over before the writer
  looks, and it writes the second one.
\<close>

theorem stor_pipe_stuck:
  assumes "stor_step\<^sup>*\<^sup>* (stor_init, [], []) (s, R, F)"
    and "prod_blocked s" "writer_blocked s" "ppc s \<noteq> P_end"
  shows "ppc s = P_check \<and> wpc s = W_check \<and> pbuf (pipe s) (pactive (pipe s)) \<noteq> [] \<and>
    missing (pbuf (pipe s) (pactive (pipe s))) F R"
  using stor_reach_inv [OF assms(1)] assms(2-4) by (rule stor_stuck)

theorem stor_pipe_stuck_witness:
  "\<exists>s. stor_step\<^sup>*\<^sup>* (stor_init, [], []) (s, [1, 2, 3], [3]) \<and> ppc s \<noteq> P_end \<and>
    prod_blocked s \<and> writer_blocked s \<and> missing (pbuf (pipe s) (pactive (pipe s))) [3] [1, 2, 3]"
proof -
  have run: "stor_step\<^sup>*\<^sup>* (stor_init, [], []) (fst late_end, [1, 2, 3], [3])"
    using stor_acts_steps [OF late_run(1)] late_run(5) by (metis prod.collapse)
  from stor_pipe_stuck [OF run late_run(3,4)] show ?thesis
    using run late_run(2-4) by (intro exI [of _ "fst late_end"]) simp
qed

end
