(* ===== verification/Ftp_Cmd_Stor.thy ===== *)
theory Ftp_Cmd_Stor
  imports Ftp_Cmd_Files Ftp_Cmd_Retr Stor_Pipe
begin

text \<open>
  Model of the uploads \<open>cmd_STOR\<close> and \<open>cmd_APPE\<close> of \<^verbatim>\<open>src/src/ftp_commands.c\<close>.  With two
  transfer buffers, \<^verbatim>\<open>STOR\<close> runs the two threads of \<open>Stor_Pipe\<close>: before each step
  the call \<open>Sys_sched\<close> asks the system which thread goes on.  Without a second buffer or
  a second thread, and in \<^verbatim>\<open>APPE\<close>, one thread receives and writes in turn.
\<close>

section \<open>Definitions\<close>

text \<open>The result of a transfer: \<open>ok\<close>, \<open>fail_stage\<close>, \<open>saved_errno\<close> and \<open>total_received\<close>.\<close>

record upload =
  up_ok :: bool
  up_stage :: nat
  up_errno :: int
  up_total :: "64 word"

definition up_done :: "64 word \<Rightarrow> upload" where
  "up_done n = \<lparr>up_ok = True, up_stage = 0, up_errno = 0, up_total = n\<rparr>"

definition up_fail :: "nat \<Rightarrow> int \<Rightarrow> 64 word \<Rightarrow> upload" where
  "up_fail stage e n = \<lparr>up_ok = False, up_stage = stage, up_errno = e, up_total = n\<rparr>"

text \<open>Receive and write in turn with one buffer.\<close>

partial_function (option) single_loop ::
  "'w os \<Rightarrow> int \<Rightarrow> 64 word \<Rightarrow> 'w st \<Rightarrow> (upload \<times> 'w st) ret" where
  "single_loop os fd tot st = do {
     ((n, bs), st) \<leftarrow> ftp_session_recv_data os ftp_buffer_size st;
     if n < 0 then
       if errno st = EINTR then single_loop os fd tot st
       else Some (up_fail 2 (errno st) tot, st)
     else if n = 0 then Some (up_done tot, st)
     else do {
       (written, st) \<leftarrow> pal_file_write_all os fd bs st;
       if written \<noteq> n then Some (up_fail 3 (errno st) tot, st)
       else do {
         (_, st) \<leftarrow> touch os st;
         single_loop os fd (tot + of_int n) st } } }"

subsection \<open>Two threads\<close>

definition prod_step :: "'w os \<Rightarrow> stor_sys \<Rightarrow> 'w st \<Rightarrow> (stor_sys \<times> 'w st) ret" where
  "prod_step os s st =
    (case ppc s of
       P_check \<Rightarrow> Some (prod_check s, st)
     | P_recv i \<Rightarrow> do {
         ((n, bs), st) \<leftarrow> ftp_session_recv_data os ftp_buffer_size st;
         if n < 0 then
           if errno st = EINTR then Some (prod_interrupted s, st)
           else Some (prod_failed (errno st) s, st)
         else if n = 0 then Some (prod_eof s, st)
         else do {
           (_, st) \<leftarrow> touch os st;
           Some (prod_received i bs s, st) } }
     | P_hand i n \<Rightarrow> Some (prod_hand i n s, st)
     | P_done \<Rightarrow> Some (prod_done s, st)
     | P_join \<Rightarrow> Some (prod_join s, st)
     | P_end \<Rightarrow> Some (s, st))"

text \<open>The writer has its own \<open>errno\<close>; the one of the session thread is put back.\<close>

definition writer_step :: "'w os \<Rightarrow> int \<Rightarrow> stor_sys \<Rightarrow> 'w st \<Rightarrow> (stor_sys \<times> 'w st) ret" where
  "writer_step os fd s st =
    (case wpc s of
       W_check \<Rightarrow> Some (writer_check s, st)
     | W_write d n \<Rightarrow> do {
         let e = errno st;
         (w, st) \<leftarrow> pal_file_write_all os fd (take n (pbuf (pipe s) d)) st;
         Some (writer_wrote d n (w = int n) (errno st) s, set_errno e st) }
     | W_wrote d n write_ok e \<Rightarrow> Some (writer_release d n write_ok e s, st)
     | W_exit \<Rightarrow> Some (s, st))"

text \<open>The run of both threads; when both are blocked, it never returns.\<close>

partial_function (option) pipe_loop ::
  "'w os \<Rightarrow> int \<Rightarrow> stor_sys \<Rightarrow> 'w st \<Rightarrow> (stor_sys \<times> 'w st) ret" where
  "pipe_loop os fd s st =
    (if ppc s = P_end then Some (s, st)
     else if prod_blocked s \<and> writer_blocked s then None
     else do {
       (r, st) \<leftarrow> syscall os Sys_sched st;
       if writer_blocked s \<or> r_ret r > 0 \<and> \<not> prod_blocked s then do {
         (s, st) \<leftarrow> prod_step os s st;
         pipe_loop os fd s st }
       else do {
         (s, st) \<leftarrow> writer_step os fd s st;
         pipe_loop os fd s st } })"

definition pipe_upload :: "'w os \<Rightarrow> int \<Rightarrow> 'w st \<Rightarrow> (upload \<times> 'w st) ret" where
  "pipe_upload os fd st = do {
     (s, st) \<leftarrow> pipe_loop os fd stor_init st;
     Some (\<lparr>up_ok = stor_ok s, up_stage = fail_stage s, up_errno = saved_errno s,
            up_total = total_received s\<rparr>, st) }"

text \<open>The buffers, and the choice between one thread and two.\<close>

definition stor_receive :: "'w os \<Rightarrow> int \<Rightarrow> 'w st \<Rightarrow> (upload \<times> 'w st) ret" where
  "stor_receive os fd st = do {
     (buf0, st) \<leftarrow> ftp_buffer_acquire st;
     (buf1, st) \<leftarrow> ftp_buffer_acquire st;
     if buf0 = None \<or> buf1 = None then do {
       let buffer = (if buf0 \<noteq> None then buf0 else buf1);
       let st = ftp_buffer_release (if buf0 \<noteq> None then buf1 else buf0) st;
       (u, st) \<leftarrow> (if buffer = None then Some (up_fail 1 0 0, st) else single_loop os fd 0 st);
       Some (u, ftp_buffer_release buffer st) }
     else do {
       (r, st) \<leftarrow> syscall os Sys_writer_thread st;
       (u, st) \<leftarrow> (if r_ret r \<noteq> 0 then single_loop os fd 0 st else pipe_upload os fd st);
       Some (u, ftp_buffer_release buf1 (ftp_buffer_release buf0 st)) } }"

definition up_detail :: "upload \<Rightarrow> string" where
  "up_detail u = take 127
    (if up_stage u = 2 then ''Transfer failed: network receive error (errno='' @ show_int (up_errno u) @ '').''
     else if up_stage u = 3 then ''Transfer failed: disk write error (errno='' @ show_int (up_errno u) @ '').''
     else ''Transfer failed.'')"

subsection \<open>The handlers\<close>

text \<open>A fresh upload is thrown away when it fails, a resumed one is left for another try.\<close>

definition stor_discard :: "'w os \<Rightarrow> bool \<Rightarrow> string \<Rightarrow> 'w st \<Rightarrow> (unit \<times> 'w st) ret" where
  "stor_discard os use_atomic path st =
    (if use_atomic then do { (_, st) \<leftarrow> syscall os (Sys_unlink path) st; Some ((), st) }
     else Some ((), st))"

definition no_restart :: "'w st \<Rightarrow> 'w st" where
  "no_restart st = upd (\<lambda>s. s\<lparr>restart_offset := 0\<rparr>) st"

text \<open>What follows the transfer: flush, close, commit or clean up, and reply.\<close>

definition stor_finish ::
  "'w os \<Rightarrow> bool \<Rightarrow> string \<Rightarrow> string \<Rightarrow> int \<Rightarrow> upload \<Rightarrow> 'w st \<Rightarrow> (ftp_error \<times> 'w st) ret" where
  "stor_finish os use_atomic write_path resolved fd u st = do {
     (_, st) \<leftarrow> (if up_ok u then do { (_, st) \<leftarrow> syscall os (Sys_fdatasync fd) st; Some ((), st) } else Some ((), st));
     (_, st) \<leftarrow> pal_file_close os fd st;
     (_, st) \<leftarrow> ftp_session_close_data_connection os st;
     let st = no_restart st;
     if up_ok u then do {
       (renamed, st) \<leftarrow> (if use_atomic then do {
                          (r, st) \<leftarrow> syscall os (Sys_rename write_path resolved) st;
                          Some (r_ret r = 0, st) }
                        else Some (True, st));
       if \<not> renamed then do {
         (_, st) \<leftarrow> syscall os (Sys_unlink write_path) st;
         ftp_session_send_reply os R451_LOCAL_ERROR (Some ''Rename to final path failed.'') st }
       else do {
         let st = upd (\<lambda>s. s\<lparr>stats := (stats s)\<lparr>files_received := files_received (stats s) + 1\<rparr>\<rparr>) st;
         ftp_session_send_reply os R226_TRANSFER_COMPLETE None st } }
     else do {
       (_, st) \<leftarrow> stor_discard os use_atomic write_path st;
       ftp_session_send_reply os R426_TRANSFER_ABORTED (Some (up_detail u)) st } }"

text \<open>
  Seek to the restart offset, announce the transfer and open the data connection; on
  failure the file is closed, thrown away if it is fresh, and a reply is sent.
\<close>

definition upload_start ::
  "'w os \<Rightarrow> bool \<Rightarrow> string \<Rightarrow> int \<Rightarrow> 'w st \<Rightarrow> (ftp_error option \<times> 'w st) ret" where
  "upload_start os use_atomic write_path fd st = do {
     let give_up = (\<lambda>code msg st. do {
           (_, st) \<leftarrow> pal_file_close os fd st;
           (_, st) \<leftarrow> stor_discard os use_atomic write_path st;
           (e, st) \<leftarrow> ftp_session_send_reply os code msg (no_restart st);
           Some (Some e, st) });
     (sought, st) \<leftarrow> (if restart_offset (sess st) > 0 then do {
                        (r, st) \<leftarrow> syscall os (Sys_lseek fd (restart_offset (sess st))) st;
                        Some (r_ret r \<ge> 0, st) }
                      else Some (True, st));
     if \<not> sought then give_up R451_LOCAL_ERROR (Some ''Seek failed.'') st
     else do {
       (_, st) \<leftarrow> ftp_session_send_reply os R150_FILE_OK None st;
       (err, st) \<leftarrow> ftp_session_open_data_connection os st;
       if err \<noteq> FTP_OK then give_up R425_CANT_OPEN_DATA None st
       else Some (None, st) } }"

text \<open>A fresh upload goes to a temporary name and truncates it.\<close>

definition stor_path :: "int \<Rightarrow> string \<Rightarrow> string" where
  "stor_path offset resolved = (if offset = 0 then stor_tmp_path resolved else resolved)"

definition stor_flags :: "int \<Rightarrow> open_flag list" where
  "stor_flags offset = (if offset = 0 then [O_WRONLY, O_CREAT, O_TRUNC] else [O_WRONLY, O_CREAT])"

definition cmd_STOR :: "'w handler" where
  "cmd_STOR os args st =
    (case args of
       None \<Rightarrow> Some (FTP_ERR_INVALID_PARAM, st)
     | Some a \<Rightarrow> do {
         (r, st) \<leftarrow> ftp_path_resolve os a FTP_PATH_MAX st;
         case r of
           Inl _ \<Rightarrow> ftp_session_send_reply os R550_FILE_ERROR (Some ''Invalid path.'') (no_restart st)
         | Inr resolved \<Rightarrow> do {
             let use_atomic = (restart_offset (sess st) = 0);
             let write_path = stor_path (restart_offset (sess st)) resolved;
             (fd, st) \<leftarrow> pal_file_open os write_path (stor_flags (restart_offset (sess st))) FILE_PERM st;
             if fd < 0 then do {
               (_, st) \<leftarrow> stor_discard os use_atomic write_path st;
               ftp_session_send_reply os R550_FILE_ERROR (Some ''Cannot create file.'') (no_restart st) }
             else do {
               (failed, st) \<leftarrow> upload_start os use_atomic write_path fd st;
               case failed of
                 Some e \<Rightarrow> Some (e, st)
               | None \<Rightarrow> do {
                   (u, st) \<leftarrow> stor_receive os fd st;
                   stor_finish os use_atomic write_path resolved fd u st } } } })"

definition appe_flags :: "int \<Rightarrow> open_flag list" where
  "appe_flags offset = (if offset = 0 then [O_WRONLY, O_CREAT, O_APPEND] else [O_WRONLY, O_CREAT])"

definition appe_transfer :: "'w os \<Rightarrow> int \<Rightarrow> 'w st \<Rightarrow> (ftp_error \<times> 'w st) ret" where
  "appe_transfer os fd st = do {
     (buffer, st) \<leftarrow> ftp_buffer_acquire st;
     (u, st) \<leftarrow> (if buffer = None then Some (up_fail 1 0 0, st) else single_loop os fd 0 st);
     (_, st) \<leftarrow> (if up_ok u then do { (_, st) \<leftarrow> syscall os (Sys_fdatasync fd) st; Some ((), st) } else Some ((), st));
     (_, st) \<leftarrow> pal_file_close os fd st;
     let st = ftp_buffer_release buffer st;
     (_, st) \<leftarrow> ftp_session_close_data_connection os st;
     let st = no_restart st;
     if up_ok u then ftp_session_send_reply os R226_TRANSFER_COMPLETE None st
     else ftp_session_send_reply os R426_TRANSFER_ABORTED (Some (up_detail u)) st }"

definition cmd_APPE :: "'w handler" where
  "cmd_APPE os args st =
    (case args of
       None \<Rightarrow> Some (FTP_ERR_INVALID_PARAM, st)
     | Some a \<Rightarrow> do {
         (r, st) \<leftarrow> ftp_path_resolve os a FTP_PATH_MAX st;
         case r of
           Inl _ \<Rightarrow> ftp_session_send_reply os R550_FILE_ERROR (Some ''Invalid path.'') (no_restart st)
         | Inr resolved \<Rightarrow> do {
             (fd, st) \<leftarrow> pal_file_open os resolved (appe_flags (restart_offset (sess st))) FILE_PERM st;
             if fd < 0 then
               ftp_session_send_reply os R550_FILE_ERROR (Some ''Cannot open file.'') (no_restart st)
             else do {
               (failed, st) \<leftarrow> upload_start os False resolved fd st;
               case failed of
                 Some e \<Rightarrow> Some (e, st)
               | None \<Rightarrow> appe_transfer os fd st } } })"

section \<open>The transfer\<close>

text \<open>
  The events \<open>t\<close> of a transfer receive bytes from \<open>sock\<close> alone and write to \<open>fd\<close>; with \<open>b\<close>, what
  was written is the decryption of what was received.  When the transfer is over and
  \<open>b\<close> holds, the peer has closed its side.
\<close>

definition uploaded :: "int \<Rightarrow> int \<Rightarrow> ftp_crypto_ctx \<Rightarrow> bool \<Rightarrow> event list \<Rightarrow> ftp_crypto_ctx \<Rightarrow> bool" where
  "uploaded sock fd c b t c' \<longleftrightarrow>
    neutral t \<and> recv_only sock t \<and> moved (length (received_from sock t)) c c' \<and>
    (b \<longrightarrow> written_to fd t = fst (cipher c (received_from sock t)))"

definition uploaded_all :: "int \<Rightarrow> int \<Rightarrow> ftp_crypto_ctx \<Rightarrow> bool \<Rightarrow> event list \<Rightarrow> ftp_crypto_ctx \<Rightarrow> bool" where
  "uploaded_all sock fd c b t c' \<longleftrightarrow> uploaded sock fd c b t c' \<and> (b \<longrightarrow> peer_closed sock t)"

lemma vol_last_activity [simp]: "(vol v s)\<lparr>last_activity := x\<rparr> = vol (x, snd v) s"
  by (simp add: vol_def split: prod.split)

lemma uploaded_trans:
  assumes "uploaded sock fd c True t c1" "uploaded sock fd c1 b u c2" "crypto_ok c"
  shows "uploaded sock fd c b (t @ u) c2"
  using assms moved_append [OF assms(3)]
  by (auto simp: uploaded_def neutral_append intro: moved_trans)

lemma uploaded_ok: "uploaded sock fd c b t c' \<Longrightarrow> crypto_ok c \<Longrightarrow> crypto_ok c'"
  by (auto simp: uploaded_def intro: moved_ok)

lemma quiet_moves:
  "list_all quiet t \<Longrightarrow> neutral t \<and> recv_only fd t \<and> received_from fd t = [] \<and> written_to fd t = []"
  by (simp add: quiet_neutral quiet_recv_only touchesD [OF quiet_touches])

lemma writes_recv_only: "list_all (writes fd) t \<Longrightarrow> recv_only sock t"
  unfolding recv_only_def by (induction t) (auto simp: writes_def split: syscall.splits)

lemma uploaded_all_trans:
  assumes "uploaded sock fd c True t c1" "uploaded_all sock fd c1 b u c2" "crypto_ok c"
  shows "uploaded_all sock fd c b (t @ u) c2"
  using assms uploaded_trans [OF assms(1) _ assms(3)] by (simp add: uploaded_all_def)

lemma uploaded_round:
  assumes "neutral t" "(bs, c') = cipher c (received_from sock t)" "written_to fd t = []" "recv_only sock t"
    "list_all (writes fd) u" "written_to fd u = bs" "list_all quiet q"
  shows "uploaded sock fd c True (t @ u @ q) c'"
  using assms writes_only [OF assms(5), of sock] quiet_moves [OF assms(7)] moved_cipher [of "received_from sock t" c]
  by (auto simp: uploaded_def neutral_append writes_neutral writes_recv_only prod_eq_iff)

lemma uploaded_stop:
  assumes "neutral t" "(bs, c') = cipher c (received_from sock t)" "b \<Longrightarrow> bs = []" "written_to fd t = []"
    "recv_only sock t" "b \<Longrightarrow> peer_closed sock t" "list_all (writes fd) u" "b \<Longrightarrow> u = []"
  shows "uploaded_all sock fd c b (t @ u) c'"
  using assms writes_only [OF assms(7), of sock] moved_cipher [of "received_from sock t" c]
  by (auto simp: uploaded_all_def uploaded_def neutral_append writes_neutral writes_recv_only prod_eq_iff)

lemma uploaded_none:
  "neutral t \<Longrightarrow> ([], c') = cipher c (received_from sock t) \<Longrightarrow> written_to fd t = [] \<Longrightarrow> recv_only sock t \<Longrightarrow>
   uploaded sock fd c b t c'"
  using uploaded_round [of t "[]" c' c sock fd "[]" "[]"] by (simp add: uploaded_def)

lemma up_ok_simps [simp]: "up_ok (up_done n)" "\<not> up_ok (up_fail k e n)"
  by (simp_all add: up_done_def up_fail_def)

lemma single_loop_spec:
  assumes ret: "single_loop os fd tot st = Some (u, st')" and sat: "os_sat os posix"
    and ok: "crypto_ok (crypto (sess st))"
  shows "vol_adv (uploaded_all (data_fd (sess st)) fd (crypto (sess st)) (up_ok u)) st st'"
proof -
  let ?R = "\<lambda>fd st u. vol_adv (uploaded_all (data_fd (sess st)) fd (crypto (sess st)) (up_ok u)) st"
  let ?P = "\<lambda>os fd tot st y. os_sat os posix \<and> crypto_ok (crypto (sess st)) \<longrightarrow> ?R fd st (fst y) (snd y)"
  have "?P os fd tot st (u, st')"
  proof (rule single_loop.raw_induct [where P = ?P, OF _ ret], rule impI, goal_cases)
    case (1 loop os fd tot st y)
    have IH: "post (loop os fd tot st) (?R fd st)" if "crypto_ok (crypto (sess st))" for tot st
      using 1(1,3) that by (fastforce simp: post_def)
    have sat: "os_sat os posix" and ok: "crypto_ok (crypto (sess st))" using 1(3) by auto
    have "post (Some y) (?R fd st)"
      unfolding 1(2) [symmetric]
      apply (intro post_recv_data_fd [OF sat] post_write_all [OF sat] wp post_mono [OF IH])
      apply (use sat ok in simp_all)
      subgoal by (erule vol_adv_vol, rule uploaded_all_trans, rule uploaded_none) auto
      subgoal by (rule vol_adv_volI) (use uploaded_stop [where u = "[]"] in auto)
      subgoal by (rule vol_adv_volI) (use uploaded_stop [where u = "[]"] in auto)
      subgoal by (rule vol_adv_volI) (erule (1) uploaded_stop, auto)
      subgoal for r bs t v ra ta tb wb eb tr u s
        by (erule vol_adv_vol) (use uploaded_all_trans [OF uploaded_round [of t bs _ _ _ fd ta tr], of "fst (snd (snd v))"] in auto)
      done
    then show ?case by (cases y) (simp add: post_def)
  qed
  then show ?thesis using sat ok by simp
qed

subsection \<open>Two threads\<close>

text \<open>The producer has stopped receiving and nothing has failed so far.\<close>

definition ended :: "stor_sys \<Rightarrow> bool" where
  "ended s \<longleftrightarrow> ppc s \<in> {P_done, P_join, P_end} \<and> stor_ok s \<and> perror (pipe s) = 0"

text \<open>
  The two threads went from \<open>s\<close>, with \<open>R\<close> received and \<open>F\<close> written, to \<open>s'\<close>; between
  them the producer has stopped receiving only because the peer had closed its side.
\<close>

definition piped ::
  "int \<Rightarrow> int \<Rightarrow> ftp_crypto_ctx \<Rightarrow> byte list \<Rightarrow> byte list \<Rightarrow> stor_sys \<Rightarrow> stor_sys \<Rightarrow> event list \<Rightarrow> ftp_crypto_ctx \<Rightarrow> bool" where
  "piped sock fd c R F s s' t c' \<longleftrightarrow>
    neutral t \<and> recv_only sock t \<and> moved (length (received_from sock t)) c c' \<and>
    stor_inv (R @ fst (cipher c (received_from sock t))) (F @ written_to fd t) s' \<and>
    (ended s' \<longrightarrow> ended s \<or> peer_closed sock t)"

lemma piped_same:
  "stor_inv R F s' \<Longrightarrow> (ended s' \<Longrightarrow> ended s) \<Longrightarrow> vol_adv (piped sock fd (crypto (sess st)) R F s s') st st"
  by (rule vol_adv_refl) (auto simp: piped_def)

lemma piped_trans:
  assumes "piped sock fd c R F s s1 t c1" "crypto_ok c"
    "piped sock fd c1 (R @ fst (cipher c (received_from sock t))) (F @ written_to fd t) s1 s2 u c2"
  shows "piped sock fd c R F s s2 (t @ u) c2"
  using assms moved_append [OF assms(2)]
  by (auto simp: piped_def neutral_append intro: moved_trans)

lemma piped_recv:
  assumes "neutral t" "(bs, c') = cipher c (received_from sock t)" "written_to fd t = []" "recv_only sock t"
    "list_all quiet u" "stor_inv (R @ bs) F s'" "ended s' \<Longrightarrow> peer_closed sock t"
  shows "piped sock fd c R F s s' (t @ u) c'"
  using assms moved_cipher [of "received_from sock t" c] quiet_moves [OF assms(5)]
  by (auto simp: piped_def neutral_append prod_eq_iff)

lemma piped_write:
  assumes "list_all (writes fd) t" "stor_inv R (F @ written_to fd t) s'" "ended s' \<Longrightarrow> ended s"
  shows "piped sock fd c R F s s' t c"
  using assms writes_only [OF assms(1), of sock] by (auto simp: piped_def writes_neutral writes_recv_only)

text \<open>Only the end of the data makes the producer stop without an error.\<close>

lemma ended_recv [simp]:
  "\<not> ended (prod_interrupted s)" "\<not> ended (prod_failed e s)" "\<not> ended (prod_received i d s)"
  by (simp_all add: ended_def prod_interrupted_def prod_failed_def prod_received_def)

lemma ended_prod:
  "ended (prod_check s) \<Longrightarrow> ended s" "ended (prod_hand i n s) \<Longrightarrow> ended s"
  "ended (prod_done s) \<Longrightarrow> ppc s = P_done \<Longrightarrow> ended s" "ended (prod_join s) \<Longrightarrow> ppc s = P_join \<Longrightarrow> ended s"
  by (auto simp: ended_def prod_check_def prod_hand_def prod_done_def prod_join_def Let_def split: if_splits)

lemma ended_writer:
  "ended (writer_check s) \<Longrightarrow> ended s" "ended (writer_wrote d n b e s) \<Longrightarrow> ended s"
  "ended (writer_release d n b e s) \<Longrightarrow> stor_inv R F s \<Longrightarrow> wpc s = W_wrote d n b e \<Longrightarrow> ended s"
  by (auto simp: ended_def writer_check_def writer_wrote_def writer_release_def stor_defs split: if_splits)

lemma stor_inv_write: "stor_inv R F s \<Longrightarrow> wpc s = W_write d n \<Longrightarrow> n = length (pbuf (pipe s) d)"
  by (auto simp: stor_defs split: if_splits)

lemma post_prod_step:
  assumes sat: "os_sat os posix" and ok: "crypto_ok (crypto (sess st))"
    and s: "stor_inv R F s" "\<not> prod_blocked s"
  shows "post (prod_step os s st) (\<lambda>s'. vol_adv (piped (data_fd (sess st)) fd (crypto (sess st)) R F s s') st)"
proof (cases "ppc s")
  case (P_recv i)
  note inv = inv_recv [OF s(1) P_recv]
  show ?thesis
    unfolding prod_step_def P_recv producer_pc.case
    apply (intro post_recv_data_fd [OF sat] wp)
    apply (use sat ok in simp_all)
    subgoal by (rule vol_adv_volI, rule piped_recv [where u = "[]" and bs = "[]", simplified]) (use inv in auto)
    subgoal by (rule vol_adv_volI, rule piped_recv [where u = "[]" and bs = "[]", simplified]) (use inv in auto)
    subgoal by (rule vol_adv_volI, rule piped_recv [where u = "[]" and bs = "[]", simplified]) (use inv in auto)
    subgoal by (rule vol_adv_volI) (use inv in \<open>auto intro: piped_recv\<close>)
    done
qed (use s in \<open>auto simp: prod_step_def prod_blocked_def
  intro!: wp piped_same inv_check inv_hand inv_done inv_join dest: ended_prod\<close>)

lemma post_writer_step:
  assumes sat: "os_sat os posix" and ok: "crypto_ok (crypto (sess st))"
    and s: "stor_inv R F s" "\<not> writer_blocked s"
  shows "post (writer_step os fd s st) (\<lambda>s'. vol_adv (piped (data_fd (sess st)) fd (crypto (sess st)) R F s s') st)"
proof (cases "wpc s")
  case (W_write d n)
  note inv = inv_wrote [OF s(1) W_write]
  show ?thesis
    unfolding writer_step_def W_write writer_pc.case Let_def set_errno_def
    apply (intro post_write_all_errno [OF sat] wp)
    apply (use stor_inv_write [OF s(1) W_write] inv in \<open>auto intro!: vol_adv_advI piped_write dest: ended_writer(2)\<close>)
    done
qed (use s in \<open>auto simp: writer_step_def writer_blocked_def
  intro!: wp piped_same inv_wcheck inv_release dest: ended_writer\<close>)

lemma pipe_loop_spec:
  assumes ret: "pipe_loop os fd s st = Some (s', st')" and sat: "os_sat os posix"
    and ok: "crypto_ok (crypto (sess st))" and inv: "stor_inv R F s"
  shows "ppc s' = P_end \<and> vol_adv (piped (data_fd (sess st)) fd (crypto (sess st)) R F s s') st st'"
proof -
  let ?R = "\<lambda>fd st R F s s' st'. ppc s' = P_end \<and> vol_adv (piped (data_fd (sess st)) fd (crypto (sess st)) R F s s') st st'"
  let ?P = "\<lambda>os fd s st y. \<forall>R F. os_sat os posix \<and> crypto_ok (crypto (sess st)) \<and> stor_inv R F s \<longrightarrow> ?R fd st R F s (fst y) (snd y)"
  have "?P os fd s st (s', st')"
  proof (rule pipe_loop.raw_induct [where P = ?P, OF _ ret], intro allI impI, goal_cases)
    case (1 loop os fd s st y R F)
    have IH: "post (loop os fd s st) (?R fd st R F s)"
      if "crypto_ok (crypto (sess st))" "stor_inv R F s" for s st R F
      using 1(1,3) that by (fastforce simp: post_def)
    have sat: "os_sat os posix" and ok: "crypto_ok (crypto (sess st))" and inv: "stor_inv R F s" using 1(3) by auto
    have next_round: "post (loop os fd s1 st1) (?R fd st R F s)"
      if va: "vol_adv (piped (data_fd (sess st)) fd (crypto (sess st)) R F s s1) (adv w e t st) st1" and q: "list_all quiet t"
      for s1 st1 w e t
    proof -
      obtain w' e' t' v where st1: "st1 = adv w' e' t' (upd (vol v) (adv w e t st))"
        and p: "piped (data_fd (sess st)) fd (crypto (sess st)) R F s s1 t' (fst (snd (snd v)))"
        using va by (rule vol_advE) simp
      let ?R' = "R @ fst (cipher (crypto (sess st)) (received_from (data_fd (sess st)) t'))"
      have p': "piped (data_fd (sess st)) fd (crypto (sess st)) R F s s1 (t @ t') (fst (snd (snd v)))"
        using p quiet_moves [OF q] by (auto simp: piped_def neutral_append)
      show ?thesis
      proof (rule post_mono [OF IH])
        show "crypto_ok (crypto (sess st1))" using st1 p moved_ok [OF ok] by (auto simp: piped_def)
        show "stor_inv ?R' (F @ written_to fd t') s1" using p by (simp add: piped_def)
      next
        fix s2 st2
        assume "ppc s2 = P_end \<and> vol_adv (piped (data_fd (sess st1)) fd (crypto (sess st1)) ?R' (F @ written_to fd t') s1 s2) st1 st2"
        then show "ppc s2 = P_end \<and> vol_adv (piped (data_fd (sess st)) fd (crypto (sess st)) R F s s2) st st2"
          using piped_trans [OF p' ok] st1 quiet_moves [OF q]
          by (auto elim!: vol_adv_vol)
      qed
    qed
    have "post (Some y) (?R fd st R F s)"
      unfolding 1(2) [symmetric]
      apply (intro wp post_mono [OF post_prod_step [where fd = fd and R = R and F = F]]
          post_mono [OF post_writer_step [where R = R and F = F]])
      apply (use sat ok inv in \<open>simp_all add: piped_same\<close>)
      subgoal by blast
      subgoal by (erule next_round) (simp add: quiet_def)
      subgoal by (erule next_round) (simp add: quiet_def)
      done
    then show ?case by (cases y) (simp add: post_def)
  qed
  then show ?thesis using sat ok inv by simp
qed

lemma post_single_loop:
  assumes "os_sat os posix" "crypto_ok (crypto (sess st))"
    and "\<And>u w e t v. uploaded_all (data_fd (sess st)) fd (crypto (sess st)) (up_ok u) t (fst (snd (snd v))) \<Longrightarrow>
      Q u (adv w e t (upd (vol v) st))"
  shows "post (single_loop os fd tot st) Q"
  using assms(3) by (intro postI) (auto dest!: single_loop_spec [OF _ assms(1,2)] elim!: vol_advE)

lemma post_pipe_upload:
  assumes sat: "os_sat os posix" and ok: "crypto_ok (crypto (sess st))"
    and Q: "\<And>u w e t v. uploaded_all (data_fd (sess st)) fd (crypto (sess st)) (up_ok u) t (fst (snd (snd v))) \<Longrightarrow>
      Q u (adv w e t (upd (vol v) st))"
  shows "post (pipe_upload os fd st) Q"
proof -
  have "uploaded_all sock fd c (stor_ok s) t c'" if "piped sock fd c [] [] stor_init s t c'" "ppc s = P_end" for sock c s t c'
  proof -
    have "stor_ok s \<Longrightarrow> ended s" "\<not> ended stor_init"
      using that by (auto simp: piped_def ended_def stor_defs stor_init_def)
    then show ?thesis using that stor_inv_end by (auto simp: piped_def uploaded_all_def uploaded_def)
  qed
  then have "post (pipe_loop os fd stor_init st) (\<lambda>s st'.
      vol_adv (uploaded_all (data_fd (sess st)) fd (crypto (sess st)) (stor_ok s)) st st')"
    using pipe_loop_spec [OF _ sat ok stor_inv_init] by (intro postI) (fastforce simp: vol_adv_def)
  then show ?thesis
    unfolding pipe_upload_def
    by (intro wp, elim post_mono) (auto elim!: vol_advE intro!: Q wp)
qed

text \<open>Both ways of receiving, with the buffers given back at the end.\<close>

lemma uploaded_Nil: "uploaded_all sock fd c False [] c"
  by (simp add: uploaded_all_def uploaded_def)

lemma uploaded_quiet: "uploaded_all sock fd c b u c' \<Longrightarrow> list_all quiet t \<Longrightarrow> uploaded_all sock fd c b (t @ u) c'"
  using quiet_moves [of t] by (auto simp: uploaded_all_def uploaded_def neutral_append)

definition rel_mask :: "nat option \<Rightarrow> 64 word \<Rightarrow> 64 word" where
  "rel_mask b m = (case b of None \<Rightarrow> m | Some i \<Rightarrow> release_mask i m)"

lemma buffer_rel: "ftp_buffer_release b st = set_pool (rel_mask b (pool st)) st"
  by (simp add: buffer_release_eq rel_mask_def)

lemma rel_acquired: "acquire_mask m = (b, m') \<Longrightarrow> rel_mask b m' = m"
  by (auto simp: rel_mask_def release_acquired acquire_None split: option.split)

lemma rel_None [simp]: "rel_mask None m = m"
  by (simp add: rel_mask_def)

lemma rel_commute: "rel_mask a (rel_mask b m) = rel_mask b (rel_mask a m)"
  by (simp add: rel_mask_def release_commute split: option.split)

lemma rel_two:
  assumes "acquire_mask m = (a, m1)" "acquire_mask m1 = (b, m2)"
  shows "rel_mask b (rel_mask a m2) = m" "rel_mask a (rel_mask b m2) = m"
  using rel_acquired [OF assms(1)] rel_acquired [OF assms(2)] by (simp_all add: rel_commute [of b a])

lemma post_stor_receive:
  assumes sat: "os_sat os posix" and ok: "crypto_ok (crypto (sess st))"
    and Q: "\<And>u w e t v. uploaded_all (data_fd (sess st)) fd (crypto (sess st)) (up_ok u) t (fst (snd (snd v))) \<Longrightarrow>
      Q u (adv w e t (upd (vol v) st))"
  shows "post (stor_receive os fd st) Q"
proof -
  have Q0: "Q (up_fail k e n) st" for k e n
    using Q [of "up_fail k e n" "[]" "vol_of (sess st)" "world st" "errno st"] by (simp add: uploaded_Nil upd_def)
  show ?thesis
  unfolding stor_receive_def buffer_rel Let_def
  apply (intro wp post_single_loop [OF sat] post_pipe_upload [OF sat])
  apply (use sat ok in \<open>simp_all add: rel_two\<close>)
  subgoal for b m ba ma
    using Q0 acquire_None [of "pool st" m] acquire_None [of m ma] by (auto split: if_splits)
  subgoal premises prems for b m ba ma u w e t v
  proof -
    have "b = None \<Longrightarrow> rel_mask ba ma = pool st"
      using prems(1) acquire_None [of "pool st" m] rel_acquired [OF prems(2)] by simp
    then show ?thesis using Q [OF prems(5)] by simp
  qed
  subgoal for b m ba ma r u wa e t v
    using uploaded_quiet [of _ fd _ "up_ok u" t _ "[(Sys_writer_thread, r)]"] by (auto simp: quiet_def intro!: Q)
  subgoal for b m ba ma r u wa e t v
    using uploaded_quiet [of _ fd _ "up_ok u" t _ "[(Sys_writer_thread, r)]"] by (auto simp: quiet_def intro!: Q)
  done
qed

section \<open>The temporary name\<close>

lemma tmp_path_shape:
  assumes "SLASH \<in> set p" "length p < FTP_PATH_MAX"
  obtains c where "stor_tmp_path p = before_last SLASH p @ SLASH # c" "prefix c (''.zftpd.tmp.'' @ after_last SLASH p)"
proof -
  let ?b = "before_last SLASH p" and ?t = "''.zftpd.tmp.'' @ after_last SLASH p"
  have "length ?b < length p"
    using arg_cong [OF split_last [OF assms(1)], of length] by simp
  then have "length ?b + 1 \<le> FTP_PATH_MAX - 1" using assms(2) by simp
  then have "take (FTP_PATH_MAX - 1) (?b @ SLASH # ?t) = ?b @ SLASH # take (FTP_PATH_MAX - 2 - length ?b) ?t"
    by (simp add: take_Cons' del: append_Cons)
  then show ?thesis
    using assms(1) that [of "take (FTP_PATH_MAX - 2 - length ?b) ?t"] by (simp add: stor_tmp_path_def take_is_prefix)
qed

lemma tmp_suffix_no_dotdot:
  assumes "prefix c (''.zftpd.tmp.'' @ a)" "SLASH \<notin> set a"
  shows "''..'' \<notin> set (path_components c)"
proof -
  have "SLASH \<notin> set c" using set_mono_prefix [OF assms(1)] assms(2) by auto
  then have "path_components c = (if c = [] then [] else [c])" by (simp add: path_components_def split_on_single)
  moreover have "c \<noteq> ''..''" using assms(1) by auto
  ultimately show ?thesis by simp
qed

text \<open>A name next to a path below the root stays inside the root.\<close>

lemma sibling_inside:
  assumes "confined root p" "p \<noteq> root" "''..'' \<notin> set (path_components c)"
  shows "confined root (before_last SLASH p @ SLASH # c)"
proof -
  have in_root: "ftp_path_is_within_root p root = 1" and nd: "no_dotdot p" using assms(1) by (auto simp: confined_def)
  have hd: "take 1 p = ''/''" "take 1 root = ''/''" using in_root by (auto simp: ftp_path_is_within_root_def split: if_splits)
  have sl: "SLASH \<in> set p" using hd(1) by (cases p) auto
  let ?b = "before_last SLASH p" and ?a = "after_last SLASH p"
  have p: "p = ?b @ SLASH # ?a" using split_last [OF sl] by simp
  have nd': "no_dotdot (?b @ SLASH # c)"
    using nd assms(3) arg_cong [OF p, of path_components] by (auto simp: no_dotdot_def path_components_append_sep)
  have "ftp_path_is_within_root (?b @ SLASH # c) root = 1"
  proof (cases "length root = 1")
    case True
    have "take 1 (?b @ SLASH # c) = ''/''"
      using hd(1) p by (cases ?b) (auto, metis append_Cons hd(1) list.inject take_Suc_Cons One_nat_def)
    then show ?thesis using True hd by (simp add: ftp_path_is_within_root_def)
  next
    case False
    then obtain s where s: "p = root @ SLASH # s"
      using within_root_split [OF in_root] assms(2) by metis
    have "?b @ SLASH # ?a = root @ SLASH # s" using p s by simp
    then have "prefix root ?b"
      using after_last_no_sep [of SLASH p] by (auto simp: append_eq_append_conv2 append_eq_Cons_conv Cons_eq_append_conv prefix_def)
    then obtain d where d: "?b = root @ d" by (auto simp: prefix_def)
    have "d = [] \<or> hd d = SLASH" using p s d by (cases d) (metis append_assoc append_Cons list.sel(1) same_append_eq)+
    then obtain d' where "?b @ SLASH # c = root @ SLASH # d'" using d by (cases d) auto
    then show ?thesis using within_root_extend [OF hd(2)] by simp
  qed
  then show ?thesis using nd' by (simp add: confined_def)
qed

text \<open>The temporary file lies inside the root, unless the upload goes to the root itself.\<close>

lemma confined_slash: "confined root p \<Longrightarrow> SLASH \<in> set p"
  by (cases p) (auto simp: confined_def ftp_path_is_within_root_def split: if_splits)

lemma stor_tmp_inside:
  assumes "confined root p" "length p < FTP_PATH_MAX"
  shows "confined root (stor_tmp_path p) \<or> stor_tmp_path p = stor_tmp_path root"
proof (cases "p = root")
  case False
  obtain c where "stor_tmp_path p = before_last SLASH p @ SLASH # c" "prefix c (''.zftpd.tmp.'' @ after_last SLASH p)"
    using tmp_path_shape [OF confined_slash [OF assms(1)] assms(2)] by blast
  then show ?thesis
    using sibling_inside [OF assms(1) False] tmp_suffix_no_dotdot [OF _ after_last_no_sep] by metis
qed simp

section \<open>The handlers\<close>

text \<open>How the start of an upload ends: with a reply, or with an open data connection.\<close>

definition same_user :: "ftp_session \<Rightarrow> ftp_session \<Rightarrow> bool" where
  "same_user s s' \<longleftrightarrow> ctrl_fd s' = ctrl_fd s \<and> root_path s' = root_path s \<and> cwd s' = cwd s \<and>
    rename_from s' = rename_from s \<and> crypto s' = crypto s \<and> stats s' = stats s"

definition gave_up :: "bool \<Rightarrow> string \<Rightarrow> int \<Rightarrow> ftp_session \<Rightarrow> event list \<Rightarrow> ftp_session \<Rightarrow> bool" where
  "gave_up use_atomic path fd s t s' \<longleftrightarrow>
    list_all (\<lambda>e. set (ev_paths e) \<subseteq> {path}) t \<and> (\<forall>p p' q. (Sys_rename p p', q) \<notin> set t) \<and>
    (if use_atomic then \<exists>q. (Sys_unlink path, q) \<in> set t else list_all (\<lambda>e. ev_paths e = []) t) \<and>
    (\<forall>h. bal h t = holds s' h - holds s h - of_bool (h = Fd fd)) \<and>
    data_fd s' = data_fd s \<and> same_user s s'"

definition started :: "int \<Rightarrow> ftp_session \<Rightarrow> event list \<Rightarrow> ftp_session \<Rightarrow> bool" where
  "started fd s t s' \<longleftrightarrow>
    list_all (\<lambda>e. ev_paths e = []) t \<and> (\<forall>x. written_to x t = [] \<and> received_from x t = [] \<and> recv_only x t) \<and>
    (\<forall>h. bal h t = holds s' h - holds s h) \<and> 0 \<le> data_fd s' \<and> socket_opened (data_fd s') t \<and>
    (0 < restart_offset s \<longrightarrow> (\<exists>q u. t = (Sys_lseek fd (restart_offset s), q) # u \<and> 0 \<le> r_ret q)) \<and>
    same_user s s'"

lemma sends_moves:
  assumes "list_all (sends fd) t"
  shows "list_all (\<lambda>e. ev_paths e = []) t" "bal h t = 0" "written_to x t = []" "received_from x t = []" "recv_only x t"
proof -
  show "list_all (\<lambda>e. ev_paths e = []) t" "bal h t = 0" using sends_neutral [OF assms] by (simp_all add: neutralD)
  have "written_to x t = [] \<and> received_from x t = [] \<and> recv_only x t"
    using assms
  proof (induction t)
    case (Cons e t)
    then show ?case by (cases e) (auto simp: sends_def dest: quiet_still still_event split: syscall.splits)
  qed simp
  then show "written_to x t = []" "received_from x t = []" "recv_only x t" by simp_all
qed

lemma still_moves:
  assumes "list_all (\<lambda>e. ev_paths e = [] \<and> \<not> ev_moves e) t"
  shows "list_all (\<lambda>e. ev_paths e = []) t" "written_to x t = []" "received_from x t = []" "recv_only x t"
  using assms by (auto simp: list_all_iff intro!: still_trace still_recv_only)

lemma pathless_sub: "list_all (\<lambda>e. ev_paths e = []) t \<Longrightarrow> list_all (\<lambda>e. set (ev_paths e) \<subseteq> ps) t"
  by (simp add: list_all_iff)

lemma pathless_keeps:
  assumes "list_all (\<lambda>e. ev_paths e = []) t"
  shows "(Sys_rename p p', q) \<notin> set t" "(Sys_unlink p, q) \<notin> set t"
  using assms by (auto simp: list_all_iff)

lemmas pathless = sends_moves still_moves pathless_sub pathless_keeps pathless_no_open

lemma post_upload_start:
  assumes sat: "os_sat os posix" and ok: "data_fd (sess st) < 0" "0 \<le> fd"
    and Q1: "\<And>r w e t f. gave_up use_atomic path fd (sess st) t (f (sess st)) \<Longrightarrow> Q (Some r) (adv w e t (upd f st))"
    and Q2: "\<And>w e t f. started fd (sess st) t (f (sess st)) \<Longrightarrow> Q None (adv w e t (upd f st))"
  shows "post (upload_start os use_atomic path fd st) Q"
  unfolding upload_start_def stor_discard_def no_restart_def Let_def
  apply (intro post_open_data_socket wp)
  apply (use sat ok in simp_all)
  apply ((rule Q1 | rule Q2); auto simp: gave_up_def started_def same_user_def pathless holds_def)+
  done

text \<open>
  How the end of an upload ends: committed to \<open>final\<close>, or thrown away if it was fresh.
\<close>

definition finished ::
  "bool \<Rightarrow> string \<Rightarrow> string \<Rightarrow> int \<Rightarrow> bool \<Rightarrow> ftp_session \<Rightarrow> event list \<Rightarrow> ftp_session \<Rightarrow> bool" where
  "finished use_atomic path final fd ok s t s' \<longleftrightarrow>
    list_all (\<lambda>e. set (ev_paths e) \<subseteq> {path, final}) t \<and> (\<forall>p fl m q. (Sys_open p fl m, q) \<notin> set t) \<and>
    (\<forall>x. written_to x t = [] \<and> received_from x t = [] \<and> recv_only x t) \<and>
    (\<forall>h. bal h t = - of_bool (h = Fd fd) - holds s h) \<and> data_fd s' < 0 \<and> pasv_fd s' < 0 \<and>
    same_user s (s'\<lparr>stats := stats s\<rparr>) \<and>
    (files_received (stats s') = files_received (stats s) \<and>
     (\<forall>p p' q. (Sys_rename p p', q) \<in> set t \<longrightarrow> r_ret q \<noteq> 0) \<and>
     (if use_atomic then \<exists>q. (Sys_unlink path, q) \<in> set t else list_all (\<lambda>e. ev_paths e = []) t) \<or>
     ok \<and> files_received (stats s') = files_received (stats s) + 1 \<and>
     (if use_atomic
      then \<exists>t1 q t2. t = t1 @ (Sys_rename path final, q) # t2 \<and> r_ret q = 0 \<and> list_all (\<lambda>e. ev_paths e = []) (t1 @ t2)
      else list_all (\<lambda>e. ev_paths e = []) t))"

lemma post_stor_finish:
  assumes sat: "os_sat os posix" and ok: "0 \<le> fd"
    and Q: "\<And>r w e t f. finished use_atomic path final fd (up_ok u) (sess st) t (f (sess st)) \<Longrightarrow> Q r (adv w e t (upd f st))"
  shows "post (stor_finish os use_atomic path final fd u st) Q"
  unfolding stor_finish_def stor_discard_def no_restart_def Let_def
  apply (intro wp)
  apply (use sat ok in simp_all)
  subgoal by (rule Q) (auto simp: finished_def same_user_def pathless holds_def)
  subgoal for r res t
    by (rule Q)
       (auto simp: finished_def same_user_def pathless holds_def
         intro!: exI [of _ "(Sys_fdatasync fd, r) # (Sys_close fd, res) # t"])
  subgoal by (rule Q) (auto simp: finished_def same_user_def pathless holds_def)
  subgoal by (rule Q) (auto simp: finished_def same_user_def pathless holds_def)
  subgoal by (rule Q) (auto simp: finished_def same_user_def pathless holds_def)
  done

text \<open>The events \<open>t\<close> of an upload that counts as received: see the property below.\<close>

definition committed :: "ftp_session \<Rightarrow> event list \<Rightarrow> bool" where
  "committed s t \<longleftrightarrow>
    (\<exists>path wp fl q sock t1 t2. t = t1 @ t2 \<and> confined (root_path s) path \<and>
      (Sys_open wp fl FILE_PERM, q) \<in> set t1 \<and> 0 \<le> r_ret q \<and>
      list_all (\<lambda>e. set (ev_paths e) \<subseteq> {wp}) t1 \<and>
      0 \<le> sock \<and> socket_opened sock t1 \<and> recv_only sock t \<and> peer_closed sock t1 \<and>
      written_to (r_ret q) t1 = fst (cipher (crypto s) (received_from sock t1)) \<and> written_to (r_ret q) t2 = [] \<and>
      (if restart_offset s = 0
       then wp = stor_tmp_path path \<and> O_TRUNC \<in> set fl \<and>
         (\<exists>q' u. t2 = (Sys_rename wp path, q') # u \<and> r_ret q' = 0 \<and> list_all (\<lambda>e. ev_paths e = []) u)
       else wp = path \<and> O_TRUNC \<notin> set fl \<and> list_all (\<lambda>e. ev_paths e = []) t2) \<and>
      (0 < restart_offset s \<longrightarrow>
        (\<exists>a q' u. t1 = a @ (Sys_lseek (r_ret q) (restart_offset s), q') # u \<and> 0 \<le> r_ret q' \<and> written_to (r_ret q) a = [])))"

lemma committedI:
  assumes "written_to (r_ret q) t1 = fst (cipher (crypto s) (received_from sock t1))"
    "list_all (\<lambda>e. set (ev_paths e) \<subseteq> {wp}) t1" "confined (root_path s) path"
    "(Sys_open wp fl FILE_PERM, q) \<in> set t1" "0 \<le> r_ret q" "written_to (r_ret q) t2 = []"
    "if restart_offset s = 0
     then wp = stor_tmp_path path \<and> O_TRUNC \<in> set fl \<and>
       (\<exists>q' u. t2 = (Sys_rename wp path, q') # u \<and> r_ret q' = 0 \<and> list_all (\<lambda>e. ev_paths e = []) u)
     else wp = path \<and> O_TRUNC \<notin> set fl \<and> list_all (\<lambda>e. ev_paths e = []) t2"
    "0 \<le> sock" "socket_opened sock t1" "recv_only sock (t1 @ t2)" "peer_closed sock t1"
    "0 < restart_offset s \<Longrightarrow>
      \<exists>a q' u. t1 = a @ (Sys_lseek (r_ret q) (restart_offset s), q') # u \<and> 0 \<le> r_ret q' \<and> written_to (r_ret q) a = []"
  shows "committed s (t1 @ t2)"
  using assms unfolding committed_def by blast

definition discarded :: "ftp_session \<Rightarrow> event list \<Rightarrow> bool" where
  "discarded s t \<longleftrightarrow> (\<forall>p p' q. (Sys_rename p p', q) \<in> set t \<longrightarrow> r_ret q \<noteq> 0) \<and>
    (if restart_offset s = 0
     then \<forall>p fl m q. (Sys_open p fl m, q) \<in> set t \<longrightarrow> (\<exists>q'. (Sys_unlink p, q') \<in> set t)
     else \<forall>p q. (Sys_unlink p, q) \<notin> set t)"

definition stor_claim :: "ftp_session \<Rightarrow> event list \<Rightarrow> ftp_session \<Rightarrow> bool" where
  "stor_claim s t s' \<longleftrightarrow>
    files_received (stats s') = files_received (stats s) \<and> discarded s t \<or>
    files_received (stats s') = files_received (stats s) + 1 \<and> committed s t"

lemma stor_path_inside:
  "resolved_ok root FTP_PATH_MAX (Inr p) \<Longrightarrow>
   confined root (stor_path off p) \<or> stor_path off p = stor_tmp_path root"
  using stor_tmp_inside [of root p] by (auto simp: stor_path_def resolved_ok_confined)

lemma inside_sub:
  "list_all (\<lambda>e. set (ev_paths e) \<subseteq> ps) t \<Longrightarrow> \<forall>p \<in> ps. confined root p \<or> p = stor_tmp_path root \<Longrightarrow>
   list_all (ev_inside root) t"
  by (fastforce simp: list_all_iff ev_inside_def)

lemma claim_discard:
  assumes "files_received (stats s') = files_received (stats s)"
    "\<And>p fl m q. (Sys_open p fl m, q) \<in> set t \<Longrightarrow> p = wp"
    "\<And>p p' q. (Sys_rename p p', q) \<in> set t \<Longrightarrow> r_ret q \<noteq> 0"
    "if restart_offset s = 0 then \<exists>q. (Sys_unlink wp, q) \<in> set t else \<forall>p q. (Sys_unlink p, q) \<notin> set t"
  shows "stor_claim s t s'"
  using assms by (auto simp: stor_claim_def discarded_def split: if_splits)

lemma claim_none:
  assumes "files_received (stats s') = files_received (stats s)" "list_all (\<lambda>e. ev_paths e = []) t"
  shows "stor_claim s t s'"
  using assms by (auto simp: stor_claim_def discarded_def pathless)

lemma sub_no_open: "list_all (\<lambda>e. set (ev_paths e) \<subseteq> {wp}) t \<Longrightarrow> (Sys_open p fl m, q) \<in> set t \<Longrightarrow> p = wp"
  by (auto simp: list_all_iff)

lemma stor_outcome:
  assumes x: "resolved_ok (root_path s) FTP_PATH_MAX (Inr x)" and q: "list_all quiet t" and fd: "0 \<le> r_ret res"
    and st: "started (r_ret res) s ta s1"
    and up: "uploaded_all (data_fd s1) (r_ret res) (crypto s1) b tb (fst (snd (snd v)))"
    and fin: "finished (restart_offset s = 0) (stor_path (restart_offset s) x) x (r_ret res) b (vol v s1) tc s2"
  shows "stor_claim s
    (t @ (Sys_open (stor_path (restart_offset s) x) (stor_flags (restart_offset s)) FILE_PERM, res) # ta @ tb @ tc) s2"
    (is "stor_claim s ?t s2")
proof -
  let ?wp = "stor_path (restart_offset s) x"
  let ?op = "(Sys_open ?wp (stor_flags (restart_offset s)) FILE_PERM, res)"
  have nopath: "list_all (\<lambda>e. ev_paths e = []) t" "list_all (\<lambda>e. ev_paths e = []) ta" "list_all (\<lambda>e. ev_paths e = []) tb"
    using q st up by (simp_all add: quiet_neutral neutralD(2) started_def uploaded_all_def uploaded_def)
  have recv: "files_received (stats s1) = files_received (stats s)" "crypto s1 = crypto s"
    using st by (simp_all add: started_def same_user_def)
  from fin consider
      (no) "files_received (stats s2) = files_received (stats (vol v s1))"
        "\<forall>p p' q. (Sys_rename p p', q) \<in> set tc \<longrightarrow> r_ret q \<noteq> 0"
        "if restart_offset s = 0 then \<exists>q. (Sys_unlink ?wp, q) \<in> set tc else list_all (\<lambda>e. ev_paths e = []) tc"
    | (yes) "b" "files_received (stats s2) = files_received (stats (vol v s1)) + 1"
        "if restart_offset s = 0
         then \<exists>t1 q t2. tc = t1 @ (Sys_rename ?wp x, q) # t2 \<and> r_ret q = 0 \<and> list_all (\<lambda>e. ev_paths e = []) (t1 @ t2)
         else list_all (\<lambda>e. ev_paths e = []) tc"
    unfolding finished_def by blast
  then show ?thesis
  proof cases
    case no
    then show ?thesis
      using nopath fin recv by (intro claim_discard [where wp = ?wp]) (auto simp: pathless finished_def split: if_splits)
  next
    case yes
    have "\<exists>t1 t2. tc = t1 @ t2 \<and> list_all (\<lambda>e. ev_paths e = []) t1 \<and>
      (if restart_offset s = 0
       then \<exists>q' u. t2 = (Sys_rename ?wp x, q') # u \<and> r_ret q' = 0 \<and> list_all (\<lambda>e. ev_paths e = []) u
       else list_all (\<lambda>e. ev_paths e = []) t2)"
      using yes(3) exI [of "\<lambda>t1. \<exists>t2. tc = t1 @ t2 \<and> list_all (\<lambda>e. ev_paths e = []) t1 \<and> list_all (\<lambda>e. ev_paths e = []) t2" "[]"]
      by (cases "restart_offset s = 0") auto
    then obtain t1 t2 where tc: "tc = t1 @ t2" "list_all (\<lambda>e. ev_paths e = []) t1"
      "if restart_offset s = 0
       then \<exists>q' u. t2 = (Sys_rename ?wp x, q') # u \<and> r_ret q' = 0 \<and> list_all (\<lambda>e. ev_paths e = []) u
       else list_all (\<lambda>e. ev_paths e = []) t2" by blast
    let ?t1 = "t @ ?op # ta @ tb @ t1"
    have w: "written_to y t1 = []" "received_from y t1 = []" "written_to y t2 = []" "received_from y t2 = []"
        "recv_only y t1" "recv_only y t2" for y
      using fin tc(1) by (auto simp: finished_def)
    have "written_to (r_ret res) ?t1 = fst (cipher (crypto s) (received_from (data_fd s1) ?t1))"
      using up yes(1) st quiet_moves [OF q] recv w by (simp add: uploaded_all_def uploaded_def started_def)
    moreover have "list_all (\<lambda>e. set (ev_paths e) \<subseteq> {?wp}) ?t1"
      using nopath tc(2) by (auto simp: list_all_iff)
    moreover have "0 \<le> data_fd s1" "socket_opened (data_fd s1) ?t1" "recv_only (data_fd s1) (?t1 @ t2)" "peer_closed (data_fd s1) ?t1"
      using up yes(1) st quiet_moves [OF q] w by (simp_all add: uploaded_all_def uploaded_def started_def)
    moreover have "0 < restart_offset s \<Longrightarrow> \<exists>a q' u. ?t1 = a @ (Sys_lseek (r_ret res) (restart_offset s), q') # u \<and>
        0 \<le> r_ret q' \<and> written_to (r_ret res) a = []"
      using st quiet_moves [OF q] by (intro exI [of _ "t @ [?op]"]) (auto simp: started_def)
    moreover have "confined (root_path s) x" using x by (simp add: resolved_ok_confined)
    ultimately have "committed s (?t1 @ t2)"
      by (intro committedI [where q = res and fl = "stor_flags (restart_offset s)" and wp = ?wp and sock = "data_fd s1"])
         (use tc(3) w fd in \<open>simp_all add: stor_path_def stor_flags_def split: if_splits\<close>)
    then have "committed s ?t" by (simp add: tc(1))
    then show ?thesis using yes recv by (simp add: stor_claim_def)
  qed
qed

lemma gave_up_keeps:
  assumes w: "confined root wp \<or> wp = stor_tmp_path root" and g: "gave_up at wp fd s t s'"
  shows "list_all (ev_inside root) t \<and> ev_inside root (Sys_open wp fl m, res) \<and>
    (\<forall>h. bal h t = holds s' h - holds s h - of_bool (h = Fd fd)) \<and>
    root_path s' = root_path s \<and> ctrl_fd s' = ctrl_fd s \<and> cwd s' = cwd s \<and> rename_from s' = rename_from s \<and>
    data_fd s' = data_fd s \<and> crypto s' = crypto s"
proof -
  have "list_all (ev_inside root) t"
    by (rule inside_sub [of "{wp}"]) (use w g in \<open>simp_all add: gave_up_def\<close>)
  then show ?thesis using w g by (simp add: gave_up_def same_user_def ev_inside_def)
qed

lemma gave_up_claim:
  assumes "list_all quiet t" "gave_up (restart_offset s = 0) wp fd s ta s'"
  shows "stor_claim s (t @ (Sys_open wp fl m, res) # ta) s'"
  using assms quiet_neutral [OF assms(1)]
  by (intro claim_discard [where wp = wp])
     (auto simp: gave_up_def same_user_def neutralD(2) pathless dest: sub_no_open split: if_splits)

lemma stor_end_keeps:
  assumes x: "resolved_ok root FTP_PATH_MAX (Inr x)" and st: "started fd s ta s1"
    and up: "uploaded_all sock fd c b tb (fst (snd (snd v)))" "crypto_ok c"
    and fin: "finished at (stor_path off x) x fd b (vol v s1) tc s2"
  shows "list_all (ev_inside root) (ta @ tb @ tc) \<and> ev_inside root (Sys_open (stor_path off x) fl m, res) \<and>
    (\<forall>h. bal h (ta @ tb @ tc) = holds s2 h - holds s h - of_bool (h = Fd fd)) \<and>
    root_path s2 = root_path s \<and> ctrl_fd s2 = ctrl_fd s \<and> cwd s2 = cwd s \<and> rename_from s2 = rename_from s \<and>
    data_fd s2 < 0 \<and> crypto_ok (crypto s2)"
proof -
  have w: "confined root (stor_path off x) \<or> stor_path off x = stor_tmp_path root" "confined root x"
    using stor_path_inside [OF x] x by (simp_all add: resolved_ok_confined)
  have "list_all (ev_inside root) tc"
    by (rule inside_sub [of "{stor_path off x, x}"]) (use fin w in \<open>auto simp: finished_def\<close>)
  moreover have "list_all (ev_inside root) ta" "list_all (ev_inside root) tb"
    using st up by (simp_all add: started_def uploaded_all_def uploaded_def inside_pathless inside_neutral)
  moreover have "crypto_ok (fst (snd (snd v)))" using up by (auto simp: uploaded_all_def intro: uploaded_ok)
  ultimately show ?thesis
    using st up fin w by (simp add: started_def uploaded_all_def uploaded_def finished_def same_user_def neutralD ev_inside_def)
qed

text \<open>A file that could not be opened: at most one call was made, and it failed.\<close>

lemma post_upload_open:
  assumes "\<And>r w e t. r < 0 \<Longrightarrow> t = [] \<or> (\<exists>q. t = [(Sys_open path flags mode, q)] \<and> r_ret q < 0) \<Longrightarrow> Q r (adv w e t st)"
    and "\<And>res w e. 0 \<le> r_ret res \<Longrightarrow> Q (r_ret res) (adv w e [(Sys_open path flags mode, res)] st)"
  shows "post (pal_file_open os path flags mode st) Q"
  unfolding pal_file_open_def
  by (intro wp) (simp_all add: assms set_errno_def)

lemma unopened:
  assumes "t = [] \<or> (\<exists>q. t = [(Sys_open wp fl m, q)] \<and> r_ret q < 0)"
  shows "touches [wp] t" "(Sys_open p fl' m', q') \<in> set t \<Longrightarrow> p = wp" "(Sys_rename p p', q') \<notin> set t"
    "(Sys_unlink p, q') \<notin> set t"
  using assms by (auto simp: touches_def)

lemma unopened_claim:
  assumes "t = [] \<or> (\<exists>q. t = [(Sys_open wp fl m, q)] \<and> r_ret q < 0)" "list_all quiet a" "list_all (sends c) b"
    "files_received (stats s') = files_received (stats s)"
  shows "restart_offset s = 0 \<Longrightarrow> stor_claim s (a @ t @ (Sys_unlink wp, q) # b) s'"
    "restart_offset s \<noteq> 0 \<Longrightarrow> stor_claim s (a @ t @ b) s'"
  using unopened [OF assms(1)] assms(4) neutralD(2) [OF quiet_neutral [OF assms(2)]] sends_moves(1) [OF assms(3)]
  by (auto simp: pathless intro!: claim_discard [where wp = wp])

lemma stor_claim_run:
  assumes sat: "os_sat os posix" and ok: "sess_ok (sess st)"
  shows "post (cmd_STOR os args st) (\<lambda>_ st'. keeps st st' \<and>
    (\<forall>t. trace st' = trace st @ t \<longrightarrow> stor_claim (sess st) t (sess st')))"
  unfolding cmd_STOR_def no_restart_def stor_discard_def Let_def
  apply (intro post_upload_open post_upload_start [OF sat] post_stor_receive [OF sat] post_stor_finish [OF sat] wp)
  apply (use sat ok in \<open>simp_all add: sess_okD\<close>)
  subgoal by (rule claim_none) simp_all
  subgoal by (simp add: contract claim_none quiet_neutral sends_neutral neutralD(2))
  subgoal for a r t x ra ta rb tb
    using stor_path_inside [of "root_path (sess st)" x 0]
      touchesD(1,2) [OF unopened(1) [of ta "stor_path 0 x" "stor_flags 0" FILE_PERM]]
      unopened_claim(1) [of ta "stor_path 0 x" "stor_flags 0" FILE_PERM t "ctrl_fd (sess st)" tb _ "sess st" rb]
    by (simp add: contract) (erule inside_sub, simp)
  subgoal for a r t x ra ta tb
    using stor_path_inside [of "root_path (sess st)" x "restart_offset (sess st)"]
      touchesD(1,2) [OF unopened(1) [of ta "stor_path (restart_offset (sess st)) x" "stor_flags (restart_offset (sess st))" FILE_PERM]]
      unopened_claim(2) [of ta "stor_path (restart_offset (sess st)) x" "stor_flags (restart_offset (sess st))" FILE_PERM t
        "ctrl_fd (sess st)" tb _ "sess st"]
    by (simp add: contract) (erule inside_sub, simp)
  subgoal for a r t x res ra ta f
    using stor_path_inside [of "root_path (sess st)" x "restart_offset (sess st)"]
      gave_up_keeps [of "root_path (sess st)" "stor_path (restart_offset (sess st)) x" _ "r_ret res" "sess st" ta "f (sess st)"]
      gave_up_claim [of t "sess st" "stor_path (restart_offset (sess st)) x" "r_ret res" ta "f (sess st)"]
    by (auto simp: inside balance sess_ok_def)
  subgoal by (simp add: started_def same_user_def sess_okD)
  subgoal premises prems for a r t x res ta f u tb v tc fa
  proof -
    have c: "crypto_ok (crypto (f (sess st)))" using prems(6) ok by (simp add: started_def same_user_def sess_okD)
    have r: "resolved_ok (root_path (sess st)) FTP_PATH_MAX (Inr x)" "0 \<le> r_ret res" using prems(2,5) by simp_all
    show ?thesis
      using stor_end_keeps [OF r(1) prems(6,7) c prems(8), of "stor_flags (restart_offset (sess st))" FILE_PERM res]
        stor_outcome [OF r(1) prems(3) r(2) prems(6-8)] ok prems(3)
      by (auto simp: inside balance sess_ok_def)
  qed
  done

text \<open>The temporary name for the root itself lies next to the root.\<close>

lemma tmp_of_root:
  assumes "after_last SLASH root \<noteq> []" "SLASH \<in> set root" "length root + 11 < FTP_PATH_MAX"
  shows "stor_tmp_path root = before_last SLASH root @ SLASH # ''.zftpd.tmp.'' @ after_last SLASH root"
    "length (stor_tmp_path root) = length root + 11"
proof -
  have "length root = length (before_last SLASH root) + Suc (length (after_last SLASH root))"
    using arg_cong [OF split_last [OF assms(2)], of length] by simp
  then show "stor_tmp_path root = before_last SLASH root @ SLASH # ''.zftpd.tmp.'' @ after_last SLASH root"
    "length (stor_tmp_path root) = length root + 11"
    using assms by (simp_all add: stor_tmp_path_def)
qed

lemma tmp_of_root_outside:
  assumes "after_last SLASH root \<noteq> []" "length root + 11 < FTP_PATH_MAX"
  shows "ftp_path_is_within_root (stor_tmp_path root) root = 0"
proof (cases "SLASH \<in> set root")
  case True
  let ?b = "before_last SLASH root" and ?a = "after_last SLASH root" and ?t = "stor_tmp_path root"
  have root: "root = ?b @ SLASH # ?a" using split_last [OF True] by simp
  have t: "?t = ?b @ SLASH # ''.zftpd.tmp.'' @ ?a" "length ?t = length root + 11"
    using tmp_of_root [OF assms(1) True assms(2)] by auto
  have "length root \<noteq> 1" using assms(1) arg_cong [OF root, of length] by simp
  moreover have "?t \<noteq> root @ SLASH # s" for s
  proof
    assume "?t = root @ SLASH # s"
    then have "?b @ SLASH # ''.zftpd.tmp.'' @ ?a = ?b @ SLASH # ?a @ SLASH # s" using t(1) root by (metis append_assoc append_Cons)
    then have "SLASH \<in> set (''.zftpd.tmp.'' @ ?a)" by simp
    then show False using after_last_no_sep [of SLASH root] by simp
  qed
  moreover have "?t \<noteq> root" using t(2) by auto
  ultimately have "ftp_path_is_within_root ?t root \<noteq> 1" using within_root_split [of ?t root] by blast
  moreover have "ftp_path_is_within_root ?t root \<in> {0, 1}" by (simp add: ftp_path_is_within_root_def)
  ultimately show ?thesis by blast
next
  case False
  then have "take 1 root \<noteq> ''/''" by (cases root) auto
  then show ?thesis by (simp add: ftp_path_is_within_root_def)
qed

lemma post_upload_tried:
  assumes "length path < FTP_PATH_MAX"
    and "\<And>r w e q. r < 0 \<or> r = r_ret q \<Longrightarrow> Q r (adv w e [(Sys_open path flags mode, q)] st)"
  shows "post (pal_file_open os path flags mode st) Q"
  unfolding pal_file_open_def
  by (intro wp) (use assms(1) in \<open>simp_all add: assms(2)\<close>)

lemma stor_root_run:
  assumes sat: "os_sat os posix" and ok: "sess_ok (sess st)" and off: "restart_offset (sess st) = 0"
    and res: "ftp_path_resolve os a FTP_PATH_MAX st = Some (Inr (root_path (sess st)), st1)"
    and root: "after_last SLASH (root_path (sess st)) \<noteq> []" "length (root_path (sess st)) + 11 < FTP_PATH_MAX"
  shows "post (cmd_STOR os (Some a) st) (\<lambda>_ st'. \<forall>t. trace st' = trace st @ t \<longrightarrow>
    (\<exists>q. (Sys_open (stor_tmp_path (root_path (sess st))) [O_WRONLY, O_CREAT, O_TRUNC] FILE_PERM, q) \<in> set t))"
proof -
  have "post (ftp_path_resolve os a FTP_PATH_MAX st) (\<lambda>_ st'. \<exists>w e t. st' = adv w e t st)"
    by (intro wp) (use sat in blast)+
  then obtain w e u where st1: "st1 = adv w e u st" using postD [OF _ res] by blast
  have "SLASH \<in> set (root_path (sess st))"
    using ok by (cases "root_path (sess st)") (auto simp: sess_ok_def confined_def ftp_path_is_within_root_def split: if_splits)
  then have len: "length (stor_tmp_path (root_path (sess st))) < FTP_PATH_MAX" using tmp_of_root(2) root by simp
  show ?thesis
    unfolding cmd_STOR_def option.case res st1 no_restart_def stor_discard_def Let_def bind.bind_lunit prod.case sum.case
    apply (intro post_upload_tried post_upload_start [OF sat] post_stor_receive [OF sat] post_stor_finish [OF sat] wp)
    apply (use sat ok off len in \<open>simp_all add: sess_okD stor_path_def stor_flags_def\<close>)
    subgoal by blast
    subgoal by blast
    subgoal by (simp add: started_def same_user_def sess_okD)
    subgoal by blast
    done
qed

interpretation STOR: ftp_handler cmd_STOR
  by unfold_locales (rule post_mono [OF stor_claim_run], auto)

definition appended :: "int \<Rightarrow> ftp_session \<Rightarrow> event list \<Rightarrow> ftp_session \<Rightarrow> bool" where
  "appended fd s t s' \<longleftrightarrow>
    list_all (\<lambda>e. ev_paths e = []) t \<and> (\<forall>h. bal h t = - of_bool (h = Fd fd) - holds s h) \<and>
    data_fd s' < 0 \<and> pasv_fd s' < 0 \<and> crypto_ok (crypto s') \<and> root_path s' = root_path s \<and>
    ctrl_fd s' = ctrl_fd s \<and> cwd s' = cwd s \<and> rename_from s' = rename_from s"

lemma post_appe_transfer:
  assumes sat: "os_sat os posix" and ok: "0 \<le> fd" "crypto_ok (crypto (sess st))"
    and Q: "\<And>r w e t f. appended fd (sess st) t (f (sess st)) \<Longrightarrow> Q r (adv w e t (upd f st))"
  shows "post (appe_transfer os fd st) Q"
  unfolding appe_transfer_def no_restart_def buffer_rel Let_def
  apply (intro post_single_loop [OF sat] wp)
  apply (use sat ok in \<open>simp_all add: rel_acquired\<close>)
  subgoal by (drule acquire_None, simp, rule Q) (auto simp: appended_def pathless)
  subgoal by (rule Q) (auto simp: appended_def pathless uploaded_all_def uploaded_def neutralD intro: moved_ok)
  subgoal by (rule Q) (auto simp: appended_def pathless uploaded_all_def uploaded_def neutralD intro: moved_ok)
  done

lemma appe_keeps:
  assumes sat: "os_sat os posix" and ok: "sess_ok (sess st)"
  shows "post (cmd_APPE os args st) (\<lambda>_. keeps st)"
  unfolding cmd_APPE_def no_restart_def Let_def
  apply (intro post_upload_start [OF sat] post_appe_transfer [OF sat] wp)
  apply (use sat ok in \<open>simp_all add: sess_okD\<close>)
  subgoal by (simp add: contract)
  subgoal by (simp add: contract) (erule inside_touches, simp)
  subgoal for a r t x res ra ta f
    using gave_up_keeps [of "root_path (sess st)" x _ "r_ret res" "sess st" ta "f (sess st)"]
    by (auto simp: inside balance sess_ok_def resolved_ok_confined)
  subgoal by (simp add: started_def same_user_def sess_okD)
  subgoal by (auto simp: contract started_def same_user_def appended_def inside_pathless)
  done

interpretation APPE: ftp_handler cmd_APPE
  by unfold_locales (rule appe_keeps)

section \<open>Properties\<close>

text \<open>
  C2: what \<^verbatim>\<open>STOR\<close> does with the file, whatever the system answers and however its threads are
  scheduled.  Either it counts no file.  Then no rename has succeeded, and a fresh upload
  (\<^verbatim>\<open>REST\<close> offset 0) has unlinked every file it tried to open, while a resumed one has unlinked
  nothing: its file was written in place and is left for another try.  Or it counts one
  file.  Then there is one data socket, created or accepted by this command, on which all
  receiving was done until its peer closed it, and what was written to the file is the
  decryption of everything received there, in order.  A fresh upload was written to a
  truncated temporary name, the only path named before the end, and only then renamed to a
  path inside the root.  A resumed one was written, without truncation, to the path inside the
  root itself, after a successful seek to a positive offset.
\<close>

theorem stor_all_or_nothing:
  assumes "os_sat os posix" "sess_ok (sess st)"
    and "cmd_STOR os (Some a) st = Some (r, st')" "trace st' = trace st @ t"
  shows "files_received (stats (sess st')) = files_received (stats (sess st)) \<and>
      (\<forall>p p' q. (Sys_rename p p', q) \<in> set t \<longrightarrow> r_ret q \<noteq> 0) \<and>
      (if restart_offset (sess st) = 0
       then \<forall>p fl m q. (Sys_open p fl m, q) \<in> set t \<longrightarrow> (\<exists>q'. (Sys_unlink p, q') \<in> set t)
       else \<forall>p q. (Sys_unlink p, q) \<notin> set t) \<or>
    files_received (stats (sess st')) = files_received (stats (sess st)) + 1 \<and>
      (\<exists>path wp fl q sock t1 t2. t = t1 @ t2 \<and> confined (root_path (sess st)) path \<and>
        (Sys_open wp fl FILE_PERM, q) \<in> set t1 \<and> 0 \<le> r_ret q \<and>
        list_all (\<lambda>e. set (ev_paths e) \<subseteq> {wp}) t1 \<and>
        0 \<le> sock \<and> socket_opened sock t1 \<and> recv_only sock t \<and> peer_closed sock t1 \<and>
        written_to (r_ret q) t1 = fst (cipher (crypto (sess st)) (received_from sock t1)) \<and>
        written_to (r_ret q) t2 = [] \<and>
        (if restart_offset (sess st) = 0
         then wp = stor_tmp_path path \<and> O_TRUNC \<in> set fl \<and>
           (\<exists>q' u. t2 = (Sys_rename wp path, q') # u \<and> r_ret q' = 0 \<and> list_all (\<lambda>e. ev_paths e = []) u)
         else wp = path \<and> O_TRUNC \<notin> set fl \<and> list_all (\<lambda>e. ev_paths e = []) t2) \<and>
        (0 < restart_offset (sess st) \<longrightarrow>
          (\<exists>a q' u. t1 = a @ (Sys_lseek (r_ret q) (restart_offset (sess st)), q') # u \<and> 0 \<le> r_ret q' \<and>
            written_to (r_ret q) a = [])))"
proof -
  have "stor_claim (sess st) t (sess st')"
    using postD [OF stor_claim_run [OF assms(1,2)] assms(3)] assms(4) by blast
  then show ?thesis unfolding stor_claim_def discarded_def committed_def conj_assoc .
qed

text \<open>
  C37: an upload to the root directory itself leaves the root.  Where the argument resolves to the
  root, and the root has a name, every fresh upload tries to create or truncate a file
  next to the root, which the check for the root does not accept.
\<close>

theorem stor_root_outside:
  assumes "os_sat os posix" "sess_ok (sess st)" "restart_offset (sess st) = 0"
    and "ftp_path_resolve os a FTP_PATH_MAX st = Some (Inr (root_path (sess st)), st1)"
    and "after_last SLASH (root_path (sess st)) \<noteq> []" "length (root_path (sess st)) + 11 < FTP_PATH_MAX"
    and "cmd_STOR os (Some a) st = Some (r, st')" "trace st' = trace st @ t"
  shows "(\<exists>q. (Sys_open (stor_tmp_path (root_path (sess st))) [O_WRONLY, O_CREAT, O_TRUNC] FILE_PERM, q) \<in> set t) \<and>
    ftp_path_is_within_root (stor_tmp_path (root_path (sess st))) (root_path (sess st)) = 0"
  using tmp_of_root_outside [of "root_path (sess st)"] postD [OF stor_root_run [OF assms(1-6)] assms(7)] assms(5,6,8)
  by blast

section \<open>Witnesses\<close>

text \<open>An upload of three bytes by two threads over an active data connection.\<close>

definition stor_script :: "sysres list" where
  "stor_script =
    [io_res 0, (io_res 0)\<lparr>r_str := ''/srv/f''\<rparr>, io_res 7,
     io_res (int (6 + length (get_default_message R150_FILE_OK))), io_res 8,
     io_res 0, io_res 0, io_res 0, io_res 0, io_res 0, io_res 0, io_res 0, io_res 0, io_res 0, io_res 0, io_res 0,
     io_res 0,
     io_res 0, io_res 0, (io_res 3)\<lparr>r_data := [1, 2, 3]\<rparr>, io_res 0, io_res 0, io_res 0, io_res 0,
     io_res 0, io_res 3, io_res 0, io_res 0, io_res 0, io_res 0, io_res 0, io_res 0, io_res 0,
     io_res 0, io_res 0, io_res 0, io_res 0, io_res (int (6 + length (get_default_message R226_TRANSFER_COMPLETE)))]"

definition stor_st :: "sysres list st" where
  "stor_st = start_st stor_script (demo_session\<lparr>data_mode := FTP_DATA_MODE_ACTIVE\<rparr>)"

lemma stor_resolve:
  "ftp_path_resolve script_os ''../f'' FTP_PATH_MAX stor_st =
    Some (Inr ''/srv/f'', adv (drop 2 stor_script) 0
      [(Sys_stat ''/srv/f'', io_res 0), (Sys_realpath ''/srv/f'', (io_res 0)\<lparr>r_str := ''/srv/f''\<rparr>)] stor_st)"
  by code_simp

lemma two_buffers: "acquire_mask 0 = (Some 0, 1)" "acquire_mask 1 = (Some 1, 3)"
  by code_simp+

lemma stor_tmp_f: "stor_tmp_path ''/srv/f'' = ''/srv/.zftpd.tmp.f''"
  by code_simp

lemma stor_run:
  "\<exists>r st'. cmd_STOR script_os (Some ''../f'') stor_st = Some (r, st') \<and> files_received (stats (sess st')) = 1"
  unfolding cmd_STOR_def
  apply (simp add: stor_resolve [simplified] stor_path_def stor_flags_def)
  apply (simp add: stor_script_def pal_file_open_def syscall_def posix_def stor_st_def demo_session_def zero_session_def stor_tmp_f)
  apply (simp add: upload_start_def reply_sent ftp_session_open_data_connection_def open_data_active_def syscall_def setsockopt_def
    pal_socket_configure_data_def pal_socket_set_timeouts_def posix_def)
  apply (simp add: stor_receive_def ftp_buffer_acquire_def two_buffers syscall_def posix_def pipe_upload_def)
  apply (simp add: pipe_loop.simps [of script_os] prod_step_def writer_step_def stor_run_defs syscall_def posix_def
    ftp_session_recv_data_def ftp_buffer_size_def touch_def sys_time_def pal_file_write_all_def write_all_loop.simps set_errno_def)
  by (simp add: stor_finish_def no_restart_def stor_discard_def syscall_def posix_def pal_file_close_def buffer_release_eq
    ftp_session_close_data_connection_def pal_close_def reply_sent)

lemma stor_st_ok: "sess_ok (sess stor_st)"
proof -
  have "confined ''/srv'' ''/srv/a''" by code_simp
  then show ?thesis by (simp add: sess_ok_def stor_st_def demo_session_def zero_session_def crypto_ok_def)
qed

theorem stor_all_or_nothing_witness:
  "\<exists>r st' path t1 q' u. cmd_STOR script_os (Some ''../f'') stor_st = Some (r, st') \<and>
     trace st' = t1 @ (Sys_rename (stor_tmp_path path) path, q') # u \<and> r_ret q' = 0 \<and> confined ''/srv'' path"
proof -
  obtain r st' where run: "cmd_STOR script_os (Some ''../f'') stor_st = Some (r, st')"
    and st': "files_received (stats (sess st')) = 1" using stor_run by blast
  have s: "sess stor_st = demo_session\<lparr>data_mode := FTP_DATA_MODE_ACTIVE\<rparr>" "trace stor_st = []"
    by (simp_all add: stor_st_def)
  have z: "files_received (stats demo_session) = 0" "restart_offset demo_session = 0" "root_path demo_session = ''/srv''"
    by (simp_all add: demo_session_def zero_session_def)
  from stor_all_or_nothing [OF script_os_posix stor_st_ok run, of "trace st'"] run st' show ?thesis
    by (simp add: s z) blast
qed

text \<open>An upload to the root, without a data connection.\<close>

definition root_script :: "sysres list" where
  "root_script =
    [io_res 0, (io_res 0)\<lparr>r_str := ''/srv''\<rparr>, io_res 7,
     io_res (int (6 + length (get_default_message R150_FILE_OK))), io_res 0, io_res 0,
     io_res (int (6 + length (get_default_message R425_CANT_OPEN_DATA)))]"

definition root_st :: "sysres list st" where
  "root_st = start_st root_script demo_session"

lemma root_resolve:
  "ftp_path_resolve script_os ''..'' FTP_PATH_MAX root_st =
    Some (Inr ''/srv'', adv (drop 2 root_script) 0
      [(Sys_stat ''/srv'', io_res 0), (Sys_realpath ''/srv'', (io_res 0)\<lparr>r_str := ''/srv''\<rparr>)] root_st)"
  by code_simp

lemma stor_tmp_srv: "stor_tmp_path ''/srv'' = ''/.zftpd.tmp.srv''"
  by code_simp

lemma demo_fields:
  "ctrl_fd demo_session = 4" "data_fd demo_session = -1" "data_mode demo_session = FTP_DATA_MODE_NONE"
  "restart_offset demo_session = 0" "root_path demo_session = ''/srv''"
  by (simp_all add: demo_session_def zero_session_def)

lemma root_run: "\<exists>r st'. cmd_STOR script_os (Some ''..'') root_st = Some (r, st')"
  unfolding cmd_STOR_def
  apply (simp add: root_resolve [simplified] stor_path_def stor_flags_def)
  apply (simp add: root_script_def pal_file_open_def syscall_def posix_def root_st_def demo_fields stor_tmp_srv)
  apply (simp add: demo_fields upload_start_def reply_sent ftp_session_open_data_connection_def syscall_def posix_def pal_file_close_def
    stor_discard_def no_restart_def Let_def)
  done

theorem stor_root_outside_witness:
  "\<exists>r st' q. cmd_STOR script_os (Some ''..'') root_st = Some (r, st') \<and>
     (Sys_open ''/.zftpd.tmp.srv'' [O_WRONLY, O_CREAT, O_TRUNC] FILE_PERM, q) \<in> set (trace st') \<and>
     ftp_path_is_within_root ''/.zftpd.tmp.srv'' ''/srv'' = 0"
proof -
  obtain r st' where run: "cmd_STOR script_os (Some ''..'') root_st = Some (r, st')" using root_run by blast
  have s: "root_path (sess root_st) = ''/srv''" "restart_offset (sess root_st) = 0" "trace root_st = []"
    by (simp_all add: root_st_def demo_session_def zero_session_def)
  have ok: "sess_ok (sess root_st)"
    using stor_st_ok by (simp add: root_st_def stor_st_def sess_ok_def)
  have "after_last SLASH ''/srv'' \<noteq> []" by code_simp
  then show ?thesis
    using stor_root_outside [OF script_os_posix ok s(2) root_resolve [folded s(1)] _ _ run, of "trace st'"] run
    by (auto simp: s stor_tmp_srv)
qed

end
