(* ===== verification/Ftp_Cmd_Auth.thy ===== *)
theory Ftp_Cmd_Auth
  imports Ftp_Contract
begin

unbundle bit_operations_syntax

text \<open>
  Model of \<open>cmd_AUTH\<close> of \<^verbatim>\<open>src/src/ftp_commands.c\<close>: the server draws a nonce, tells it to the
  client in hexadecimal and switches the session to the key both derive from it.
\<close>

section \<open>Definitions\<close>

definition nibble_to_hex :: "byte \<Rightarrow> char" where
  "nibble_to_hex n = (if n < 10 then char_of (48 + unat n) else char_of (97 + (unat n - 10)))"

text \<open>The fallback generator: a linear congruence on 64 bits.\<close>

fun lcg_bytes :: "nat \<Rightarrow> 64 word \<Rightarrow> byte list" where
  "lcg_bytes 0 seed = []"
| "lcg_bytes (Suc n) seed =
    (let seed = seed * 6364136223846793005 + 1442695040888963407
     in ucast (drop_bit 33 seed) # lcg_bytes n seed)"

definition generate_nonce :: "'w os \<Rightarrow> nat \<Rightarrow> 'w st \<Rightarrow> (byte list \<times> 'w st) ret" where
  "generate_nonce os len st = do {
     let fallback = (\<lambda>st. do {
           (r, st) \<leftarrow> syscall os Sys_clock st;
           Some (lcg_bytes len (of_int (r_ret r)), st) });
     (fd, st) \<leftarrow> pal_file_open os ''/dev/urandom'' [O_RDONLY] 0 st;
     if fd \<ge> 0 then do {
       ((n, buf), st) \<leftarrow> pal_file_read os fd len st;
       (_, st) \<leftarrow> pal_file_close os fd st;
       if n = int len then Some (buf, st) else fallback st }
     else fallback st }"

definition FTP_CRYPTO_PSK :: "byte list" where
  "FTP_CRYPTO_PSK =
    [0x7A, 0x46, 0x54, 0x50, 0x44, 0x2D, 0x43, 0x68, 0x61, 0x43, 0x68,
     0x61, 0x32, 0x30, 0x2D, 0x4B, 0x65, 0x79, 0x2D, 0x44, 0x65, 0x66,
     0x61, 0x75, 0x6C, 0x74, 0x21, 0x40, 0x23, 0x24, 0x25, 0x5E]"

definition hex_nonce :: "byte list \<Rightarrow> string" where
  "hex_nonce nonce =
    concat (map (\<lambda>b. [nibble_to_hex (drop_bit 4 b AND 0x0F), nibble_to_hex (b AND 0x0F)]) nonce)"

definition cmd_AUTH :: "'w handler" where
  "cmd_AUTH os args st =
    (case args of
       None \<Rightarrow> Some (FTP_ERR_INVALID_PARAM, st)
     | Some a \<Rightarrow>
         if a \<noteq> ''XCRYPT'' \<and> a \<noteq> ''xcrypt'' then
           ftp_session_send_reply os R504_NOT_IMPL_PARAM (Some ''Unsupported AUTH mechanism.'') st
         else if active (crypto (sess st)) \<noteq> 0 then
           ftp_session_send_reply os R503_BAD_SEQUENCE (Some ''Already encrypted.'') st
         else do {
           (nonce, st) \<leftarrow> generate_nonce os 12 st;
           let session_key = ftp_crypto_derive_key FTP_CRYPTO_PSK nonce;
           let reply_msg = take 63 (''XCRYPT '' @ hex_nonce nonce);
           (err, st) \<leftarrow> ftp_session_send_reply os R234_AUTH_OK (Some reply_msg) st;
           if err = FTP_OK then
             Some (err, upd (\<lambda>s. s\<lparr>crypto := ftp_crypto_init session_key nonce\<rparr>) st)
           else Some (err, st) })"

subsection \<open>The client's side\<close>

text \<open>The client reads the nonce back from the hexadecimal digits.\<close>

definition hex_val :: "char \<Rightarrow> byte" where
  "hex_val c = (if isdigit c then of_nat (char_code c - 48) else of_nat (char_code c - 87))"

fun unhex :: "string \<Rightarrow> byte list" where
  "unhex (a # b # cs) = (push_bit 4 (hex_val a) OR hex_val b) # unhex cs"
| "unhex _ = []"

definition client_ctx :: "string \<Rightarrow> ftp_crypto_ctx" where
  "client_ctx hex = (let nonce = unhex hex in ftp_crypto_init (ftp_crypto_derive_key FTP_CRYPTO_PSK nonce) nonce)"

section \<open>Lemmas\<close>

lemma hex_val_nibble: "n < 16 \<Longrightarrow> hex_val (nibble_to_hex n) = n"
proof -
  assume "n < 16"
  then have n: "unat n < 16" by (simp add: word_less_nat_alt)
  have lt: "n < 10 \<longleftrightarrow> unat n < 10" by (simp add: word_less_nat_alt)
  show ?thesis
    using n by (auto simp: hex_val_def nibble_to_hex_def lt isdigit_def)
qed

lemma nibble_mask: "b AND 0x0F = take_bit 4 (b :: byte)"
proof -
  have "(0x0F :: byte) = mask 4" by (simp add: mask_eq_exp_minus_1)
  then show ?thesis by (simp add: take_bit_eq_mask)
qed

lemma nibble_less: "take_bit 4 (b :: byte) < 16"
  by (simp add: word_less_nat_alt take_bit_eq_mod unat_mod)

lemma nibbles_join: "push_bit 4 (take_bit 4 (drop_bit 4 b)) OR take_bit 4 b = (b :: byte)"
  by (rule bit_eqI) (auto simp: bit_simps)

lemma unhex_hex_nonce [simp]: "unhex (hex_nonce nonce) = nonce"
  by (induction nonce) (simp_all add: hex_nonce_def nibble_mask hex_val_nibble nibble_less nibbles_join)

lemma length_hex_nonce [simp]: "length (hex_nonce nonce) = 2 * length nonce"
  by (induction nonce) (simp_all add: hex_nonce_def)

lemma length_lcg_bytes [simp]: "length (lcg_bytes n seed) = n"
  by (induction n arbitrary: seed) (simp_all add: Let_def)

lemma post_generate_nonce:
  assumes sat: "os_sat os posix"
    and Q: "\<And>nonce w e t. length nonce = len \<Longrightarrow> (\<And>h. bal h t = 0) \<Longrightarrow> (\<And>root. list_all (ev_inside root) t) \<Longrightarrow>
      (\<And>fd. sent_to fd t = []) \<Longrightarrow> Q nonce (adv w e t st)"
  shows "post (generate_nonce os len st) Q"
  unfolding generate_nonce_def pal_file_open_def pal_file_read_def set_errno_def Let_def
  apply (intro post_syscall_sat [OF sat] wp)
  apply (auto intro!: Q simp: posix_def ev_inside_def split: if_splits)
  done

lemma crypto_ok_init [simp]: "crypto_ok (ftp_crypto_init key nonce)"
  unfolding crypto_ok_def by (blast intro: ctx_at_init)

text \<open>What \<^verbatim>\<open>AUTH\<close> does to the session, and what it tells the client.\<close>

definition auth_result :: "ftp_session \<Rightarrow> event list \<Rightarrow> ftp_error \<Rightarrow> ftp_session \<Rightarrow> bool" where
  "auth_result s t r s' \<longleftrightarrow>
    s' = s \<or>
    (\<exists>nonce. length nonce = 12 \<and> r = FTP_OK \<and> active (crypto s) = 0 \<and>
      s' = s\<lparr>crypto := ftp_crypto_init (ftp_crypto_derive_key FTP_CRYPTO_PSK nonce) nonce\<rparr> \<and>
      sent_to (ctrl_fd s) t = bytes_of (''234 XCRYPT '' @ hex_nonce nonce @ CRLF))"

lemma format_auth:
  assumes "length nonce = 12"
  shows "ftp_format_reply R234_AUTH_OK (Some (''XCRYPT '' @ hex_nonce nonce)) FTP_REPLY_BUFFER_SIZE =
    Inr (''234 XCRYPT '' @ hex_nonce nonce @ CRLF)"
proof -
  have n: "show_nat 234 = ''234''" by code_simp
  show ?thesis using assms by (subst format_reply_cases) (simp_all add: Let_def n)
qed

lemma auth_run:
  assumes sat: "os_sat os posix" and ok: "sess_ok (sess st)"
  shows "post (cmd_AUTH os args st) (\<lambda>r st'. keeps st st' \<and>
    (\<forall>t. trace st' = trace st @ t \<longrightarrow> auth_result (sess st) t r (sess st')))"
  unfolding cmd_AUTH_def Let_def
  apply (intro post_generate_nonce [OF sat] post_send_reply_text [OF sat] wp)
  apply (use ok in \<open>simp_all add: format_auth [simplified]\<close>)
  subgoal by (simp add: auth_result_def)
  subgoal by (simp add: auth_result_def contract)
  subgoal by (simp add: auth_result_def contract)
  subgoal by (auto simp: auth_result_def contract)
  subgoal by (simp add: auth_result_def contract)
  done

interpretation AUTH: ftp_handler cmd_AUTH
  by unfold_locales (rule post_mono [OF auth_run], auto)

section \<open>Properties\<close>

text \<open>
  C31: after a successful \<^verbatim>\<open>AUTH\<close> both sides agree on the key stream.  If the session was not
  encrypted before and is afterwards, the reply on the control connection carries 24
  hexadecimal digits, and the context a client derives from them is the context of the session.
\<close>

theorem auth_client_agrees:
  assumes "os_sat os posix" "sess_ok (sess st)"
    and "cmd_AUTH os (Some a) st = Some (r, st')" "trace st' = trace st @ t"
    and "crypto (sess st') \<noteq> crypto (sess st)"
  shows "\<exists>hex. length hex = 24 \<and> sent_to (ctrl_fd (sess st)) t = bytes_of (''234 XCRYPT '' @ hex @ CRLF) \<and>
    crypto (sess st') = client_ctx hex \<and> active (crypto (sess st)) = 0 \<and> r = FTP_OK"
proof -
  have "auth_result (sess st) t r (sess st')"
    using postD [OF auth_run [OF assms(1,2)] assms(3)] assms(4) by blast
  with assms(5) obtain nonce where n: "length nonce = 12" "r = FTP_OK" "active (crypto (sess st)) = 0"
    "crypto (sess st') = ftp_crypto_init (ftp_crypto_derive_key FTP_CRYPTO_PSK nonce) nonce"
    "sent_to (ctrl_fd (sess st)) t = bytes_of (''234 XCRYPT '' @ hex_nonce nonce @ CRLF)"
    unfolding auth_result_def by auto
  then show ?thesis by (intro exI [of _ "hex_nonce nonce"]) (simp add: client_ctx_def)
qed

section \<open>Witnesses\<close>

definition auth_st :: "sysres list st" where
  "auth_st = start_st [io_res (-1), io_res 0, io_res 37] demo_session"

lemma auth_demo:
  "\<exists>st'. cmd_AUTH script_os (Some ''XCRYPT'') auth_st = Some (FTP_OK, st') \<and> active (crypto (sess st')) \<noteq> 0 \<and>
    trace auth_st = [] \<and> sess auth_st = demo_session"
  by (simp add: cmd_AUTH_def auth_st_def demo_session_def zero_session_def generate_nonce_def pal_file_open_def syscall_def posix_def
      ftp_session_send_reply_def format_auth [simplified] pal_send_all_def send_all_loop.simps ftp_crypto_init_def)

theorem auth_client_agrees_witness:
  "\<exists>st' hex. cmd_AUTH script_os (Some ''XCRYPT'') auth_st = Some (FTP_OK, st') \<and> length hex = 24 \<and>
     sent_to 4 (trace st') = bytes_of (''234 XCRYPT '' @ hex @ CRLF) \<and> crypto (sess st') = client_ctx hex"
proof -
  obtain st' where run: "cmd_AUTH script_os (Some ''XCRYPT'') auth_st = Some (FTP_OK, st')"
    and st': "active (crypto (sess st')) \<noteq> 0" "trace auth_st = []" "sess auth_st = demo_session"
    using auth_demo by blast
  have ok: "sess_ok (sess auth_st)"
  proof -
    have "confined ''/srv'' ''/srv/a''" by code_simp
    then show ?thesis by (simp add: sess_ok_def st' demo_session_def zero_session_def crypto_ok_def)
  qed
  have "crypto (sess st') \<noteq> crypto (sess auth_st)"
    using st' by (auto simp: demo_session_def zero_session_def)
  from auth_client_agrees [OF script_os_posix ok run _ this, of "trace st'"] run show ?thesis
    by (auto simp: st' demo_session_def)
qed

end
