(* ===== verification/Ftp_Dispatch.thy ===== *)
theory Ftp_Dispatch
  imports Ftp_Cmd_Basic Ftp_Cmd_Data Ftp_Cmd_List Ftp_Cmd_Stor Ftp_Cmd_Auth
begin

text \<open>
  Model of the command table of \<^verbatim>\<open>src/src/ftp_protocol.c\<close> and of the dispatcher and the session
  thread of \<^verbatim>\<open>src/src/ftp_session.c\<close>.  The theorems compose the contracts of the
  handlers: what one handler keeps, a command keeps, and so does a whole session.
\<close>

section \<open>Definitions\<close>

record 'w ftp_command_entry =
  entry_name :: string
  entry_handler :: "'w handler"
  entry_args_req :: ftp_args_req

abbreviation (input) entry :: "string \<Rightarrow> 'w handler \<Rightarrow> ftp_args_req \<Rightarrow> 'w ftp_command_entry" where
  "entry n h a \<equiv> \<lparr>entry_name = n, entry_handler = h, entry_args_req = a\<rparr>"

definition command_table :: "'w ftp_command_entry list" where
  "command_table =
    [entry ''USER'' cmd_USER FTP_ARGS_REQUIRED,
     entry ''PASS'' cmd_PASS FTP_ARGS_OPTIONAL,
     entry ''QUIT'' cmd_QUIT FTP_ARGS_NONE,
     entry ''NOOP'' cmd_NOOP FTP_ARGS_NONE,
     entry ''CWD'' cmd_CWD FTP_ARGS_REQUIRED,
     entry ''CDUP'' cmd_CDUP FTP_ARGS_NONE,
     entry ''PWD'' cmd_PWD FTP_ARGS_NONE,
     entry ''LIST'' cmd_LIST FTP_ARGS_OPTIONAL,
     entry ''NLST'' cmd_NLST FTP_ARGS_OPTIONAL,
     entry ''MLSD'' cmd_MLSD FTP_ARGS_OPTIONAL,
     entry ''MLST'' cmd_MLST FTP_ARGS_OPTIONAL,
     entry ''RETR'' cmd_RETR FTP_ARGS_REQUIRED,
     entry ''STOR'' cmd_STOR FTP_ARGS_REQUIRED,
     entry ''APPE'' cmd_APPE FTP_ARGS_REQUIRED,
     entry ''REST'' cmd_REST FTP_ARGS_REQUIRED,
     entry ''DELE'' cmd_DELE FTP_ARGS_REQUIRED,
     entry ''RMD'' cmd_RMD FTP_ARGS_REQUIRED,
     entry ''MKD'' cmd_MKD FTP_ARGS_REQUIRED,
     entry ''RNFR'' cmd_RNFR FTP_ARGS_REQUIRED,
     entry ''RNTO'' cmd_RNTO FTP_ARGS_REQUIRED,
     entry ''CPFR'' cmd_CPFR FTP_ARGS_REQUIRED,
     entry ''CPTO'' cmd_CPTO FTP_ARGS_REQUIRED,
     entry ''COPY'' cmd_COPY FTP_ARGS_REQUIRED,
     entry ''PORT'' cmd_PORT FTP_ARGS_REQUIRED,
     entry ''PASV'' cmd_PASV FTP_ARGS_NONE,
     entry ''EPSV'' cmd_EPSV FTP_ARGS_OPTIONAL,
     entry ''OPTS'' cmd_OPTS FTP_ARGS_REQUIRED,
     entry ''SITE'' cmd_SITE FTP_ARGS_REQUIRED,
     entry ''CLNT'' cmd_CLNT FTP_ARGS_OPTIONAL,
     entry ''SIZE'' cmd_SIZE FTP_ARGS_REQUIRED,
     entry ''MDTM'' cmd_MDTM FTP_ARGS_REQUIRED,
     entry ''STAT'' cmd_STAT FTP_ARGS_OPTIONAL,
     entry ''SYST'' cmd_SYST FTP_ARGS_NONE,
     entry ''FEAT'' cmd_FEAT FTP_ARGS_NONE,
     entry ''HELP'' cmd_HELP FTP_ARGS_OPTIONAL,
     entry ''TYPE'' cmd_TYPE FTP_ARGS_REQUIRED,
     entry ''MODE'' cmd_MODE FTP_ARGS_REQUIRED,
     entry ''STRU'' cmd_STRU FTP_ARGS_REQUIRED,
     entry ''AUTH'' cmd_AUTH FTP_ARGS_REQUIRED]"

definition ftp_find_command :: "string \<Rightarrow> 'w ftp_command_entry option" where
  "ftp_find_command name = find (\<lambda>e. strcasecmp_eq name (entry_name e)) command_table"

definition ftp_get_command_table :: "'w ftp_command_entry list \<times> nat" where
  "ftp_get_command_table = (command_table, length (command_table :: 'w ftp_command_entry list))"

text \<open>The commands a client may use before it has logged in.\<close>

definition preauth :: "string list" where
  "preauth = [''USER'', ''PASS'', ''QUIT'', ''NOOP'', ''FEAT'', ''SYST'', ''AUTH'', ''OPTS'', ''CLNT'']"

text \<open>The call of the handler, the error counter, and the replies for errors no handler reported.\<close>

definition run_handler ::
  "'w os \<Rightarrow> 'w ftp_command_entry \<Rightarrow> string option \<Rightarrow> 'w st \<Rightarrow> (unit \<times> 'w st) ret" where
  "run_handler os cmd args st = do {
     (err, st) \<leftarrow> entry_handler cmd os args st;
     if err \<noteq> FTP_OK then do {
       let st = upd (\<lambda>s. s\<lparr>stats := (stats s)\<lparr>errors := errors (stats s) + 1\<rparr>\<rparr>) st;
       if err = FTP_ERR_NOT_FOUND then do {
         (_, st) \<leftarrow> ftp_session_send_reply os R550_FILE_ERROR None st; Some ((), st) }
       else if err = FTP_ERR_PERMISSION then do {
         (_, st) \<leftarrow> ftp_session_send_reply os R550_FILE_ERROR (Some ''Permission denied.'') st; Some ((), st) }
       else Some ((), st) }
     else Some ((), st) }"

definition ftp_session_process_command :: "'w os \<Rightarrow> string \<Rightarrow> 'w st \<Rightarrow> (int \<times> 'w st) ret" where
  "ftp_session_process_command os line st =
    (case ftp_parse_command_line line 64 FTP_CMD_BUFFER_SIZE of
       Inl _ \<Rightarrow> do { (_, st) \<leftarrow> ftp_session_send_reply os R500_SYNTAX_ERROR None st; Some (0, st) }
     | Inr (command, args) \<Rightarrow>
        (case ftp_find_command command of
           None \<Rightarrow> do {
             (_, st) \<leftarrow> ftp_session_send_reply os R500_SYNTAX_ERROR (Some ''Unknown command.'') st;
             Some (0, st) }
         | Some cmd \<Rightarrow>
             if \<not> authenticated (sess st) \<and> command \<notin> set preauth then do {
               (_, st) \<leftarrow> ftp_session_send_reply os R530_NOT_LOGGED_IN
                 (Some ''Please login with USER and PASS.'') st;
               Some (0, st) }
             else do {
               let cmd_args = (if args = [] then None else Some args);
               if ftp_validate_command_args (entry_args_req cmd) cmd_args \<noteq> FTP_OK then do {
                 (_, st) \<leftarrow> ftp_session_send_reply os R501_SYNTAX_ARGS None st;
                 Some (0, st) }
               else do {
                 (_, st) \<leftarrow> run_handler os cmd cmd_args st;
                 Some (if command = ''QUIT'' then 1 else 0, st) } }))"

text \<open>The loop of the session thread; a line of the client ends at its first NUL.\<close>

partial_function (option) session_loop :: "'w os \<Rightarrow> 'w st \<Rightarrow> (unit \<times> 'w st) ret" where
  "session_loop os st = do {
     (now, st) \<leftarrow> sys_time os st;
     if now \<noteq> -1 \<and> now > last_activity (sess st) \<and> now - last_activity (sess st) > FTP_SESSION_TIMEOUT then do {
       (_, st) \<leftarrow> ftp_session_send_reply os R421_SERVICE_UNAVAIL (Some ''Idle timeout.'') st;
       Some ((), st) }
     else do {
       ((n, line), st) \<leftarrow> ftp_session_read_command os FTP_CMD_BUFFER_SIZE st;
       if n = 0 then Some ((), st)
       else if n < 0 then
         if n = err_code FTP_ERR_TIMEOUT \<or> n = err_code FTP_ERR_PROTOCOL then session_loop os st
         else Some ((), st)
       else do {
         (_, st) \<leftarrow> touch os st;
         (result, st) \<leftarrow> ftp_session_process_command os (cstring line) st;
         if result < 0 then Some ((), st)
         else do {
           let st = upd (\<lambda>s. s\<lparr>stats := (stats s)\<lparr>commands_processed := commands_processed (stats s) + 1\<rparr>\<rparr>) st;
           if result = 1 then Some ((), st) else session_loop os st } } } }"

text \<open>The session thread up to the point where it gives its slot back to the server.\<close>

definition ftp_session_thread :: "'w os \<Rightarrow> 'w st \<Rightarrow> (unit \<times> 'w st) ret" where
  "ftp_session_thread os st = do {
     (_, st) \<leftarrow> ftp_session_send_reply os R220_SERVICE_READY None st;
     (_, st) \<leftarrow> session_loop os st;
     ftp_session_cleanup os st }"

section \<open>The table\<close>

lemmas handler_axioms =
  USER.ftp_handler_axioms PASS.ftp_handler_axioms QUIT.ftp_handler_axioms NOOP.ftp_handler_axioms
  CWD.ftp_handler_axioms CDUP.ftp_handler_axioms PWD.ftp_handler_axioms LIST.ftp_handler_axioms
  NLST.ftp_handler_axioms MLSD.ftp_handler_axioms MLST.ftp_handler_axioms RETR.ftp_handler_axioms
  STOR.ftp_handler_axioms APPE.ftp_handler_axioms REST.ftp_handler_axioms DELE.ftp_handler_axioms
  RMD.ftp_handler_axioms MKD.ftp_handler_axioms RNFR.ftp_handler_axioms RNTO.ftp_handler_axioms
  CPFR.ftp_handler_axioms CPTO.ftp_handler_axioms COPY.ftp_handler_axioms PORT.ftp_handler_axioms
  PASV.ftp_handler_axioms EPSV.ftp_handler_axioms OPTS.ftp_handler_axioms SITE.ftp_handler_axioms
  CLNT.ftp_handler_axioms SIZE.ftp_handler_axioms MDTM.ftp_handler_axioms STAT.ftp_handler_axioms
  SYST.ftp_handler_axioms FEAT.ftp_handler_axioms HELP.ftp_handler_axioms TYPE.ftp_handler_axioms
  MODE.ftp_handler_axioms STRU.ftp_handler_axioms AUTH.ftp_handler_axioms

lemma all_handlers: "list_all (\<lambda>e. ftp_handler (entry_handler e)) command_table"
  unfolding command_table_def
  by (simp only: list.pred_inject ftp_command_entry.select_convs handler_axioms simp_thms)

lemma table_handlers: "e \<in> set command_table \<Longrightarrow> ftp_handler (entry_handler e)"
  using all_handlers unfolding list_all_iff by blast

lemma lower_letters:
  "tolower CHR ''A'' = CHR ''a''" "tolower CHR ''B'' = CHR ''b''" "tolower CHR ''C'' = CHR ''c''" "tolower CHR ''D'' = CHR ''d''"
  "tolower CHR ''E'' = CHR ''e''" "tolower CHR ''F'' = CHR ''f''" "tolower CHR ''G'' = CHR ''g''" "tolower CHR ''H'' = CHR ''h''"
  "tolower CHR ''I'' = CHR ''i''" "tolower CHR ''K'' = CHR ''k''" "tolower CHR ''L'' = CHR ''l''" "tolower CHR ''M'' = CHR ''m''"
  "tolower CHR ''N'' = CHR ''n''" "tolower CHR ''O'' = CHR ''o''" "tolower CHR ''P'' = CHR ''p''" "tolower CHR ''Q'' = CHR ''q''"
  "tolower CHR ''R'' = CHR ''r''" "tolower CHR ''S'' = CHR ''s''" "tolower CHR ''T'' = CHR ''t''" "tolower CHR ''U'' = CHR ''u''"
  "tolower CHR ''V'' = CHR ''v''" "tolower CHR ''W'' = CHR ''w''" "tolower CHR ''Y'' = CHR ''y''" "tolower CHR ''Z'' = CHR ''z''"
  by code_simp+

lemma lower_names:
  "map (\<lambda>e. map tolower (entry_name e)) command_table =
    [''user'', ''pass'', ''quit'', ''noop'', ''cwd'', ''cdup'', ''pwd'', ''list'', ''nlst'', ''mlsd'',
     ''mlst'', ''retr'', ''stor'', ''appe'', ''rest'', ''dele'', ''rmd'', ''mkd'', ''rnfr'', ''rnto'',
     ''cpfr'', ''cpto'', ''copy'', ''port'', ''pasv'', ''epsv'', ''opts'', ''site'', ''clnt'', ''size'',
     ''mdtm'', ''stat'', ''syst'', ''feat'', ''help'', ''type'', ''mode'', ''stru'', ''auth'']"
  unfolding command_table_def list.map ftp_command_entry.select_convs lower_letters by (rule refl)

lemma table_names: "distinct (map (\<lambda>e. map tolower (entry_name e)) command_table)"
  unfolding lower_names by simp

lemma find_distinct:
  "distinct (map f xs) \<Longrightarrow> x \<in> set xs \<Longrightarrow> find (\<lambda>y. f x = f y) xs = Some x"
  by (induction xs) (auto simp: image_iff)

lemma find_command_in_table: "ftp_find_command name = Some e \<Longrightarrow> e \<in> set command_table \<and> strcasecmp_eq name (entry_name e)"
  by (auto simp: ftp_find_command_def find_Some_iff)

section \<open>The dispatcher keeps the contract\<close>

lemma keeps_sess_ok: "keeps st st' \<Longrightarrow> sess_ok (sess st')"
  by (simp add: keeps_def)

lemma keeps_step:
  assumes "keeps st st1" "list_all (sends (ctrl_fd (sess st1))) t" "sess_ok (f (sess st1))"
    "root_path (f (sess st1)) = root_path (sess st1)" "ctrl_fd (f (sess st1)) = ctrl_fd (sess st1)"
    "\<And>h. holds (f (sess st1)) h = holds (sess st1) h"
  shows "keeps st (adv w e t (upd f st1))"
  by (rule keeps_trans [OF assms(1)]) (use assms in \<open>simp add: inside balance\<close>)

lemma keeps_stats [simp]:
  "sess_ok (s\<lparr>stats := x\<rparr>) = sess_ok s" "holds (s\<lparr>stats := x\<rparr>) = holds s"
  "sess_ok (s\<lparr>last_activity := a\<rparr>) = sess_ok s" "holds (s\<lparr>last_activity := a\<rparr>) = holds s"
  "sess_ok (s\<lparr>ctrl_rxbuf := b, ctrl_rx_len := l, ctrl_rx_off := i\<rparr>) = sess_ok s"
  "holds (s\<lparr>ctrl_rxbuf := b, ctrl_rx_len := l, ctrl_rx_off := i\<rparr>) = holds s"
  by (simp_all add: sess_ok_def holds_def fun_eq_iff)

lemma keeps_upd_stats:
  assumes "keeps st st1"
  shows "keeps st (upd (\<lambda>s. s\<lparr>stats := g s\<rparr>) st1)"
  using keeps_trans [OF assms, of "upd (\<lambda>s. s\<lparr>stats := g s\<rparr>) st1"] keeps_sess_ok [OF assms] by simp

lemma post_run_handler:
  assumes sat: "os_sat os posix" and ok: "sess_ok (sess st)" and cmd: "cmd \<in> set command_table"
  shows "post (run_handler os cmd args st) (\<lambda>_. keeps st)"
  unfolding run_handler_def
  apply (intro wp post_mono [OF ftp_handler.handler_keeps [OF table_handlers [OF cmd] sat ok]])
  apply (use sat in \<open>simp_all add: keeps_upd_stats\<close>)
  subgoal by (frule keeps_sess_ok, erule keeps_step) simp_all
  subgoal by (frule keeps_sess_ok, erule keeps_step) simp_all
  done

lemma post_process_command:
  assumes sat: "os_sat os posix" and ok: "sess_ok (sess st)"
  shows "post (ftp_session_process_command os line st) (\<lambda>r st'. keeps st st' \<and> (r = 0 \<or> r = 1))"
  unfolding ftp_session_process_command_def
  apply (intro wp post_mono [OF post_run_handler [OF sat ok]])
  apply (use sat ok in \<open>auto simp: inside balance dest: find_command_in_table\<close>)
  done

lemma session_loop_keeps:
  assumes ret: "session_loop os st = Some (u, st')" and sat: "os_sat os posix" and ok: "sess_ok (sess st)"
  shows "keeps st st'"
proof -
  let ?P = "\<lambda>os st y. os_sat os posix \<and> sess_ok (sess st) \<longrightarrow> keeps st (snd y)"
  have "?P os st (u, st')"
  proof (rule session_loop.raw_induct [where P = ?P, OF _ ret], rule impI, goal_cases)
    case (1 loop os st y)
    have sat: "os_sat os posix" and ok: "sess_ok (sess st)" using 1(3) by auto
    have IH: "post (loop os st1) (\<lambda>_. keeps st)" if "keeps st st1" for st1
      using 1(1) sat that by (fastforce simp: post_def intro: keeps_trans keeps_sess_ok)
    have proc: "post (ftp_session_process_command os line st1) (\<lambda>_. keeps st)" if "keeps st st1" for line st1
      by (rule post_mono [OF post_process_command [OF sat keeps_sess_ok [OF that]]])
         (use that in \<open>blast intro: keeps_trans\<close>)
    have "post (Some y) (\<lambda>_. keeps st)"
      unfolding 1(2) [symmetric]
      apply (intro wp IH post_mono [OF proc])
      apply (use sat ok in \<open>simp_all add: inside balance keeps_upd_stats\<close>)
      done
    then show ?case by (cases y) (simp add: post_def)
  qed
  then show ?thesis using sat ok by simp
qed

section \<open>Before login\<close>

text \<open>Calls that name no file but the random device, not even to look at it.\<close>

definition no_files :: "event list \<Rightarrow> bool" where
  "no_files t \<longleftrightarrow> list_all (\<lambda>e. ev_names e = [] \<or> fst e = Sys_open ''/dev/urandom'' [O_RDONLY] 0) t"

definition harmless :: "bool \<Rightarrow> 'w st \<Rightarrow> 'w st \<Rightarrow> bool" where
  "harmless login st st' \<longleftrightarrow>
    (\<exists>t. trace st' = trace st @ t \<and> no_files t) \<and>
    (authenticated (sess st') \<longrightarrow> authenticated (sess st) \<or> login)"

lemma no_files_sends: "list_all (sends fd) t \<Longrightarrow> no_files t"
  by (auto simp: no_files_def list_all_iff dest: sends_names)

lemma no_files_append [simp]: "no_files (a @ b) \<longleftrightarrow> no_files a \<and> no_files b"
  by (auto simp: no_files_def)

lemma harmless_simps [simp]:
  "harmless l st (adv w e t (upd f st)) \<longleftrightarrow> no_files t \<and> (authenticated (f (sess st)) \<longrightarrow> authenticated (sess st) \<or> l)"
  "harmless l st (adv w e t st) \<longleftrightarrow> no_files t"
  "harmless l st st" "harmless l st (upd f st) \<longleftrightarrow> (authenticated (f (sess st)) \<longrightarrow> authenticated (sess st) \<or> l)"
  by (auto simp: harmless_def no_files_def)

lemma harmless_trans: "harmless l a b \<Longrightarrow> harmless l b c \<Longrightarrow> harmless l a c"
  by (auto simp: harmless_def)

lemma post_generate_nonce_files:
  assumes "\<And>nonce w e t. no_files t \<Longrightarrow> Q nonce (adv w e t st)"
  shows "post (generate_nonce os len st) Q"
  unfolding generate_nonce_def pal_file_open_def pal_file_read_def set_errno_def Let_def
  by (intro wp) (simp_all add: assms no_files_def)

lemma preauth_handlers:
  assumes "os_sat os posix"
  shows "post (cmd_USER os args st) (\<lambda>_. harmless True st)" "post (cmd_PASS os args st) (\<lambda>_. harmless True st)"
    "post (cmd_QUIT os args st) (\<lambda>_. harmless l st)" "post (cmd_NOOP os args st) (\<lambda>_. harmless l st)"
    "post (cmd_FEAT os args st) (\<lambda>_. harmless l st)" "post (cmd_SYST os args st) (\<lambda>_. harmless l st)"
    "post (cmd_OPTS os args st) (\<lambda>_. harmless l st)" "post (cmd_CLNT os args st) (\<lambda>_. harmless l st)"
    "post (cmd_AUTH os args st) (\<lambda>_. harmless l st)"
  unfolding cmd_USER_def cmd_PASS_def cmd_QUIT_def cmd_NOOP_def cmd_FEAT_def cmd_SYST_def cmd_OPTS_def cmd_CLNT_def cmd_AUTH_def
  by ((intro post_generate_nonce_files wp; simp add: assms no_files_sends)+)

lemma find_preauth:
  "ftp_find_command ''USER'' = Some (entry ''USER'' cmd_USER FTP_ARGS_REQUIRED)"
  "ftp_find_command ''PASS'' = Some (entry ''PASS'' cmd_PASS FTP_ARGS_OPTIONAL)"
  "ftp_find_command ''QUIT'' = Some (entry ''QUIT'' cmd_QUIT FTP_ARGS_NONE)"
  "ftp_find_command ''NOOP'' = Some (entry ''NOOP'' cmd_NOOP FTP_ARGS_NONE)"
  "ftp_find_command ''FEAT'' = Some (entry ''FEAT'' cmd_FEAT FTP_ARGS_NONE)"
  "ftp_find_command ''SYST'' = Some (entry ''SYST'' cmd_SYST FTP_ARGS_NONE)"
  "ftp_find_command ''AUTH'' = Some (entry ''AUTH'' cmd_AUTH FTP_ARGS_REQUIRED)"
  "ftp_find_command ''OPTS'' = Some (entry ''OPTS'' cmd_OPTS FTP_ARGS_REQUIRED)"
  "ftp_find_command ''CLNT'' = Some (entry ''CLNT'' cmd_CLNT FTP_ARGS_OPTIONAL)"
  by (simp_all add: ftp_find_command_def command_table_def strcasecmp_eq_def lower_letters)

lemma run_handler_harmless:
  assumes sat: "os_sat os posix" and h: "post (entry_handler cmd os args st) (\<lambda>_. harmless l st)"
  shows "post (run_handler os cmd args st) (\<lambda>_. harmless l st)"
proof -
  have step: "harmless l st (adv w e t (upd (\<lambda>s. s\<lparr>stats := g s\<rparr>) st1))" if "harmless l st st1" "no_files t" for st1 w e t g
    by (rule harmless_trans [OF that(1)]) (simp add: that)
  have step0: "harmless l st (upd (\<lambda>s. s\<lparr>stats := g s\<rparr>) st1)" if "harmless l st st1" for st1 g
    by (rule harmless_trans [OF that]) simp
  show ?thesis
    unfolding run_handler_def
    by (intro wp post_mono [OF h]) (simp_all add: sat step step0 no_files_sends)
qed

lemma process_preauth:
  assumes sat: "os_sat os posix" and no: "\<not> authenticated (sess st)"
  shows "post (ftp_session_process_command os line st) (\<lambda>_. harmless
    (\<exists>args. ftp_parse_command_line line 64 FTP_CMD_BUFFER_SIZE \<in> {Inr (''USER'', args), Inr (''PASS'', args)}) st)"
proof -
  let ?l = "\<lambda>l command. \<exists>args. (Inr (command, l) :: ftp_error + _) \<in> {Inr (''USER'', args), Inr (''PASS'', args)}"
  have run: "post (run_handler os cmd args st) (\<lambda>_. harmless (?l a command) st)"
    if "ftp_find_command command = Some cmd" "command \<in> set preauth" for command cmd args a
    by (rule run_handler_harmless [OF sat])
       (use that in \<open>auto simp: preauth_def find_preauth preauth_handlers [OF sat]\<close>)
  show ?thesis
    unfolding ftp_session_process_command_def Let_def
    apply (intro wp post_mono [OF run])
    apply (use no sat in \<open>auto simp: no_files_sends\<close>)
    done
qed

lemma thread_run:
  assumes sat: "os_sat os posix" and ok: "sess_ok (sess st)"
  shows "post (ftp_session_thread os st) (\<lambda>_ st'. \<exists>t. trace st' = trace st @ t \<and>
    list_all (ev_inside (root_path (sess st))) t \<and> pool st' = pool st \<and>
    (\<forall>h. bal h t = - holds (sess st) h - of_bool (0 \<le> ctrl_fd (sess st) \<and> h = Fd (ctrl_fd (sess st)))))"
proof -
  have loop: "post (session_loop os st1) (\<lambda>_. keeps st)" if "keeps st st1" for st1
    using session_loop_keeps [OF _ sat keeps_sess_ok [OF that]] that by (fastforce simp: post_def intro: keeps_trans)
  show ?thesis
    unfolding ftp_session_thread_def
    apply (intro wp post_mono [OF loop])
    apply (use sat ok in \<open>simp_all add: inside balance\<close>)
    apply (auto simp: keeps_def inside)
    done
qed

section \<open>Properties\<close>

text \<open>
  Every entry of the command table is found under its name in any mixture of upper and
  lower case; no entry hides another one.
\<close>

theorem find_command_complete:
  assumes "e \<in> set command_table" "strcasecmp_eq name (entry_name e)"
  shows "ftp_find_command name = Some e"
  using find_distinct [OF table_names assms(1)] assms(2) by (simp add: ftp_find_command_def strcasecmp_eq_def)

text \<open>
  C8: before login the file system is out of reach.  Whatever line an unauthenticated client
  sends, no call names a file but the random device, neither to open or change it nor to look
  at it with \<open>stat\<close>, \<open>realpath\<close> or \<open>statvfs\<close>; and the client is logged in afterwards only if the
  line was a \<^verbatim>\<open>USER\<close> or \<^verbatim>\<open>PASS\<close> command.
\<close>

theorem preauth_no_files:
  assumes "os_sat os posix" "\<not> authenticated (sess st)"
    and "ftp_session_process_command os line st = Some (r, st')" "trace st' = trace st @ t"
  shows "list_all (\<lambda>e. ev_names e = [] \<or> fst e = Sys_open ''/dev/urandom'' [O_RDONLY] 0) t \<and>
    (authenticated (sess st') \<longrightarrow>
      (\<exists>args. ftp_parse_command_line line 64 FTP_CMD_BUFFER_SIZE \<in> {Inr (''USER'', args), Inr (''PASS'', args)}))"
  using postD [OF process_preauth [OF assms(1,2)] assms(3)] assms(2,4)
  by (auto simp: harmless_def no_files_def)

text \<open>
  C33: one command keeps the session in order.  Whatever the line, every path that is opened
  or changed lies inside the root, with two exceptions: the random device, opened for reading,
  and the one temporary name next to the root that an upload to the root directory itself
  uses, which lies outside.  Every descriptor that was opened is closed again or recorded in
  the session, the transfer buffers are returned, and the session stays well formed; the
  result asks to go on or to quit.
\<close>

theorem process_command_keeps:
  assumes "os_sat os posix" "sess_ok (sess st)" "ftp_session_process_command os line st = Some (r, st')"
  shows "keeps st st' \<and> (r = 0 \<or> r = 1)"
  using postD [OF post_process_command [OF assms(1,2)] assms(3)] .

text \<open>
  C1: a whole session stays inside its root, with two exceptions, and leaves nothing open.
  From the greeting to the clean-up, every path that is opened or changed lies inside the
  root.  The exceptions are the random device, opened for reading, and the one temporary name
  next to the root that an upload to the root directory itself uses, which lies outside.  At the
  end every descriptor is closed, the control connection included, and all buffers are back in
  the pool.
\<close>

theorem session_confined_and_closed:
  assumes "os_sat os posix" "sess_ok (sess st)"
    and "ftp_session_thread os st = Some (u, st')" "trace st' = trace st @ t"
  shows "list_all (\<lambda>e. (\<forall>p \<in> set (ev_paths e). confined (root_path (sess st)) p \<or> p = stor_tmp_path (root_path (sess st))) \<or>
      fst e = Sys_open ''/dev/urandom'' [O_RDONLY] 0) t \<and>
    (\<forall>h. bal h t = - holds (sess st) h - of_bool (0 \<le> ctrl_fd (sess st) \<and> h = Fd (ctrl_fd (sess st)))) \<and>
    pool st' = pool st"
  using postD [OF thread_run [OF assms(1,2)] assms(3)] assms(4) by (auto simp: ev_inside_def [abs_def])

section \<open>Witnesses\<close>

theorem find_command_complete_witness:
  "ftp_find_command ''quit'' = Some (entry ''QUIT'' cmd_QUIT FTP_ARGS_NONE)"
proof -
  have "strcasecmp_eq ''quit'' ''QUIT''" by code_simp
  then show ?thesis
    using find_command_complete [of "entry ''QUIT'' cmd_QUIT FTP_ARGS_NONE" "''quit''"]
    by (simp add: command_table_def)
qed

lemma demo_ok: "sess_ok demo_session"
proof -
  have "confined ''/srv'' ''/srv/a''" by code_simp
  then show ?thesis by (simp add: sess_ok_def demo_session_def zero_session_def crypto_ok_def)
qed

text \<open>An unauthenticated client that wants to delete a file.\<close>

definition dele_st :: "sysres list st" where
  "dele_st = start_st [io_res 39] demo_session"

lemma dele_run:
  "\<exists>st'. ftp_session_process_command script_os ''DELE f'' dele_st = Some (0, st')"
proof -
  have p: "ftp_parse_command_line ''DELE f'' 64 512 = Inr (''DELE'', ''f'')" by code_simp
  have f: "ftp_find_command ''DELE'' = Some (entry ''DELE'' cmd_DELE FTP_ARGS_REQUIRED)"
    by (simp add: ftp_find_command_def command_table_def strcasecmp_eq_def lower_letters)
  have "\<exists>r st'. ftp_session_send_reply script_os R530_NOT_LOGGED_IN (Some ''Please login with USER and PASS.'') dele_st = Some (r, st')"
    using send_reply_returns [OF script_os_posix script_retry_bound] by blast
  moreover have "\<not> authenticated (sess dele_st)" by (simp add: dele_st_def demo_session_def zero_session_def)
  ultimately show ?thesis
    by (auto simp: ftp_session_process_command_def preauth_def p f)
qed

theorem preauth_no_files_witness:
  "\<exists>st'. ftp_session_process_command script_os ''DELE f'' dele_st = Some (0, st') \<and>
    list_all (\<lambda>e. ev_names e = [] \<or> fst e = Sys_open ''/dev/urandom'' [O_RDONLY] 0) (trace st')"
proof -
  obtain st' where run: "ftp_session_process_command script_os ''DELE f'' dele_st = Some (0, st')"
    using dele_run by blast
  have "\<not> authenticated (sess dele_st)" "trace dele_st = []"
    by (simp_all add: dele_st_def demo_session_def zero_session_def)
  with preauth_no_files [OF script_os_posix _ run, of "trace st'"] run show ?thesis by auto
qed

theorem process_command_keeps_witness:
  "\<exists>st'. ftp_session_process_command script_os ''DELE f'' dele_st = Some (0, st') \<and> keeps dele_st st'"
proof -
  obtain st' where run: "ftp_session_process_command script_os ''DELE f'' dele_st = Some (0, st')"
    using dele_run by blast
  have "sess_ok (sess dele_st)" by (simp add: dele_st_def demo_ok)
  with process_command_keeps [OF script_os_posix _ run] run show ?thesis by blast
qed

text \<open>A session that says only \<^verbatim>\<open>QUIT\<close>.\<close>

definition quit_st :: "sysres list st" where
  "quit_st = start_st
    [io_res (int (6 + length (get_default_message R220_SERVICE_READY))), io_res 0,
     (io_res 6)\<lparr>r_data := bytes_of (''QUIT'' @ CRLF)\<rparr>, io_res 0,
     io_res (int (6 + length (get_default_message R221_GOODBYE))), io_res 0] demo_session"

lemma quit_run: "\<exists>st'. ftp_session_thread script_os quit_st = Some ((), st')"
proof -
  have p: "ftp_parse_command_line ''QUIT'' 64 512 = Inr (''QUIT'', [])" by code_simp
  show ?thesis
    apply (simp add: ftp_session_thread_def quit_st_def reply_sent demo_session_def zero_session_def)
    apply (simp add: session_loop.simps sys_time_def syscall_def posix_def ftp_session_read_command_def
      read_command_loop.simps rx_pending_def rx_consume_def touch_def ftp_session_process_command_def cstring_def p
      find_preauth ftp_validate_command_args_def run_handler_def cmd_QUIT_def reply_sent preauth_def Let_def)
    apply (simp add: ftp_session_cleanup_def ftp_session_close_data_connection_def pal_close_def syscall_def posix_def)
    done
qed

theorem session_confined_and_closed_witness:
  "\<exists>st'. ftp_session_thread script_os quit_st = Some ((), st') \<and> bal (Fd 4) (trace st') = -1 \<and>
    bal (Fd 5) (trace st') = 0"
proof -
  obtain st' where run: "ftp_session_thread script_os quit_st = Some ((), st')" using quit_run by blast
  have s: "sess quit_st = demo_session" "trace quit_st = []" by (simp_all add: quit_st_def)
  have ok: "sess_ok (sess quit_st)" by (simp add: s demo_ok)
  have "bal h (trace st') = - holds demo_session h - of_bool (h = Fd 4)" for h
    using session_confined_and_closed [OF script_os_posix ok run, of "trace st'"] s
    by (simp add: demo_session_def zero_session_def)
  then show ?thesis using run by (simp add: holds_def demo_session_def zero_session_def)
qed

end
