(* ===== verification/Ftp_Server.thy ===== *)
theory Ftp_Server
  imports Ftp_Dispatch
begin

text \<open>
  Model of \<^verbatim>\<open>src/src/ftp_server.c\<close>: the server context with its fixed pool of session
  slots, start and shutdown, and the accept thread.  The accept thread and the
  session threads run concurrently, so the part they share is a step relation whose
  steps are the atomic operations and critical sections of the code.
\<close>

section \<open>Definitions\<close>

subsection \<open>The server context\<close>

text \<open>A slot is a session with its back-pointer; only whether the pointer is NULL matters.\<close>

record session_slot =
  slot_sess :: ftp_session
  server_ctx :: bool

text \<open>\<open>atomic_uint_fast32_t\<close> has 64 bits on the modelled platform.\<close>

record ftp_server_context =
  listen_fd :: int
  listen_addr :: sockaddr_in
  srv_port :: "16 word"
  running :: bool
  active_sessions :: "64 word"
  sessions :: "session_slot list"
  srv_root :: string
  total_connections :: "64 word"
  total_errors :: "64 word"

definition zero_slot :: session_slot where
  "zero_slot = \<lparr>slot_sess = zero_session, server_ctx = False\<rparr>"

definition zero_context :: ftp_server_context where
  "zero_context =
    \<lparr>listen_fd = 0, listen_addr = \<lparr>sin_addr = 0, sin_port = 0\<rparr>, srv_port = 0, running = False,
     active_sessions = 0, sessions = replicate FTP_MAX_SESSIONS zero_slot, srv_root = [],
     total_connections = 0, total_errors = 0\<rparr>"

definition idle_slot :: session_slot where
  "idle_slot = \<lparr>slot_sess = zero_session\<lparr>ctrl_fd := -1, data_fd := -1, pasv_fd := -1\<rparr>, server_ctx = False\<rparr>"

definition server_init_pool :: "string \<Rightarrow> ftp_server_context \<Rightarrow> ftp_server_context" where
  "server_init_pool root c = c\<lparr>srv_root := root, running := False, active_sessions := 0,
     sessions := replicate FTP_MAX_SESSIONS idle_slot\<rparr>"



subsection \<open>The session pool\<close>

definition slot_state :: "session_slot \<Rightarrow> ftp_session_state" where
  "slot_state x = sstate (slot_sess x)"

definition set_slot :: "nat \<Rightarrow> (session_slot \<Rightarrow> session_slot) \<Rightarrow> ftp_server_context \<Rightarrow> ftp_server_context" where
  "set_slot i f c = c\<lparr>sessions := (sessions c)[i := f (sessions c ! i)]\<rparr>"

definition store_state :: "ftp_session_state \<Rightarrow> session_slot \<Rightarrow> session_slot" where
  "store_state v x = x\<lparr>slot_sess := (slot_sess x)\<lparr>sstate := v\<rparr>\<rparr>"






subsection \<open>Shutdown\<close>

definition interruptible :: "ftp_session_state \<Rightarrow> bool" where
  "interruptible s \<longleftrightarrow> s = FTP_STATE_CONNECTED \<or> s = FTP_STATE_AUTHENTICATED \<or> s = FTP_STATE_TRANSFERRING"

text \<open>
  The other threads run on during the shutdown.  \<open>others\<close> says what they have done to the context
  when it is next read: the state or the descriptor of a slot, or the counter after so many
  milliseconds of waiting.  What \<open>session_lock\<close> rules out is not excluded here.
\<close>

datatype stop_point = At_state nat | At_fd nat | At_count nat

type_synonym other_threads = "stop_point \<Rightarrow> ftp_server_context \<Rightarrow> ftp_server_context"

fun stop_sessions ::
  "'w os \<Rightarrow> other_threads \<Rightarrow> nat list \<Rightarrow> ftp_server_context \<Rightarrow> 'w st \<Rightarrow> (ftp_server_context \<times> 'w st) ret" where
  "stop_sessions os others [] c st = Some (c, st)"
| "stop_sessions os others (i # is) c st = do {
     let c = others (At_state i) c;
     let state = slot_state (sessions c ! i);
     let c = others (At_fd i) c;
     let cfd = ctrl_fd (slot_sess (sessions c ! i));
     (_, st) \<leftarrow>
       (if interruptible state \<and> cfd \<ge> 0
        then do { (_, st) \<leftarrow> syscall os (Sys_shutdown cfd) st; Some ((), st) }
        else Some ((), st));
     stop_sessions os others is c st }"

definition SERVER_STOP_TIMEOUT_MS :: nat where [simp]: "SERVER_STOP_TIMEOUT_MS = 5000"
definition SERVER_STOP_POLL_MS :: nat where [simp]: "SERVER_STOP_POLL_MS = 100"

text \<open>The drain loop.\<close>

function stop_wait ::
  "'w os \<Rightarrow> other_threads \<Rightarrow> nat \<Rightarrow> ftp_server_context \<Rightarrow> 'w st \<Rightarrow> (ftp_server_context \<times> 'w st) ret" where
  "stop_wait os others waited c st =
    (let c = others (At_count waited) c
     in if active_sessions c > 0 \<and> waited < SERVER_STOP_TIMEOUT_MS
        then case syscall os (Sys_usleep (SERVER_STOP_POLL_MS * 1000)) st of
               None \<Rightarrow> None
             | Some (_, st) \<Rightarrow> stop_wait os others (waited + SERVER_STOP_POLL_MS) c st
        else Some (c, st))"
  by pat_completeness auto
termination
  by (relation "measure (\<lambda>(_, _, waited, _, _). SERVER_STOP_TIMEOUT_MS - waited)") auto

declare stop_wait.simps [simp del]

definition close_listener :: "'w os \<Rightarrow> ftp_server_context \<Rightarrow> 'w st \<Rightarrow> (ftp_server_context \<times> 'w st) ret" where
  "close_listener os c st =
    (if listen_fd c \<ge> 0 then do {
       (_, st) \<leftarrow> pal_close os (listen_fd c) st;
       Some (c\<lparr>listen_fd := -1\<rparr>, st) }
     else Some (c, st))"

definition ftp_server_stop ::
  "'w os \<Rightarrow> other_threads \<Rightarrow> ftp_server_context \<Rightarrow> 'w st \<Rightarrow> (ftp_server_context \<times> 'w st) ret" where
  "ftp_server_stop os others c st = do {
     let c = c\<lparr>running := False\<rparr>;
     (c, st) \<leftarrow> close_listener os c st;
     (c, st) \<leftarrow> stop_sessions os others [0..<FTP_MAX_SESSIONS] c st;
     stop_wait os others 0 c st }"

definition ftp_server_cleanup :: "'w os \<Rightarrow> ftp_server_context \<Rightarrow> 'w st \<Rightarrow> (ftp_server_context \<times> 'w st) ret" where
  "ftp_server_cleanup os c st = close_listener os c st"

subsection \<open>Control\<close>

definition ftp_server_is_running :: "ftp_server_context \<Rightarrow> bool" where
  "ftp_server_is_running c = running c"

definition ftp_server_get_active_sessions :: "ftp_server_context \<Rightarrow> 32 word" where
  "ftp_server_get_active_sessions c = ucast (active_sessions c)"

definition ftp_server_get_stats :: "ftp_server_context \<Rightarrow> 64 word \<times> 64 word \<times> 64 word" where
  "ftp_server_get_stats c =
    (total_connections c, sum_list (map (bytes_sent \<circ> stats \<circ> slot_sess) (sessions c)),
     sum_list (map (bytes_received \<circ> stats \<circ> slot_sess) (sessions c)))"

subsection \<open>\<open>pal_network_reset_ftp_stack\<close>\<close>

definition reset_session :: "'w os \<Rightarrow> session_slot \<Rightarrow> 'w st \<Rightarrow> (session_slot \<times> 'w st) ret" where
  "reset_session os x st =
    (let s = slot_sess x
     in if sstate s = FTP_STATE_TRANSFERRING then Some (x, st)
        else do {
          (_, st) \<leftarrow>
            (if ctrl_fd s \<ge> 0 then do {
               (_, st) \<leftarrow> setsockopt os (ctrl_fd s) SO_SNDBUF 0 st;
               (_, st) \<leftarrow> setsockopt os (ctrl_fd s) SO_RCVBUF 0 st;
               (_, st) \<leftarrow> setsockopt os (ctrl_fd s) SO_SNDBUF FTP_TCP_SNDBUF st;
               (_, st) \<leftarrow> setsockopt os (ctrl_fd s) SO_RCVBUF FTP_TCP_RCVBUF st;
               Some ((), st) }
             else Some ((), st));
          (s, st) \<leftarrow>
            (if data_fd s \<ge> 0 then do {
               (_, st) \<leftarrow> syscall os (Sys_shutdown (data_fd s)) st;
               (_, st) \<leftarrow> pal_close os (data_fd s) st;
               Some (s\<lparr>data_fd := -1\<rparr>, st) }
             else Some (s, st));
          (s, st) \<leftarrow>
            (if pasv_fd s \<ge> 0 then do {
               (_, st) \<leftarrow> pal_close os (pasv_fd s) st;
               Some (s\<lparr>pasv_fd := -1\<rparr>, st) }
             else Some (s, st));
          Some (x\<lparr>slot_sess := s\<rparr>, st) })"

fun reset_sessions :: "'w os \<Rightarrow> session_slot list \<Rightarrow> 'w st \<Rightarrow> (session_slot list \<times> 'w st) ret" where
  "reset_sessions os [] st = Some ([], st)"
| "reset_sessions os (x # xs) st = do {
     (y, st) \<leftarrow> reset_session os x st;
     (ys, st) \<leftarrow> reset_sessions os xs st;
     Some (y # ys, st) }"

definition pal_network_reset_ftp_stack ::
  "'w os \<Rightarrow> session_slot list \<Rightarrow> 'w st \<Rightarrow> ((int \<times> session_slot list) \<times> 'w st) ret" where
  "pal_network_reset_ftp_stack os xs st =
    (if xs = [] then Some ((-1, xs), st)
     else do { (ys, st) \<leftarrow> reset_sessions os xs st; Some ((0, ys), st) })"

subsection \<open>The accept thread and the session threads\<close>

text \<open>
  Where the accept thread is: at the loop test, in \<open>accept\<close>, at the second look at
  \<open>running\<close> after a failed \<open>accept\<close>, before \<open>allocate_session\<close>, before
  \<open>ftp_session_init\<close>, before the store to \<open>server_ctx\<close>, before \<open>pthread_create\<close>, before
  \<open>free_session\<close> on an error path, and before each of the two counters.
\<close>

datatype accept_pc =
    A_loop | A_accept | A_failed | A_got int sockaddr_in | A_init int sockaddr_in nat
  | A_link int nat | A_create int nat | A_free nat | A_stats | A_count | A_exit

text \<open>
  A session thread runs, has entered \<open>ftp_session_cleanup\<close>, has left it, or is between
  the two parts of \<open>ftp_server_release_session\<close>.
\<close>

datatype thread_pc = T_run | T_clean | T_closed | T_release

record server_sys =
  ctx :: ftp_server_context
  apc :: accept_pc
  session_counter :: "32 word"
  threads :: "(nat \<times> thread_pc) list"















definition closed_session :: "ftp_session \<Rightarrow> ftp_session" where
  "closed_session s =
    s\<lparr>data_fd := (if 0 \<le> data_fd s then -1 else data_fd s),
      pasv_fd := (if 0 \<le> pasv_fd s then -1 else pasv_fd s),
      ctrl_fd := (if 0 \<le> ctrl_fd s then -1 else ctrl_fd s),
      data_mode := FTP_DATA_MODE_NONE, restart_offset := 0,
      sstate := (if sstate s \<noteq> FTP_STATE_TERMINATING
                 then if authenticated s then FTP_STATE_AUTHENTICATED else FTP_STATE_CONNECTED
                 else sstate s),
      crypto := ftp_crypto_reset (crypto s)\<rparr>"










text \<open>The two steps of the clean-up are \<open>ftp_session_cleanup\<close> on the session record.\<close>

lemma cleanup_steps:
  "post (ftp_session_cleanup os st) (\<lambda>_ st'. sess st' = closed_session ((sess st)\<lparr>sstate := FTP_STATE_TERMINATING\<rparr>))"
  unfolding ftp_session_cleanup_def ftp_session_close_data_connection_def pal_close_def closed_session_def
  by (intro wp) simp_all

section \<open>The invariant of calm runs\<close>

fun claimed :: "accept_pc \<Rightarrow> nat list" where
  "claimed (A_init _ _ i) = [i]"
| "claimed (A_link _ i) = [i]"
| "claimed (A_create _ i) = [i]"
| "claimed (A_free i) = [i]"
| "claimed _ = []"

definition owners :: "server_sys \<Rightarrow> nat list" where
  "owners s = claimed (apc s) @ map fst (threads s)"


fun thread_ok :: "thread_pc \<Rightarrow> session_slot \<Rightarrow> bool" where
  "thread_ok T_run x \<longleftrightarrow> interruptible (slot_state x) \<and> server_ctx x"
| "thread_ok T_release x \<longleftrightarrow> slot_state x = FTP_STATE_TERMINATING"
| "thread_ok _ x \<longleftrightarrow> slot_state x = FTP_STATE_TERMINATING \<and> server_ctx x"

definition threads_fit :: "session_slot list \<Rightarrow> (nat \<times> thread_pc) list \<Rightarrow> bool" where
  "threads_fit xs ts \<longleftrightarrow> list_all (\<lambda>t. thread_ok (snd t) (xs ! fst t)) ts"



lemma slot_state_simps [simp]:
  "slot_state (store_state v x) = v" "server_ctx (store_state v x) = server_ctx x"
  "slot_state (x\<lparr>server_ctx := b\<rparr>) = slot_state x" "slot_state (x\<lparr>slot_sess := ses\<rparr>) = sstate ses"
  "slot_state \<lparr>slot_sess = ses, server_ctx = b\<rparr> = sstate ses"
  by (simp_all add: slot_state_def store_state_def)

lemma set_slot_simps [simp]:
  "sessions (set_slot i f c) = (sessions c)[i := f (sessions c ! i)]"
  "active_sessions (set_slot i f c) = active_sessions c" "running (set_slot i f c) = running c"
  "listen_fd (set_slot i f c) = listen_fd c" "srv_root (set_slot i f c) = srv_root c"
  "total_errors (set_slot i f c) = total_errors c"
  by (simp_all add: set_slot_def)



text \<open>The owner of a slot may change it, hand it on, or give it back.\<close>

lemma threads_fit_simps [simp]:
  "threads_fit xs []" "threads_fit xs (A @ B) \<longleftrightarrow> threads_fit xs A \<and> threads_fit xs B"
  "threads_fit xs ((i, q) # B) \<longleftrightarrow> thread_ok q (xs ! i) \<and> threads_fit xs B"
  by (simp_all add: threads_fit_def)

lemma other_slots [simp]: "i \<notin> fst ` set ts \<Longrightarrow> threads_fit (xs[i := x]) ts \<longleftrightarrow> threads_fit xs ts"
  by (induction ts) (auto simp: threads_fit_def)

















section \<open>Start and stop\<close>



text \<open>The context when \<open>ftp_server_stop\<close> is done with the first \<open>i\<close> slots, and the descriptors it interrupts.\<close>

primrec seen :: "other_threads \<Rightarrow> ftp_server_context \<Rightarrow> nat \<Rightarrow> ftp_server_context" where
  "seen others c 0 = c"
| "seen others c (Suc i) = others (At_fd i) (others (At_state i) (seen others c i))"

definition live :: "other_threads \<Rightarrow> ftp_server_context \<Rightarrow> nat \<Rightarrow> bool" where
  "live others c i \<longleftrightarrow> interruptible (slot_state (sessions (others (At_state i) (seen others c i)) ! i)) \<and>
    0 \<le> ctrl_fd (slot_sess (sessions (seen others c (Suc i)) ! i))"

lemma syscall_adv: "\<exists>r w e. syscall os c st = Some (r, adv w e [(c, r)] st)"
  by (auto simp: syscall_def split: prod.split)

lemma stop_sessions_run:
  "\<exists>w e t. stop_sessions os others [i..<n] (seen others c i) st = Some (seen others c (max i n), adv w e t st) \<and>
    map fst t = map (\<lambda>j. Sys_shutdown (ctrl_fd (slot_sess (sessions (seen others c (Suc j)) ! j))))
      (filter (live others c) [i..<n])"
proof (induction "n - i" arbitrary: i st)
  case 0
  then show ?case by (intro exI [of _ "world st"] exI [of _ "errno st"] exI [of _ "[]"]) simp
next
  case (Suc k)
  then have i: "[i..<n] = i # [Suc i..<n]" "k = n - Suc i" "max i n = max (Suc i) n" by (simp_all add: upt_conv_Cons)
  let ?fd = "ctrl_fd (slot_sess (sessions (seen others c (Suc i)) ! i))"
  show ?case
  proof (cases "live others c i")
    case True
    obtain r w e where "syscall os (Sys_shutdown ?fd) st = Some (r, adv w e [(Sys_shutdown ?fd, r)] st)"
      using syscall_adv [of os "Sys_shutdown ?fd" st] by blast
    then show ?thesis using Suc.hyps(1) [OF i(2), of "adv w e [(Sys_shutdown ?fd, r)] st"] True
      unfolding i(1,3) by (fastforce simp: live_def Let_def)
  next
    case False
    then show ?thesis using Suc.hyps(1) [OF i(2), of st] unfolding i(1,3) by (auto simp: live_def Let_def)
  qed
qed

lemma stop_wait_run:
  assumes "waited + SERVER_STOP_POLL_MS * n = SERVER_STOP_TIMEOUT_MS"
  shows "\<exists>c' w e t. stop_wait os others waited c st = Some (c', adv w e t st) \<and> length t \<le> n \<and>
    list_all (\<lambda>e. fst e = Sys_usleep 100000) t \<and> (active_sessions c' = 0 \<or> length t = n)"
  using assms
proof (induction n arbitrary: waited c st)
  case 0
  then show ?case
    by (intro exI [of _ "others (At_count waited) c"] exI [of _ "world st"] exI [of _ "errno st"] exI [of _ "[]"])
       (simp add: stop_wait.simps)
next
  case (Suc n)
  let ?c = "others (At_count waited) c"
  show ?case
  proof (cases "active_sessions ?c = 0")
    case True
    then show ?thesis
      by (intro exI [of _ ?c] exI [of _ "world st"] exI [of _ "errno st"] exI [of _ "[]"]) (simp add: stop_wait.simps)
  next
    case False
    obtain r w e where r: "syscall os (Sys_usleep 100000) st = Some (r, adv w e [(Sys_usleep 100000, r)] st)"
      using syscall_adv [of os "Sys_usleep 100000" st] by blast
    let ?st = "adv w e [(Sys_usleep 100000, r)] st"
    have "waited + 100 + SERVER_STOP_POLL_MS * n = SERVER_STOP_TIMEOUT_MS" using Suc.prems by simp
    from Suc.IH [OF this, of ?c ?st] obtain c' w' e' t where
      "stop_wait os others (waited + 100) ?c ?st = Some (c', adv w' e' t ?st)" "length t \<le> n"
      "list_all (\<lambda>e. fst e = Sys_usleep 100000) t" "active_sessions c' = 0 \<or> length t = n" by blast
    moreover have "stop_wait os others waited c st = stop_wait os others (waited + 100) ?c ?st"
      using False Suc.prems r by (subst stop_wait.simps) (simp add: word_neq_0_conv)
    ultimately show ?thesis
      by (intro exI [of _ c'] exI [of _ w'] exI [of _ e'] exI [of _ "(Sys_usleep 100000, r) # t"]) auto
  qed
qed

lemma close_listener_run:
  "\<exists>w e t. close_listener os c st = Some (c\<lparr>listen_fd := (if listen_fd c \<ge> 0 then -1 else listen_fd c)\<rparr>, adv w e t st) \<and>
    map fst t = (if listen_fd c \<ge> 0 then [Sys_close (listen_fd c)] else [])"
proof (cases "listen_fd c \<ge> 0")
  case True
  then show ?thesis using syscall_adv [of os "Sys_close (listen_fd c)" st]
    by (fastforce simp: close_listener_def pal_close_def)
next
  case False
  then show ?thesis
    by (intro exI [of _ "world st"] exI [of _ "errno st"] exI [of _ "[]"]) (simp add: close_listener_def)
qed

section \<open>A new session\<close>

lemma post_session_init:
  assumes "os_sat os posix" "take 1 root = ''/''" "no_dotdot root"
  shows "post (ftp_session_init os fd a sid root st) (\<lambda>e st'. e = FTP_OK \<longrightarrow>
    sess_ok (sess st') \<and> cwd (sess st') = root_path (sess st') \<and> ctrl_fd (sess st') = fd \<and> 0 \<le> fd \<and>
    pasv_fd (sess st') < 0 \<and> \<not> authenticated (sess st') \<and> active (crypto (sess st')) = 0 \<and>
    length (root_path (sess st')) < FTP_PATH_MAX)"
proof -
  have c: "crypto_ok (ftp_crypto_reset x)" "active (ftp_crypto_reset x) = 0" for x
    by (simp_all add: crypto_ok_def ftp_crypto_reset_def)
  show ?thesis
    unfolding ftp_session_init_def
    by (intro post_syscall_sat [OF assms(1)] wp)
      (use assms in \<open>simp_all add: sess_ok_def confined_def within_root_refl posix_def c zero_session_def\<close>)
qed

section \<open>Runs\<close>











text \<open>A session in a world where every call fails.\<close>

definition new_session :: "32 word \<Rightarrow> ftp_session" where
  "new_session sid = sess (snd (the (ftp_session_init script_os 4 \<lparr>sin_addr = 0, sin_port = 0\<rparr> sid ''/srv''
     (start_st [] zero_session))))"

lemma new_session_init:
  "\<exists>st. ftp_session_init script_os 4 \<lparr>sin_addr = 0, sin_port = 0\<rparr> sid ''/srv'' (start_st [] s) = Some (FTP_OK, st) \<and>
    sess st = new_session sid"
  by (simp add: new_session_def ftp_session_init_def pal_socket_set_timeouts_def setsockopt_def syscall_def
    pal_path_exists_def sys_time_def)


definition demo_ctx :: ftp_server_context where
  "demo_ctx = (server_init_pool ''/srv'' zero_context)\<lparr>listen_fd := 3, listen_addr := \<lparr>sin_addr = 0, sin_port = PAL_HTONS 2121\<rparr>,
     srv_port := 2121, running := True\<rparr>"







text \<open>A state in which only the first slot is in use, and the steps from it.\<close>

definition one_slot ::
  "session_slot \<Rightarrow> 64 word \<Rightarrow> 64 word \<Rightarrow> 32 word \<Rightarrow> accept_pc \<Rightarrow> (nat \<times> thread_pc) list \<Rightarrow> server_sys" where
  "one_slot x conns act sid p ts =
    \<lparr>ctx = demo_ctx\<lparr>sessions := x # replicate 31 idle_slot, active_sessions := act, total_connections := conns\<rparr>,
     apc = p, session_counter = sid, threads = ts\<rparr>"




lemma one_slot_simps [simp]:
  "threads (one_slot x n m sid p ts) = ts" "apc (one_slot x n m sid p ts) = p"
  "active_sessions (ctx (one_slot x n m sid p ts)) = m"
  "sessions (ctx (one_slot x n m sid p ts)) = x # replicate 31 idle_slot"
  by (simp_all add: one_slot_def)







section \<open>Properties\<close>



text \<open>
  C34: shutdown returns, whatever the other threads do to the context meanwhile, before every
  read of a slot and of the counter.  It closes the listener, shuts down the control connection
  of each slot whose state it read as connected, authenticated or transferring and whose
  descriptor it then read as not negative, in the order of the slots, and then polls at most
  fifty times, fewer only if the counter has reached zero.
\<close>

theorem server_stop_returns:
  "\<exists>c' st' t u c1. ftp_server_stop os others c st = Some (c', st') \<and> trace st' = trace st @ t @ u \<and>
     c1 = c\<lparr>running := False, listen_fd := (if listen_fd c \<ge> 0 then -1 else listen_fd c)\<rparr> \<and>
     map fst t = (if listen_fd c \<ge> 0 then [Sys_close (listen_fd c)] else []) @
       map (\<lambda>i. Sys_shutdown (ctrl_fd (slot_sess (sessions (seen others c1 (Suc i)) ! i))))
         (filter (\<lambda>i. slot_state (sessions (others (At_state i) (seen others c1 i)) ! i)
              \<in> {FTP_STATE_CONNECTED, FTP_STATE_AUTHENTICATED, FTP_STATE_TRANSFERRING} \<and>
            0 \<le> ctrl_fd (slot_sess (sessions (seen others c1 (Suc i)) ! i))) [0..<FTP_MAX_SESSIONS]) \<and>
     list_all (\<lambda>e. fst e = Sys_usleep 100000) u \<and> length u \<le> 50 \<and>
     (active_sessions c' = 0 \<or> length u = 50)"
proof -
  let ?c = "c\<lparr>running := False, listen_fd := (if listen_fd c \<ge> 0 then -1 else listen_fd c)\<rparr>"
  let ?live = "filter (live others ?c) [0..<FTP_MAX_SESSIONS]"
  obtain w e t1 where a: "close_listener os (c\<lparr>running := False\<rparr>) st = Some (?c, adv w e t1 st)"
      "map fst t1 = (if listen_fd c \<ge> 0 then [Sys_close (listen_fd c)] else [])"
    using close_listener_run [of os "c\<lparr>running := False\<rparr>" st] by auto
  obtain w' e' t2 where b: "stop_sessions os others [0..<FTP_MAX_SESSIONS] ?c (adv w e t1 st) =
        Some (seen others ?c FTP_MAX_SESSIONS, adv w' e' t2 (adv w e t1 st))"
      "map fst t2 = map (\<lambda>i. Sys_shutdown (ctrl_fd (slot_sess (sessions (seen others ?c (Suc i)) ! i)))) ?live"
    using stop_sessions_run [of os others 0 FTP_MAX_SESSIONS ?c "adv w e t1 st"] unfolding seen.simps(1) max_0L by blast
  obtain c' w'' e'' u where d: "stop_wait os others 0 (seen others ?c FTP_MAX_SESSIONS) (adv w' e' t2 (adv w e t1 st)) =
      Some (c', adv w'' e'' u (adv w' e' t2 (adv w e t1 st)))" "length u \<le> 50"
      "list_all (\<lambda>e. fst e = Sys_usleep 100000) u" "active_sessions c' = 0 \<or> length u = 50"
    using stop_wait_run [of 0 50 os others "seen others ?c FTP_MAX_SESSIONS" "adv w' e' t2 (adv w e t1 st)"] by auto
  have "ftp_server_stop os others c st = Some (c', adv w'' e'' (t1 @ t2 @ u) st)"
    using a(1) b(1) d(1) unfolding ftp_server_stop_def Let_def by simp
  moreover have "?live = filter (\<lambda>i. slot_state (sessions (others (At_state i) (seen others ?c i)) ! i)
        \<in> {FTP_STATE_CONNECTED, FTP_STATE_AUTHENTICATED, FTP_STATE_TRANSFERRING} \<and>
      0 \<le> ctrl_fd (slot_sess (sessions (seen others ?c (Suc i)) ! i))) [0..<FTP_MAX_SESSIONS]"
    unfolding live_def interruptible_def by (rule filter_cong) simp_all
  ultimately show ?thesis
    using a(2) b(2) d(2-4)
    by (intro exI [of _ c'] exI [of _ "adv w'' e'' (t1 @ t2 @ u) st"] exI [of _ "t1 @ t2"] exI [of _ u] exI [of _ ?c])
       (simp add: append_assoc)
qed

text \<open>
  C35: a session that \<open>ftp_session_init\<close> accepts is well formed: its working directory is its
  root, which lies within itself, the client is not logged in, no data descriptor is
  open and no cipher is active.
\<close>

theorem accepted_session_wf:
  assumes "os_sat os posix" "take 1 root = ''/''" "no_dotdot root"
    and "ftp_session_init os fd a sid root st = Some (FTP_OK, st')"
  shows "sess_ok (sess st') \<and> cwd (sess st') = root_path (sess st') \<and> ctrl_fd (sess st') = fd \<and> 0 \<le> fd \<and>
    pasv_fd (sess st') < 0 \<and> \<not> authenticated (sess st') \<and> active (crypto (sess st')) = 0 \<and>
    length (root_path (sess st')) < FTP_PATH_MAX"
  using postD [OF post_session_init [OF assms(1-3)] assms(4)] by simp

section \<open>Witnesses\<close>

theorem accepted_session_wf_witness:
  "sess_ok (new_session 7) \<and> ctrl_fd (new_session 7) = 4"
proof -
  have r: "take 1 ''/srv'' = ''/''" "no_dotdot ''/srv''" by code_simp+
  obtain st where st: "ftp_session_init script_os 4 \<lparr>sin_addr = 0, sin_port = 0\<rparr> 7 ''/srv'' (start_st [] zero_session) =
      Some (FTP_OK, st)" "sess st = new_session 7"
    using new_session_init [of 7 zero_session] by blast
  show ?thesis using accepted_session_wf [OF script_os_posix r st(1)] st(2) by simp
qed





end
