(* ===== verification/Copy_Pipe.thy ===== *)
theory Copy_Pipe
  imports Stor_Pipe
begin

text \<open>
  Model of the copy pipeline of \<^verbatim>\<open>src/src/pal_fileio.c\<close> (\<open>copy_pipe_t\<close>, \<open>copy_reader_thread\<close> and the
  writer loop of \<open>pal_file_copy_atomic_ex\<close>).  A reader thread fills two buffers in turn, the
  calling thread writes them.  As long as no write fails and nobody cancels, the pipeline
  is the upload pipeline of \<open>Stor_Pipe\<close>: \<open>as_stor\<close> maps its states, and every step to steps there, so the
  invariant of the uploads carries over.  As there, waiting on a condition variable is a guard and every
  wake-up is taken to arrive.
\<close>

section \<open>Definitions\<close>

record copy_pipe =
  cbuf :: "nat \<Rightarrow> byte list"
  clen :: "nat \<Rightarrow> nat"
  fill_idx :: nat
  cdone :: bool
  reader_err :: int

text \<open>
  Where the two threads stand.  \<open>R_got\<close>, \<open>R_eof\<close> and \<open>R_fail\<close> are the results of a read before the
  reader has the mutex again; \<open>D_wrote\<close> is the result of a write, with the error if there was one.
\<close>

datatype reader_pc = R_check | R_read nat | R_got nat nat | R_eof | R_fail int | R_exit

datatype drain_pc = D_check | D_write nat nat | D_wrote nat nat "int option" | D_join | D_end

record copy_sys =
  cpipe :: copy_pipe
  rpc :: reader_pc
  dpc :: drain_pc
  write_err :: "int option"
  cancelled :: bool

definition copy_pipe_init :: copy_sys where
  "copy_pipe_init =
    \<lparr>cpipe = \<lparr>cbuf = (\<lambda>_. []), clen = (\<lambda>_. 0), fill_idx = 0, cdone = False, reader_err = 0\<rparr>,
     rpc = R_check, dpc = D_check, write_err = None, cancelled = False\<rparr>"

subsection \<open>The reader\<close>

definition reader_blocked :: "copy_sys \<Rightarrow> bool" where
  "reader_blocked s \<longleftrightarrow>
    (case rpc s of
       R_check \<Rightarrow> clen (cpipe s) (fill_idx (cpipe s)) \<noteq> 0 \<and> \<not> cdone (cpipe s)
     | R_exit \<Rightarrow> True
     | _ \<Rightarrow> False)"

definition reader_check :: "copy_sys \<Rightarrow> copy_sys" where
  "reader_check s = s\<lparr>rpc := (if cdone (cpipe s) then R_exit else R_read (fill_idx (cpipe s)))\<rparr>"

definition reader_got :: "nat \<Rightarrow> byte list \<Rightarrow> copy_sys \<Rightarrow> copy_sys" where
  "reader_got i d s = s\<lparr>cpipe := (cpipe s)\<lparr>cbuf := (cbuf (cpipe s))(i := d)\<rparr>, rpc := R_got i (length d)\<rparr>"

definition reader_hand :: "nat \<Rightarrow> nat \<Rightarrow> copy_sys \<Rightarrow> copy_sys" where
  "reader_hand i n s =
    s\<lparr>cpipe := (cpipe s)\<lparr>clen := (clen (cpipe s))(i := n), fill_idx := 1 - i\<rparr>, rpc := R_check\<rparr>"

definition reader_stop :: "copy_sys \<Rightarrow> copy_sys" where
  "reader_stop s = s\<lparr>cpipe := (cpipe s)\<lparr>cdone := True\<rparr>, rpc := R_exit\<rparr>"

definition reader_abort :: "int \<Rightarrow> copy_sys \<Rightarrow> copy_sys" where
  "reader_abort e s = s\<lparr>cpipe := (cpipe s)\<lparr>reader_err := e, cdone := True\<rparr>, rpc := R_exit\<rparr>"

subsection \<open>The writer\<close>

definition drain_blocked :: "copy_sys \<Rightarrow> bool" where
  "drain_blocked s \<longleftrightarrow>
    (case dpc s of
       D_check \<Rightarrow> clen (cpipe s) (1 - fill_idx (cpipe s)) = 0 \<and> \<not> cdone (cpipe s)
     | D_join \<Rightarrow> rpc s \<noteq> R_exit
     | D_end \<Rightarrow> True
     | _ \<Rightarrow> False)"

definition drain_check :: "copy_sys \<Rightarrow> copy_sys" where
  "drain_check s =
    (let d = 1 - fill_idx (cpipe s); n = clen (cpipe s) d
     in s\<lparr>dpc := (if n = 0 \<and> cdone (cpipe s) then D_join else D_write d n)\<rparr>)"

definition drain_wrote :: "nat \<Rightarrow> nat \<Rightarrow> int option \<Rightarrow> copy_sys \<Rightarrow> copy_sys" where
  "drain_wrote d n r s = s\<lparr>dpc := D_wrote d n r, write_err := r\<rparr>"

text \<open>After a failed write and after a cancellation the reader is told to stop.\<close>

definition drain_failed :: "copy_sys \<Rightarrow> copy_sys" where
  "drain_failed s = s\<lparr>cpipe := (cpipe s)\<lparr>cdone := True\<rparr>, dpc := D_join\<rparr>"

definition drain_cancel :: "copy_sys \<Rightarrow> copy_sys" where
  "drain_cancel s = s\<lparr>cpipe := (cpipe s)\<lparr>cdone := True\<rparr>, dpc := D_join, cancelled := True\<rparr>"

definition drain_release :: "nat \<Rightarrow> copy_sys \<Rightarrow> copy_sys" where
  "drain_release d s = s\<lparr>cpipe := (cpipe s)\<lparr>clen := (clen (cpipe s))(d := 0)\<rparr>, dpc := D_check\<rparr>"

definition drain_end :: "copy_sys \<Rightarrow> copy_sys" where
  "drain_end s = s\<lparr>dpc := D_end\<rparr>"

section \<open>The upload pipeline behind it\<close>

definition as_stor :: "copy_sys \<Rightarrow> stor_sys" where
  "as_stor s =
    \<lparr>pipe = \<lparr>pbuf = cbuf (cpipe s), plen = clen (cpipe s), pactive = fill_idx (cpipe s), perror = 0,
             pdone = cdone (cpipe s), pwritten = 0\<rparr>,
     ppc = (case rpc s of
              R_check \<Rightarrow> P_check | R_read i \<Rightarrow> P_recv i | R_got i n \<Rightarrow> P_hand i n
            | R_eof \<Rightarrow> P_done | R_fail e \<Rightarrow> P_done | R_exit \<Rightarrow> P_join),
     wpc = (case dpc s of
              D_check \<Rightarrow> W_check | D_write d n \<Rightarrow> W_write d n | D_wrote d n r \<Rightarrow> W_wrote d n True 0
            | _ \<Rightarrow> W_exit),
     total_received = 0, stor_ok = True, fail_stage = 0, saved_errno = 0\<rparr>"

text \<open>
  \<open>R\<close> are the bytes read and \<open>F\<close> the bytes written.  Nothing is promised about them after a
  failed write or a cancellation.
\<close>

definition broken :: "copy_sys \<Rightarrow> bool" where
  "broken s \<longleftrightarrow> write_err s \<noteq> None \<or> cancelled s"

definition copy_inv :: "byte list \<Rightarrow> byte list \<Rightarrow> copy_sys \<Rightarrow> bool" where
  "copy_inv R F s \<longleftrightarrow> (broken s \<and> (dpc s = D_join \<or> dpc s = D_end \<or> (\<exists>d n e. dpc s = D_wrote d n (Some e)))) \<or>
    (\<not> broken s \<and> stor_inv R F (as_stor s) \<and> (\<forall>d n r. dpc s = D_wrote d n r \<longrightarrow> r = None))"

text \<open>The invariant of the uploads does not depend on their counters and their error report.\<close>

lemma stor_inv_core:
  assumes "stor_inv R F s" "ppc s' = ppc s" "wpc s' = wpc s" "ppc s \<noteq> P_end"
    and "pipe s' = (pipe s)\<lparr>pwritten := x\<rparr>"
  shows "stor_inv R F s'"
proof -
  have "in_hand s' = in_hand s" "\<And>H. in_order H F s' = in_order H F s"
    using assms(2-5) by (cases "ppc s"; cases "wpc s"; simp add: in_hand_def in_order_def full_def Let_def)+
  moreover have "prod_inv s' = prod_inv s" using assms(2-5) by (cases "ppc s") (simp_all add: prod_inv_def Let_def)
  ultimately show ?thesis using assms by (simp add: stor_inv_def)
qed

lemmas copy_defs = as_stor_def broken_def copy_inv_def

lemma copy_inv_init: "copy_inv [] [] copy_pipe_init"
proof -
  have "stor_inv [] [] (as_stor copy_pipe_init)"
    by (rule stor_inv_core [OF stor_inv_init]) (simp_all add: copy_pipe_init_def as_stor_def stor_init_def)
  then show ?thesis by (simp add: copy_inv_def broken_def copy_pipe_init_def)
qed

section \<open>Preservation\<close>

text \<open>A step that does not change what is broken, and that the upload pipeline follows.\<close>

lemma copy_inv_step:
  assumes "copy_inv R F s" "write_err s' = write_err s" "cancelled s' = cancelled s" "dpc s' = dpc s"
    and "stor_inv R F (as_stor s) \<Longrightarrow> stor_inv R' F (as_stor s')"
  shows "copy_inv R' F s'"
  using assms by (auto simp: copy_inv_def broken_def)

lemma copy_inv_check:
  assumes "copy_inv R F s" "rpc s = R_check" "\<not> reader_blocked s"
  shows "copy_inv R F (reader_check s)"
proof (rule copy_inv_step [OF assms(1)])
  assume i: "stor_inv R F (as_stor s)"
  then have nd: "\<not> cdone (cpipe s)" using assms(2) by (simp add: stor_inv_def prod_inv_def as_stor_def Let_def)
  then have "\<not> prod_blocked (as_stor s)"
    using assms(2,3) by (simp add: prod_blocked_def reader_blocked_def as_stor_def)
  from inv_check [OF i _ this] show "stor_inv R F (as_stor (reader_check s))"
    by (rule stor_inv_core) (use assms(2) nd in \<open>simp_all add: as_stor_def prod_check_def reader_check_def\<close>)
qed (simp_all add: reader_check_def)

lemma copy_inv_read:
  assumes "copy_inv R F s" "rpc s = R_read i"
  shows "d \<noteq> [] \<Longrightarrow> copy_inv (R @ d) F (reader_got i d s)"
    "copy_inv R F (s\<lparr>rpc := R_eof\<rparr>)" "copy_inv R F (s\<lparr>rpc := R_fail e\<rparr>)"
proof -
  have p: "ppc (as_stor s) = P_recv i" using assms(2) by (simp add: as_stor_def)
  show "copy_inv (R @ d) F (reader_got i d s)" if "d \<noteq> []"
  proof (rule copy_inv_step [OF assms(1)])
    assume i: "stor_inv R F (as_stor s)"
    show "stor_inv (R @ d) F (as_stor (reader_got i d s))"
      by (rule stor_inv_core [OF inv_recv(4) [OF i p that]])
        (use assms(2) in \<open>simp_all add: as_stor_def prod_received_def reader_got_def\<close>)
  qed (simp_all add: reader_got_def)
  have eof: "stor_inv R F (as_stor (s\<lparr>rpc := r\<rparr>))" if i: "stor_inv R F (as_stor s)" and r: "r = R_eof \<or> r = R_fail e" for r
    by (rule stor_inv_core [OF inv_recv(3) [OF i p]]) (use r in \<open>auto simp: as_stor_def prod_eof_def\<close>)
  show "copy_inv R F (s\<lparr>rpc := R_eof\<rparr>)" "copy_inv R F (s\<lparr>rpc := R_fail e\<rparr>)"
    by (rule copy_inv_step [OF assms(1)]; simp add: eof)+
qed

lemma copy_inv_hand:
  assumes "copy_inv R F s" "rpc s = R_got i n"
  shows "copy_inv R F (reader_hand i n s)"
proof (rule copy_inv_step [OF assms(1)])
  assume i: "stor_inv R F (as_stor s)"
  show "stor_inv R F (as_stor (reader_hand i n s))"
    by (rule stor_inv_core [OF inv_hand [OF i]])
      (use assms(2) in \<open>simp_all add: as_stor_def prod_hand_def reader_hand_def\<close>)
qed (simp_all add: reader_hand_def)

lemma copy_inv_stop:
  assumes "copy_inv R F s" "rpc s = R_eof \<or> rpc s = R_fail e"
  shows "copy_inv R F (reader_stop s)" "copy_inv R F (reader_abort e s)"
proof -
  have p: "ppc (as_stor s) = P_done" using assms(2) by (auto simp: as_stor_def)
  have "stor_inv R F (as_stor (reader_stop s))" "stor_inv R F (as_stor (reader_abort e s))" if i: "stor_inv R F (as_stor s)"
    by (rule stor_inv_core [OF inv_done [OF i p]]; simp add: as_stor_def prod_done_def reader_stop_def reader_abort_def)+
  then show "copy_inv R F (reader_stop s)" "copy_inv R F (reader_abort e s)"
    by (auto intro!: copy_inv_step [OF assms(1)] simp: reader_stop_def reader_abort_def)
qed

lemma copy_inv_drain_check:
  assumes "copy_inv R F s" "dpc s = D_check" "\<not> drain_blocked s"
  shows "copy_inv R F (drain_check s)"
proof -
  have nb: "\<not> broken s" and i: "stor_inv R F (as_stor s)" using assms(1,2) by (auto simp: copy_inv_def)
  have w: "wpc (as_stor s) = W_check" using assms(2) by (simp add: as_stor_def)
  have "\<not> writer_blocked (as_stor s)"
    using assms(2,3) by (auto simp: writer_blocked_def drain_blocked_def as_stor_def)
  from inv_wcheck [OF i w this] have "stor_inv R F (as_stor (drain_check s))"
    by (rule stor_inv_core)
      (auto simp: as_stor_def writer_check_def drain_check_def Let_def split: reader_pc.split)
  then show ?thesis using nb by (simp add: copy_inv_def broken_def drain_check_def Let_def)
qed

lemma copy_inv_write:
  assumes "copy_inv R F s" "dpc s = D_write d n"
  shows "copy_inv R (F @ take n (cbuf (cpipe s) d)) (drain_wrote d n None s)" "copy_inv R (F @ x) (drain_wrote d n (Some e) s)"
proof -
  have nb: "\<not> broken s" and i: "stor_inv R F (as_stor s)" using assms by (auto simp: copy_inv_def)
  have w: "wpc (as_stor s) = W_write d n" using assms(2) by (simp add: as_stor_def)
  have "stor_inv R (F @ take n (pbuf (pipe (as_stor s)) d)) (as_stor (drain_wrote d n None s))"
    by (rule stor_inv_core [OF inv_wrote(1) [OF i w, of 0]])
      (auto simp: as_stor_def writer_wrote_def drain_wrote_def split: reader_pc.split)
  then show "copy_inv R (F @ take n (cbuf (cpipe s) d)) (drain_wrote d n None s)"
    using nb by (auto simp: copy_inv_def broken_def drain_wrote_def as_stor_def)
  show "copy_inv R (F @ x) (drain_wrote d n (Some e) s)"
    by (simp add: copy_inv_def broken_def drain_wrote_def)
qed

lemma copy_inv_release:
  assumes "copy_inv R F s" "dpc s = D_wrote d n None"
  shows "copy_inv R F (drain_release d s)"
proof -
  have nb: "\<not> broken s" and i: "stor_inv R F (as_stor s)" using assms by (auto simp: copy_inv_def)
  have w: "wpc (as_stor s) = W_wrote d n True 0" using assms(2) by (simp add: as_stor_def)
  have "stor_inv R F (as_stor (drain_release d s))"
    by (rule stor_inv_core [OF inv_release_ok [OF i w]])
      (auto simp: as_stor_def writer_release_def drain_release_def Let_def split: reader_pc.split)
  then show ?thesis using nb by (simp add: copy_inv_def broken_def drain_release_def)
qed

lemma copy_inv_drain_stop:
  assumes "copy_inv R F s"
  shows "dpc s = D_wrote d n (Some e) \<Longrightarrow> copy_inv R F (drain_failed s)" "copy_inv R F (drain_cancel s)"
    "dpc s = D_join \<Longrightarrow> copy_inv R F (drain_end s)"
  using assms by (auto simp: copy_inv_def broken_def drain_failed_def drain_cancel_def drain_end_def as_stor_def)

text \<open>When both threads are through and nothing went wrong, all that was read is written.\<close>

lemma copy_inv_end:
  assumes "copy_inv R F s" "dpc s = D_end" "rpc s = R_exit" "\<not> broken s"
  shows "F = R"
  using assms by (auto simp: copy_inv_def as_stor_def stor_defs)

lemma copy_inv_write_full: "copy_inv R F s \<Longrightarrow> dpc s = D_write d n \<Longrightarrow> n = length (cbuf (cpipe s) d) \<and> \<not> broken s"
  by (auto simp: copy_inv_def as_stor_def stor_defs split: if_splits)

end
