(* ===== verification/Buddy_Tiling.thy ===== *)
theory Buddy_Tiling
  imports Zf_Prelude
begin

text \<open>
  The arithmetic of a binary buddy system: an arena of \<open>2 ^ M\<close> bytes is tiled by blocks
  whose sizes are powers of two and whose offsets are multiples of their size.  Halving a
  block and joining two buddies keep the tiling, and next to a block of order \<open>k\<close> there is
  always a block of at most that order at the buddy offset.
\<close>

unbundle bit_operations_syntax

type_synonym block = "nat \<times> nat"

definition span :: "block \<Rightarrow> nat set" where
  "span b = {fst b ..< fst b + 2 ^ snd b}"

definition tiles :: "nat \<Rightarrow> nat \<Rightarrow> block set \<Rightarrow> bool" where
  "tiles L M T \<longleftrightarrow>
    (\<forall>(n, k) \<in> T. L \<le> k \<and> k \<le> M \<and> 2 ^ k dvd n) \<and>
    (\<forall>b \<in> T. \<forall>c \<in> T. b \<noteq> c \<longrightarrow> span b \<inter> span c = {}) \<and>
    \<Union> (span ` T) = {..<2 ^ M}"

lemma span_iff [simp]: "x \<in> span (n, k) \<longleftrightarrow> n \<le> x \<and> x < n + 2 ^ k"
  by (simp add: span_def)

lemma span_start: "n \<in> span (n, k)"
  by simp

lemma tilesD:
  assumes "tiles L M T" "(n, k) \<in> T"
  shows "L \<le> k" "k \<le> M" "2 ^ k dvd n" "n + 2 ^ k \<le> 2 ^ M"
proof -
  show "L \<le> k" "k \<le> M" "2 ^ k dvd n" using assms by (auto simp: tiles_def)
  have "0 < (2::nat) ^ k" by simp
  then have "n + 2 ^ k - 1 \<in> span (n, k)" unfolding span_iff by linarith
  then have "n + 2 ^ k - 1 \<in> {..<2 ^ M}" using assms unfolding tiles_def by blast
  then show "n + 2 ^ k \<le> 2 ^ M" by simp
qed

lemma tiles_overlap: "tiles L M T \<Longrightarrow> b \<in> T \<Longrightarrow> c \<in> T \<Longrightarrow> x \<in> span b \<Longrightarrow> x \<in> span c \<Longrightarrow> b = c"
  unfolding tiles_def by blast

lemma tiles_same_start: "tiles L M T \<Longrightarrow> (n, k) \<in> T \<Longrightarrow> (n, j) \<in> T \<Longrightarrow> k = j"
  using tiles_overlap [of L M T "(n, k)" "(n, j)" n] by simp

lemma tiles_cover: "tiles L M T \<Longrightarrow> x < 2 ^ M \<Longrightarrow> \<exists>n k. (n, k) \<in> T \<and> n \<le> x \<and> x < n + 2 ^ k"
proof -
  assume "tiles L M T" "x < 2 ^ M"
  then have "x \<in> \<Union> (span ` T)" by (simp add: tiles_def)
  then obtain b where "b \<in> T" "x \<in> span b" by blast
  then show ?thesis by (cases b) auto
qed

lemma tiles_one: "L \<le> M \<Longrightarrow> tiles L M {(0, M)}"
  by (auto simp: tiles_def span_def)

lemma tiles_finite: "tiles L M T \<Longrightarrow> finite T"
proof -
  assume t: "tiles L M T"
  have "n < 2 ^ M \<and> k \<le> M" if "(n, k) \<in> T" for n k
    using tilesD(2,4) [OF t that] zero_less_power [of "2::nat" k] by linarith
  then have "T \<subseteq> {..<2 ^ M} \<times> {..M}" by auto
  then show ?thesis by (rule finite_subset) simp
qed

text \<open>Replacing some blocks by others over the same bytes.\<close>

lemma tiles_replace:
  assumes t: "tiles L M T" and A: "A \<subseteq> T"
    and B: "\<And>n k. (n, k) \<in> B \<Longrightarrow> L \<le> k \<and> k \<le> M \<and> 2 ^ k dvd n"
    and disj: "\<And>b c. b \<in> B \<Longrightarrow> c \<in> B \<Longrightarrow> b \<noteq> c \<Longrightarrow> span b \<inter> span c = {}"
    and same: "\<Union> (span ` B) = \<Union> (span ` A)"
  shows "tiles L M (T - A \<union> B)"
proof -
  have out: "span b \<inter> span c = {}" if "b \<in> B" "c \<in> T - A" for b c
  proof -
    have "span b \<subseteq> \<Union> (span ` A)" using that(1) same by blast
    moreover have "span c \<inter> span d = {}" if "d \<in> A" for d
    proof -
      have "c \<in> T" "d \<in> T" "c \<noteq> d" using \<open>c \<in> T - A\<close> A that by auto
      then show ?thesis using t unfolding tiles_def by simp
    qed
    ultimately show ?thesis by blast
  qed
  have "\<Union> (span ` (T - A \<union> B)) = \<Union> (span ` T)" using A same by blast
  moreover have "span b \<inter> span c = {}" if "b \<in> T - A \<union> B" "c \<in> T - A \<union> B" "b \<noteq> c" for b c
  proof -
    consider "b \<in> B" "c \<in> B" | "b \<in> B" "c \<in> T - A" | "b \<in> T - A" "c \<in> B" | "b \<in> T" "c \<in> T" using \<open>b \<in> T - A \<union> B\<close> \<open>c \<in> T - A \<union> B\<close> by blast
    then show ?thesis
    proof cases
      case 4
      then show ?thesis using t that(3) unfolding tiles_def by simp
    qed (use out [of b c] out [of c b] disj [of b c] that(3) in auto)
  qed
  moreover have "\<forall>(n, k) \<in> T - A \<union> B. L \<le> k \<and> k \<le> M \<and> 2 ^ k dvd n" using t B unfolding tiles_def by auto
  ultimately show ?thesis using t unfolding tiles_def by simp
qed

lemma span_halves: "span (n, Suc k) = span (n, k) \<union> span (n + 2 ^ k, k)"
  by auto

lemma tiles_split:
  assumes "tiles L M T" "(n, Suc k) \<in> T" "L \<le> k"
  shows "tiles L M (T - {(n, Suc k)} \<union> {(n, k), (n + 2 ^ k, k)})"
proof (rule tiles_replace [OF assms(1)])
  have "2 ^ Suc k dvd n" "Suc k \<le> M" using tilesD [OF assms(1,2)] by auto
  then show "L \<le> k' \<and> k' \<le> M \<and> 2 ^ k' dvd m" if "(m, k') \<in> {(n, k), (n + 2 ^ k, k)}" for m k'
    using that assms(3) by (auto intro: dvd_add dest: power_le_dvd [of _ _ _ k])
qed (use assms(2) span_halves in \<open>auto simp: span_def\<close>)

lemma tiles_join:
  assumes "tiles L M T" "(n, k) \<in> T" "(n + 2 ^ k, k) \<in> T" "2 ^ Suc k dvd n" "k < M"
  shows "tiles L M (T - {(n, k), (n + 2 ^ k, k)} \<union> {(n, Suc k)})"
proof (rule tiles_replace [OF assms(1)])
  show "L \<le> k' \<and> k' \<le> M \<and> 2 ^ k' dvd m" if "(m, k') \<in> {(n, Suc k)}" for m k'
    using that assms tilesD [OF assms(1,2)] by auto
qed (use assms(2,3) span_halves [of n k] in \<open>auto\<close>)

section \<open>Buddies\<close>

lemma xor_pow2:
  fixes n :: nat
  assumes "2 ^ k dvd n"
  shows "n XOR 2 ^ k = (if even (n div 2 ^ k) then n + 2 ^ k else n - 2 ^ k)"
proof -
  obtain q where n: "n = push_bit k q" using assms by (auto simp: push_bit_eq_mult elim: dvdE)
  have "n XOR 2 ^ k = push_bit k q XOR push_bit k 1" by (simp add: n push_bit_eq_mult)
  also have "\<dots> = push_bit k (q XOR 1)" by (simp only: push_bit_xor)
  also have "q XOR 1 = (if even q then q + 1 else q - 1)" by (subst xor_nat_unfold) (auto elim: evenE oddE)
  finally show ?thesis by (simp add: n push_bit_eq_mult algebra_simps)
qed

lemma xor_pow2_again: "(n XOR 2 ^ k) XOR 2 ^ k = (n::nat)"
  by (simp add: xor.assoc)

lemma xor_pow2_neq: "n XOR 2 ^ k \<noteq> (n::nat)"
  by (metis xor_self_eq xor.left_commute xor.right_neutral power_not_zero zero_neq_numeral)

lemma buddy_upper:
  fixes n :: nat
  assumes "2 ^ Suc k dvd n"
  shows "n XOR 2 ^ k = n + 2 ^ k" "(n + 2 ^ k) XOR 2 ^ k = n"
proof -
  obtain q where n: "n = q * 2 * 2 ^ k" using assms by (auto elim!: dvdE simp: algebra_simps)
  have "2 ^ k dvd n" "even (n div 2 ^ k)" by (simp_all add: n)
  then show "n XOR 2 ^ k = n + 2 ^ k" using xor_pow2 by simp
  then show "(n + 2 ^ k) XOR 2 ^ k = n" using xor_pow2_again [of n k] by simp
qed

text \<open>A pair of buddies starts at a multiple of twice their size.\<close>

lemma buddy_pair:
  fixes n :: nat
  assumes "2 ^ k dvd n"
  obtains m where "2 ^ Suc k dvd m" "m = min n (n XOR 2 ^ k)"
    "n = m \<and> n XOR 2 ^ k = m + 2 ^ k \<or> n = m + 2 ^ k \<and> n XOR 2 ^ k = m"
proof (cases "even (n div 2 ^ k)")
  case True
  then have "2 ^ Suc k dvd n" using assms by (auto elim!: dvdE)
  then show ?thesis using buddy_upper [of k n] that [of n] by simp
next
  case False
  obtain q where q: "n = 2 ^ k * q" using assms by (auto elim: dvdE)
  then have "odd q" using False by simp
  then obtain r where r: "q = 2 * r + 1" by (auto elim: oddE)
  let ?m = "2 ^ k * (2 * r)"
  have n: "n = ?m + 2 ^ k" by (simp add: q r algebra_simps)
  have d: "2 ^ Suc k dvd ?m" by simp
  then have x: "n XOR 2 ^ k = ?m" using buddy_upper(2) [of k ?m] n by simp
  have "min n (n XOR 2 ^ k) = ?m" unfolding x by (simp add: n)
  then show ?thesis using that [OF d] x n by auto
qed

lemma multiple_step: "d dvd a \<Longrightarrow> d dvd b \<Longrightarrow> a < b \<Longrightarrow> a + d \<le> b" for d a b :: nat
  using dvd_imp_le [of d "b - a"] by (simp add: dvd_diff_nat)

lemma tiles_buddy:
  assumes t: "tiles L M T" and b: "(n, k) \<in> T" and k: "k < M"
  shows "\<exists>j. (n XOR 2 ^ k, j) \<in> T \<and> j \<le> k"
proof -
  define c where "c = n XOR 2 ^ k"
  obtain m where m: "2 ^ Suc k dvd m" and nc: "n = m \<and> c = m + 2 ^ k \<or> n = m + 2 ^ k \<and> c = m"
    unfolding c_def by (rule buddy_pair [OF tilesD(3) [OF t b]])
  have pos: "0 < (2::nat) ^ k" by simp
  have "2 ^ Suc k dvd (2::nat) ^ M" using k by (intro le_imp_power_dvd) simp
  moreover have "m < 2 ^ M" using tilesD(4) [OF t b] nc pos by linarith
  ultimately have "m + 2 ^ Suc k \<le> 2 ^ M" using multiple_step [OF m] by blast
  then have "c < 2 ^ M" using nc pos unfolding power_Suc by linarith
  then obtain n' j where j: "(n', j) \<in> T" "n' \<le> c" "c < n' + 2 ^ j" using tiles_cover [OF t] by blast
  have jk: "j \<le> k"
  proof (rule ccontr)
    assume "\<not> j \<le> k"
    then have d: "2 ^ Suc k dvd (2::nat) ^ j" by (intro le_imp_power_dvd) simp
    have n': "2 ^ Suc k dvd n'" using tilesD(3) [OF t j(1)] d dvd_trans by blast
    have "n' \<le> m" using multiple_step [OF m n'] j(2) nc by fastforce
    moreover have "m + 2 ^ Suc k \<le> n' + 2 ^ j" using multiple_step [OF m dvd_add [OF n' d]] j(3) nc by fastforce
    ultimately have "n \<in> span (n', j)" using nc pos unfolding span_iff power_Suc by linarith
    then have "(n, k) = (n', j)" using tiles_overlap [OF t b j(1) span_start] by blast
    then show False using \<open>\<not> j \<le> k\<close> by simp
  qed
  have "2 ^ k dvd m" using m by (auto elim!: dvdE)
  then have "2 ^ k dvd c" using nc by auto
  then have "2 ^ j dvd c" using jk by (meson le_imp_power_dvd dvd_trans)
  then have "n' = c" using multiple_step [of "2 ^ j" n' c] tilesD(3) [OF t j(1)] j(2,3) by linarith
  then show ?thesis using j(1) jk c_def by blast
qed

text \<open>A set of blocks without two buddies of the same order.\<close>

definition lonely :: "nat \<Rightarrow> block set \<Rightarrow> bool" where
  "lonely M F \<longleftrightarrow> (\<forall>(n, k) \<in> F. k < M \<longrightarrow> (n XOR 2 ^ k, k) \<notin> F)"

lemma lonely_mono: "lonely M F \<Longrightarrow> F' \<subseteq> F \<Longrightarrow> lonely M F'"
  unfolding lonely_def by blast

lemma lonely_insert:
  assumes "lonely M F" "(n XOR 2 ^ k, k) \<notin> F"
  shows "lonely M (insert (n, k) F)"
proof -
  have "(n XOR 2 ^ k, k) \<noteq> (n, k)" using xor_pow2_neq by simp
  moreover have "(m XOR 2 ^ i, i) \<noteq> (n, k)" if "(m, i) \<in> F" for m i
    using assms(2) that xor_pow2_again [of m i] by auto
  ultimately show ?thesis using assms unfolding lonely_def by auto
qed

text \<open>If all blocks are free and no two buddies are, there is one block.\<close>

lemma lonely_single:
  assumes t: "tiles L M T" and l: "lonely M T"
  shows "T = {(0, M)}"
proof -
  have all: "k = M" if b: "(n, k) \<in> T" for n k
    using b
  proof (induction k arbitrary: n rule: less_induct)
    case (less k)
    show ?case
    proof (rule ccontr)
      assume "k \<noteq> M"
      then have "k < M" using tilesD(2) [OF t less.prems] by simp
      then obtain j where j: "(n XOR 2 ^ k, j) \<in> T" "j \<le> k" using tiles_buddy [OF t less.prems] by blast
      have "j \<noteq> k" using l less.prems j(1) \<open>k < M\<close> unfolding lonely_def by blast
      then show False using less.IH [of j] j \<open>k < M\<close> by fastforce
    qed
  qed
  have "b = (0, M)" if "b \<in> T" for b
  proof (cases b)
    case (Pair n k)
    then show ?thesis using all [of n k] tilesD(4) [OF t, of n k] that by simp
  qed
  moreover have "T \<noteq> {}" using tiles_cover [OF t, of 0] by auto
  ultimately show ?thesis by blast
qed

end
