(* ===== verification/Pal_Alloc.thy ===== *)
theory Pal_Alloc
  imports Buddy_Tiling
begin

text \<open>
  Model of \<^verbatim>\<open>src/src/pal_alloc.c\<close>: a binary buddy allocator in a fixed arena.  Memory
  is seen through three views: the block headers, the raw pointers saved in front of
  aligned blocks, and the payload bytes.  A client that writes outside its block is not modelled.  The singly linked
  free lists are lists of block offsets.  Every operation runs under the spin lock of
  the allocator, so operations are atomic steps.  The first use of the default arena is one
  step too: in the code the test of \<open>initialized\<close> in \<open>pal_malloc\<close> comes before the lock is taken, and
  two threads whose first requests coincide may both initialise the arena, which these
  theories do not describe.
\<close>

unbundle bit_operations_syntax

section \<open>Definitions\<close>

definition PAL_ALLOC_DEFAULT_SIZE :: "64 word" where "PAL_ALLOC_DEFAULT_SIZE = 8388608"
definition PAL_ALLOC_MIN_ORDER :: nat where [simp]: "PAL_ALLOC_MIN_ORDER = 5"
definition PAL_ALLOC_MAX_ORDER :: nat where [simp]: "PAL_ALLOC_MAX_ORDER = 26"
definition PAL_ALLOC_MAGIC :: "32 word" where "PAL_ALLOC_MAGIC = 0xA11C0A7"

text \<open>The header takes 16 bytes.  Only whether \<open>used\<close> is zero matters.\<close>

definition HDR_SIZE :: "64 word" where "HDR_SIZE = 16"

record pal_alloc_hdr =
  magic :: "32 word"
  order :: nat
  used :: bool

type_synonym ptr = "64 word"

record pal_alloc_stats =
  alloc_calls :: "64 word"
  free_calls :: "64 word"
  calloc_calls :: "64 word"
  realloc_calls :: "64 word"
  aligned_calls :: "64 word"
  failures :: "64 word"
  bytes_in_use :: "64 word"
  bytes_peak :: "64 word"

record pal_allocator =
  base :: ptr
  arena :: "64 word"
  max_order :: nat
  initialized :: bool
  free_lists :: "nat \<Rightarrow> nat list"
  hdr_mem :: "ptr \<Rightarrow> pal_alloc_hdr"
  ptr_mem :: "ptr \<Rightarrow> ptr"
  data :: "ptr \<Rightarrow> byte"
  counts :: pal_alloc_stats

text \<open>The address of the block at an offset, and the header stored there.\<close>

definition block_ptr :: "pal_allocator \<Rightarrow> nat \<Rightarrow> ptr" where
  "block_ptr a off = base a + of_nat off"

definition block_hdr :: "pal_allocator \<Rightarrow> nat \<Rightarrow> pal_alloc_hdr" where
  "block_hdr a off = hdr_mem a (block_ptr a off)"

definition set_hdr :: "nat \<Rightarrow> nat \<Rightarrow> bool \<Rightarrow> pal_allocator \<Rightarrow> pal_allocator" where
  "set_hdr off k u a =
    a\<lparr>hdr_mem := (hdr_mem a)(block_ptr a off := \<lparr>magic = PAL_ALLOC_MAGIC, order = k, used = u\<rparr>)\<rparr>"

definition set_order :: "nat \<Rightarrow> nat \<Rightarrow> pal_allocator \<Rightarrow> pal_allocator" where
  "set_order off k a = a\<lparr>hdr_mem := (hdr_mem a)(block_ptr a off := (block_hdr a off)\<lparr>order := k\<rparr>)\<rparr>"

subsection \<open>Logarithms\<close>

function floor_log2_u64 :: "64 word \<Rightarrow> nat" where
  "floor_log2_u64 v = (if drop_bit 1 v = 0 then 0 else floor_log2_u64 (drop_bit 1 v) + 1)"
  by pat_completeness auto
termination
proof (relation "measure unat")
  fix v :: "64 word"
  assume "drop_bit 1 v \<noteq> 0"
  moreover have h: "unat (drop_bit 1 v) = unat v div 2" by (simp add: drop_bit_eq_div unat_div)
  ultimately have "unat v div 2 \<noteq> 0" by (metis unat_eq_0)
  then show "(drop_bit 1 v, v) \<in> measure unat" using h by simp
qed simp

definition ceil_log2_u64 :: "64 word \<Rightarrow> nat" where
  "ceil_log2_u64 v = (if v \<le> 1 then 0 else floor_log2_u64 (v - 1) + 1)"

subsection \<open>Free lists\<close>

definition list_idx :: "nat \<Rightarrow> nat" where
  "list_idx k = k - PAL_ALLOC_MIN_ORDER"

definition list_pop :: "nat \<Rightarrow> pal_allocator \<Rightarrow> nat option \<times> pal_allocator" where
  "list_pop k a =
    (case free_lists a (list_idx k) of
       [] \<Rightarrow> (None, a)
     | n # ns \<Rightarrow> (Some n, a\<lparr>free_lists := (free_lists a)(list_idx k := ns)\<rparr>))"

definition list_push :: "nat \<Rightarrow> nat \<Rightarrow> pal_allocator \<Rightarrow> pal_allocator" where
  "list_push k n a = a\<lparr>free_lists := (free_lists a)(list_idx k := n # free_lists a (list_idx k))\<rparr>"

definition list_remove :: "nat \<Rightarrow> nat \<Rightarrow> pal_allocator \<Rightarrow> bool \<times> pal_allocator" where
  "list_remove k n a =
    (if n \<in> set (free_lists a (list_idx k))
     then (True, a\<lparr>free_lists := (free_lists a)(list_idx k := remove1 n (free_lists a (list_idx k)))\<rparr>)
     else (False, a))"

subsection \<open>Initialisation and statistics\<close>

definition no_counts :: pal_alloc_stats where
  "no_counts = \<lparr>alloc_calls = 0, free_calls = 0, calloc_calls = 0, realloc_calls = 0, aligned_calls = 0,
     failures = 0, bytes_in_use = 0, bytes_peak = 0\<rparr>"

definition pal_allocator_get_stats :: "pal_allocator \<Rightarrow> pal_alloc_stats" where
  "pal_allocator_get_stats a = (if initialized a then counts a else no_counts)"

definition pal_allocator_reset_stats :: "pal_allocator \<Rightarrow> pal_allocator" where
  "pal_allocator_reset_stats a = a\<lparr>counts := no_counts\<rparr>"

definition prefault_pages :: "ptr \<Rightarrow> 64 word \<Rightarrow> (ptr \<Rightarrow> byte) \<Rightarrow> ptr \<Rightarrow> byte" where
  "prefault_pages b n m p =
    (if b = 0 \<or> n = 0 then m p
     else if p - b < n \<and> ((p - b) AND 0xFFF = 0 \<or> p - b = n - 1) then 0 else m p)"

definition pal_allocator_init :: "ptr \<Rightarrow> 64 word \<Rightarrow> pal_allocator \<Rightarrow> int \<times> pal_allocator" where
  "pal_allocator_init buffer n a =
    (if buffer = 0 \<or> n < push_bit PAL_ALLOC_MIN_ORDER 1 then (-1, a)
     else let aligned = (buffer + 15) AND NOT 15; adj = aligned - buffer
     in if adj \<ge> n then (-1, a)
        else let k = min (floor_log2_u64 (n - adj)) PAL_ALLOC_MAX_ORDER
        in if k < PAL_ALLOC_MIN_ORDER then (-1, a)
           else let a = a\<lparr>base := aligned, arena := push_bit k 1, max_order := k, free_lists := (\<lambda>_. [])\<rparr>;
                    a = pal_allocator_reset_stats a;
                    a = a\<lparr>data := prefault_pages aligned (push_bit k 1) (data a)\<rparr>
           in (0, (list_push k 0 (set_hdr 0 k False a))\<lparr>initialized := True\<rparr>))"

definition pal_alloc_arena_size :: "pal_allocator \<Rightarrow> 64 word" where
  "pal_alloc_arena_size a = (if initialized a then arena a else 0)"

definition pal_alloc_arena_free_approx :: "pal_allocator \<Rightarrow> 64 word" where
  "pal_alloc_arena_free_approx a =
    (if initialized a
     then sum_list (concat (map (\<lambda>k. map (\<lambda>_. push_bit k 1) (free_lists a (list_idx k)))
            [PAL_ALLOC_MIN_ORDER ..< max_order a + 1]))
     else 0)"

subsection \<open>Allocation\<close>

text \<open>The search for a block of order \<open>cur\<close> or above.\<close>

function pop_from :: "nat \<Rightarrow> pal_allocator \<Rightarrow> (nat \<times> nat) option \<times> pal_allocator" where
  "pop_from cur a =
    (if cur \<le> max_order a
     then case list_pop cur a of
            (Some n, a') \<Rightarrow> (Some (n, cur), a')
          | (None, _) \<Rightarrow> pop_from (cur + 1) a
     else (None, a))"
  by pat_completeness auto
termination
  by (relation "measure (\<lambda>(cur, a). Suc (max_order a) - cur)") auto

text \<open>The block is halved \<open>d\<close> times; each time the upper half goes to its free list.\<close>

primrec split_block :: "nat \<Rightarrow> nat \<Rightarrow> nat \<Rightarrow> pal_allocator \<Rightarrow> pal_allocator" where
  "split_block n k 0 a = a"
| "split_block n k (Suc d) a =
    (let cur = k + d; buddy = n + 2 ^ cur
     in split_block n k d (set_order n cur (list_push cur buddy (set_hdr buddy cur False a))))"

definition alloc_locked :: "64 word \<Rightarrow> pal_allocator \<Rightarrow> ptr \<times> pal_allocator" where
  "alloc_locked n a =
    (let n = (if n = 0 then 1 else n); need = n + HDR_SIZE
     in if need > arena a then (0, a)
        else let k = max (ceil_log2_u64 need) PAL_ALLOC_MIN_ORDER
        in if k > max_order a then (0, a)
           else case pop_from k a of
                  (None, a) \<Rightarrow> (0, a)
                | (Some (off, cur), a) \<Rightarrow>
                    (block_ptr a off + HDR_SIZE, set_hdr off k True (split_block off k (cur - k) a)))"

definition count_alloc :: "64 word \<Rightarrow> pal_alloc_stats \<Rightarrow> pal_alloc_stats" where
  "count_alloc bytes c =
    (let in_use = bytes_in_use c + bytes
     in c\<lparr>alloc_calls := alloc_calls c + 1, bytes_in_use := in_use, bytes_peak := max (bytes_peak c) in_use\<rparr>)"

definition pal_allocator_malloc :: "64 word \<Rightarrow> pal_allocator \<Rightarrow> ptr \<times> pal_allocator" where
  "pal_allocator_malloc n a =
    (if \<not> initialized a then (0, a)
     else case alloc_locked n a of (p, a) \<Rightarrow>
       if p \<noteq> 0
       then (p, a\<lparr>counts := count_alloc (push_bit (order (hdr_mem a (p - HDR_SIZE))) 1) (counts a)\<rparr>)
       else (p, a\<lparr>counts := (counts a)\<lparr>failures := failures (counts a) + 1\<rparr>\<rparr>))"

subsection \<open>Release\<close>

text \<open>
  The coalescing loop.  The block at \<open>off\<close> of order \<open>k\<close> is free; \<open>off XOR 2 ^ k\<close> is its buddy.
\<close>

function merge_block :: "nat \<Rightarrow> nat \<Rightarrow> pal_allocator \<Rightarrow> nat \<times> nat \<times> pal_allocator" where
  "merge_block off k a =
    (if k < max_order a
     then let buddy = off XOR 2 ^ k; h = block_hdr a buddy
          in if of_nat buddy \<ge> arena a \<or> magic h \<noteq> PAL_ALLOC_MAGIC \<or> used h \<or> order h \<noteq> k then (off, k, a)
             else case list_remove k buddy a of
                    (False, _) \<Rightarrow> (off, k, a)
                  | (True, a') \<Rightarrow>
                      let node = min off buddy
                      in merge_block node (k + 1)
                        (a'\<lparr>hdr_mem := (hdr_mem a')(block_ptr a' node :=
                             (block_hdr a' node)\<lparr>order := k + 1, used := False\<rparr>)\<rparr>)
     else (off, k, a))"
  by pat_completeness auto
termination
  by (relation "measure (\<lambda>(off, k, a). max_order a - k)") (auto simp: list_remove_def split: if_splits)

definition ptr_in_arena :: "pal_allocator \<Rightarrow> ptr \<Rightarrow> bool" where
  "ptr_in_arena a p \<longleftrightarrow> p \<noteq> 0 \<and> base a \<noteq> 0 \<and> arena a \<noteq> 0 \<and> base a \<le> p \<and> p < base a + arena a"

definition valid_hdr :: "pal_allocator \<Rightarrow> ptr \<Rightarrow> bool" where
  "valid_hdr a p \<longleftrightarrow> magic (hdr_mem a p) = PAL_ALLOC_MAGIC \<and> used (hdr_mem a p)"

text \<open>The header of the block a pointer belongs to, directly or through the saved raw pointer.\<close>

definition find_hdr :: "pal_allocator \<Rightarrow> ptr \<Rightarrow> ptr option" where
  "find_hdr a p =
    (if valid_hdr a (p - HDR_SIZE) then Some (p - HDR_SIZE)
     else if p AND 7 = 0
     then let raw = ptr_mem a (p - 8)
          in if ptr_in_arena a raw \<and> valid_hdr a (raw - HDR_SIZE) then Some (raw - HDR_SIZE) else None
     else None)"

definition count_free :: "64 word \<Rightarrow> pal_alloc_stats \<Rightarrow> pal_alloc_stats" where
  "count_free bytes c = c\<lparr>free_calls := free_calls c + 1, bytes_in_use := bytes_in_use c - bytes\<rparr>"

definition free_locked :: "ptr \<Rightarrow> pal_allocator \<Rightarrow> pal_allocator" where
  "free_locked p a =
    (if p = 0 then a
     else case find_hdr a p of
       None \<Rightarrow> a
     | Some h \<Rightarrow>
         let k = order (hdr_mem a h)
         in if k < PAL_ALLOC_MIN_ORDER \<or> k > max_order a then a
            else let a = a\<lparr>counts := count_free (push_bit k 1) (counts a),
                           hdr_mem := (hdr_mem a)(h := (hdr_mem a h)\<lparr>used := False\<rparr>)\<rparr>
            in case merge_block (unat (h - base a)) k a of (off, k, a) \<Rightarrow> list_push k off a)"

definition pal_allocator_free :: "ptr \<Rightarrow> pal_allocator \<Rightarrow> pal_allocator" where
  "pal_allocator_free p a = (if p = 0 \<or> \<not> initialized a then a else free_locked p a)"

subsection \<open>Derived operations\<close>

definition fill :: "ptr \<Rightarrow> 64 word \<Rightarrow> (64 word \<Rightarrow> byte) \<Rightarrow> (ptr \<Rightarrow> byte) \<Rightarrow> ptr \<Rightarrow> byte" where
  "fill p n f m q = (if q - p < n then f (q - p) else m q)"

definition pal_allocator_calloc :: "64 word \<Rightarrow> 64 word \<Rightarrow> pal_allocator \<Rightarrow> ptr \<times> pal_allocator" where
  "pal_allocator_calloc nmemb n a =
    (let a = a\<lparr>counts := (counts a)\<lparr>calloc_calls := calloc_calls (counts a) + 1\<rparr>\<rparr>
     in if nmemb = 0 \<or> n = 0 then pal_allocator_malloc 0 a
        else if nmemb > (- 1) div n then (0, a)
        else case pal_allocator_malloc (nmemb * n) a of (p, a) \<Rightarrow>
          if p \<noteq> 0 then (p, a\<lparr>data := fill p (nmemb * n) (\<lambda>_. 0) (data a)\<rparr>) else (p, a))"

definition pal_allocator_realloc :: "ptr \<Rightarrow> 64 word \<Rightarrow> pal_allocator \<Rightarrow> ptr \<times> pal_allocator" where
  "pal_allocator_realloc p n a =
    (let a = a\<lparr>counts := (counts a)\<lparr>realloc_calls := realloc_calls (counts a) + 1\<rparr>\<rparr>
     in if p = 0 then pal_allocator_malloc n a
        else if n = 0 then (0, pal_allocator_free p a)
        else if \<not> initialized a then (0, a)
        else if \<not> valid_hdr a (p - HDR_SIZE) then (0, a)
        else let cap = push_bit (order (hdr_mem a (p - HDR_SIZE))) 1 - HDR_SIZE
        in if n \<le> cap then (p, a)
           else case pal_allocator_malloc n a of (q, a) \<Rightarrow>
             if q = 0 then (0, a)
             else (q, pal_allocator_free p (a\<lparr>data := fill q cap (\<lambda>i. data a (p + i)) (data a)\<rparr>)))"

definition pal_allocator_aligned_alloc :: "64 word \<Rightarrow> 64 word \<Rightarrow> pal_allocator \<Rightarrow> ptr \<times> pal_allocator" where
  "pal_allocator_aligned_alloc alignment n a =
    (let a = a\<lparr>counts := (counts a)\<lparr>aligned_calls := aligned_calls (counts a) + 1\<rparr>\<rparr>;
         alignment = max alignment 8
     in if alignment AND (alignment - 1) \<noteq> 0 then (0, a)
        else case pal_allocator_malloc (n + alignment + 8) a of (raw, a) \<Rightarrow>
          if raw = 0 then (0, a)
          else let aligned = (raw + 8 + (alignment - 1)) AND NOT (alignment - 1)
               in (aligned, a\<lparr>ptr_mem := (ptr_mem a)(aligned - 8 := raw)\<rparr>))"

definition pal_allocator_posix_memalign :: "64 word \<Rightarrow> 64 word \<Rightarrow> pal_allocator \<Rightarrow> (int \<times> ptr) \<times> pal_allocator" where
  "pal_allocator_posix_memalign alignment n a =
    (case pal_allocator_aligned_alloc alignment n a of (p, a) \<Rightarrow> if p = 0 then ((12, 0), a) else ((0, p), a))"

subsection \<open>The global allocator\<close>

text \<open>\<open>buf\<close> is the address of the default arena, which the linker chooses.\<close>

definition pal_alloc_init_default :: "ptr \<Rightarrow> pal_allocator \<Rightarrow> int \<times> pal_allocator" where
  "pal_alloc_init_default buf a =
    (if initialized a then (0, a) else pal_allocator_init buf PAL_ALLOC_DEFAULT_SIZE a)"

definition with_default ::
  "ptr \<Rightarrow> (pal_allocator \<Rightarrow> 'r \<times> pal_allocator) \<Rightarrow> 'r \<Rightarrow> pal_allocator \<Rightarrow> 'r \<times> pal_allocator" where
  "with_default buf f err a =
    (if initialized a then f a
     else case pal_alloc_init_default buf a of (r, a) \<Rightarrow> if r \<noteq> 0 then (err, a) else f a)"

definition pal_malloc :: "ptr \<Rightarrow> 64 word \<Rightarrow> pal_allocator \<Rightarrow> ptr \<times> pal_allocator" where
  "pal_malloc buf n = with_default buf (pal_allocator_malloc n) 0"

definition pal_calloc :: "ptr \<Rightarrow> 64 word \<Rightarrow> 64 word \<Rightarrow> pal_allocator \<Rightarrow> ptr \<times> pal_allocator" where
  "pal_calloc buf nmemb n = with_default buf (pal_allocator_calloc nmemb n) 0"

definition pal_realloc :: "ptr \<Rightarrow> ptr \<Rightarrow> 64 word \<Rightarrow> pal_allocator \<Rightarrow> ptr \<times> pal_allocator" where
  "pal_realloc buf p n = with_default buf (pal_allocator_realloc p n) 0"

definition pal_aligned_alloc :: "ptr \<Rightarrow> 64 word \<Rightarrow> 64 word \<Rightarrow> pal_allocator \<Rightarrow> ptr \<times> pal_allocator" where
  "pal_aligned_alloc buf alignment n = with_default buf (pal_allocator_aligned_alloc alignment n) 0"

definition pal_posix_memalign :: "ptr \<Rightarrow> 64 word \<Rightarrow> 64 word \<Rightarrow> pal_allocator \<Rightarrow> (int \<times> ptr) \<times> pal_allocator" where
  "pal_posix_memalign buf alignment n = with_default buf (pal_allocator_posix_memalign alignment n) (12, 0)"

definition pal_free :: "ptr \<Rightarrow> pal_allocator \<Rightarrow> pal_allocator" where
  "pal_free p a = (if initialized a then pal_allocator_free p a else a)"

section \<open>Logarithms\<close>

declare floor_log2_u64.simps [simp del] pop_from.simps [simp del] merge_block.simps [simp del]

lemma floor_log2_bounds: "v \<noteq> 0 \<Longrightarrow> 2 ^ floor_log2_u64 v \<le> unat v \<and> unat v < 2 ^ Suc (floor_log2_u64 v)"
proof (induction v rule: floor_log2_u64.induct)
  case (1 v)
  have h: "unat (drop_bit 1 v) = unat v div 2" by (simp add: drop_bit_eq_div unat_div)
  show ?case
  proof (cases "drop_bit 1 v = 0")
    case True
    then have "unat v div 2 = 0" using h by simp
    moreover have "unat v \<noteq> 0" using 1(2) by (simp add: unat_eq_0)
    ultimately have "unat v = 1" by linarith
    then show ?thesis using True by (simp add: floor_log2_u64.simps [of v])
  next
    case False
    then have "2 ^ floor_log2_u64 (drop_bit 1 v) \<le> unat v div 2" "unat v div 2 < 2 ^ Suc (floor_log2_u64 (drop_bit 1 v))"
      using 1(1) h by simp_all
    then have "2 * 2 ^ floor_log2_u64 (drop_bit 1 v) \<le> unat v" "unat v < 4 * 2 ^ floor_log2_u64 (drop_bit 1 v)"
      unfolding power_Suc by linarith+
    then show ?thesis using False by (simp add: floor_log2_u64.simps [of v])
  qed
qed

lemma ceil_log2_bound: "unat v \<le> 2 ^ ceil_log2_u64 v"
proof (cases "v \<le> 1")
  case True
  then have "unat v \<le> 1" by (simp add: word_le_nat_alt)
  then show ?thesis using True by (simp add: ceil_log2_u64_def)
next
  case False
  then have "v \<noteq> 0" "v \<noteq> 1" by auto
  then have v: "v - 1 \<noteq> 0" "unat (v - 1) = unat v - 1" "unat v \<noteq> 0"
    by (simp_all add: unat_eq_0 unat_minus_one)
  have "unat v - 1 < 2 ^ Suc (floor_log2_u64 (v - 1))" using floor_log2_bounds [OF v(1)] v(2) by simp
  then have "unat v \<le> 2 ^ Suc (floor_log2_u64 (v - 1))" using v(3) by linarith
  then show ?thesis using False by (simp add: ceil_log2_u64_def)
qed

section \<open>The invariant\<close>

text \<open>
  The blocks of the arena are the free ones \<open>F\<close>, the used ones \<open>U\<close> and, inside an
  operation, one in hand.  Each block has a header, the lists hold the free blocks, and no
  two buddies are both free.
\<close>

definition geometry :: "pal_allocator \<Rightarrow> bool" where
  "geometry a \<longleftrightarrow> PAL_ALLOC_MIN_ORDER \<le> max_order a \<and> max_order a \<le> PAL_ALLOC_MAX_ORDER \<and>
    arena a = 2 ^ max_order a \<and> initialized a \<and> base a \<noteq> 0 \<and> base a AND 15 = 0 \<and>
    unat (base a) + 2 ^ max_order a \<le> 2 ^ 64"

definition hdrs_ok :: "pal_allocator \<Rightarrow> block set \<Rightarrow> bool \<Rightarrow> bool" where
  "hdrs_ok a B u \<longleftrightarrow> (\<forall>(n, k) \<in> B. block_hdr a n = \<lparr>magic = PAL_ALLOC_MAGIC, order = k, used = u\<rparr>)"

definition lists_ok :: "pal_allocator \<Rightarrow> block set \<Rightarrow> bool" where
  "lists_ok a F \<longleftrightarrow> (\<forall>k. PAL_ALLOC_MIN_ORDER \<le> k \<and> k \<le> max_order a \<longrightarrow>
     distinct (free_lists a (list_idx k)) \<and> set (free_lists a (list_idx k)) = {n. (n, k) \<in> F})"

definition arena_ok :: "pal_allocator \<Rightarrow> block set \<Rightarrow> block set \<Rightarrow> block set \<Rightarrow> bool" where
  "arena_ok a T F U \<longleftrightarrow> geometry a \<and> tiles PAL_ALLOC_MIN_ORDER (max_order a) T \<and> F \<inter> U = {} \<and> F \<union> U \<subseteq> T \<and>
    hdrs_ok a F False \<and> hdrs_ok a U True \<and> lists_ok a F \<and> lonely (max_order a) F"

lemma hdrs_ok_insert [simp]:
  "hdrs_ok a (insert (n, k) B) u \<longleftrightarrow> block_hdr a n = \<lparr>magic = PAL_ALLOC_MAGIC, order = k, used = u\<rparr> \<and> hdrs_ok a B u"
  by (simp add: hdrs_ok_def)

text \<open>Only the part of the state the invariant speaks about.\<close>

lemma arena_ok_cong:
  assumes "base a' = base a" "arena a' = arena a" "max_order a' = max_order a" "initialized a' = initialized a"
    "free_lists a' = free_lists a" "hdr_mem a' = hdr_mem a"
  shows "arena_ok a' T F U = arena_ok a T F U"
  using assms by (simp add: arena_ok_def geometry_def hdrs_ok_def lists_ok_def block_hdr_def block_ptr_def)

lemma block_ptr_inj:
  assumes "n < 2 ^ PAL_ALLOC_MAX_ORDER" "m < 2 ^ PAL_ALLOC_MAX_ORDER"
  shows "block_ptr a n = block_ptr a m \<longleftrightarrow> n = m"
proof -
  have "n < 2 ^ 64" "m < 2 ^ 64" using assms by simp_all
  then have "unat (of_nat n :: 64 word) = n" "unat (of_nat m :: 64 word) = m" by (simp_all add: unat_of_nat)
  then show ?thesis unfolding block_ptr_def by (metis add_left_imp_eq)
qed

lemma arena_block:
  assumes "arena_ok a T F U" "(n, k) \<in> T"
  shows "PAL_ALLOC_MIN_ORDER \<le> k" "k \<le> max_order a" "2 ^ k dvd n" "n + 2 ^ k \<le> 2 ^ max_order a"
    "n < 2 ^ PAL_ALLOC_MAX_ORDER"
proof -
  have t: "tiles PAL_ALLOC_MIN_ORDER (max_order a) T" "max_order a \<le> PAL_ALLOC_MAX_ORDER"
    using assms(1) by (simp_all add: arena_ok_def geometry_def)
  show b: "PAL_ALLOC_MIN_ORDER \<le> k" "k \<le> max_order a" "2 ^ k dvd n" "n + 2 ^ k \<le> 2 ^ max_order a"
    using tilesD [OF t(1) assms(2)] by simp_all
  have "(2::nat) ^ max_order a \<le> 2 ^ PAL_ALLOC_MAX_ORDER" using t(2) by (rule power_increasing) simp
  then show "n < 2 ^ PAL_ALLOC_MAX_ORDER" using b(4) zero_less_power [of "2::nat" k] by linarith
qed

lemma arena_unat: "geometry a \<Longrightarrow> unat (arena a) = 2 ^ max_order a"
proof -
  assume g: "geometry a"
  then have "(2::nat) ^ max_order a \<le> 2 ^ PAL_ALLOC_MAX_ORDER"
    by (intro power_increasing) (simp_all add: geometry_def)
  then have "(2::nat) ^ max_order a < 2 ^ 64" by simp
  then have "unat (of_nat (2 ^ max_order a) :: 64 word) = 2 ^ max_order a"
    by (simp add: unat_of_nat del: of_nat_power)
  then show ?thesis using g by (simp add: geometry_def)
qed

lemma arena_fits:
  assumes "geometry a" "n < 2 ^ max_order a"
  shows "\<not> arena a \<le> of_nat n"
proof -
  have "unat (of_nat n :: 64 word) \<le> n" by (simp add: unat_of_nat)
  then show ?thesis using arena_unat [OF assms(1)] assms(2) by (simp add: word_le_nat_alt)
qed

text \<open>Writing the header of a block leaves the headers of the others.\<close>

lemma hdrs_ok_other:
  assumes "hdrs_ok a B u" "\<And>n' k'. (n', k') \<in> B \<Longrightarrow> n' \<noteq> n \<and> n' < 2 ^ PAL_ALLOC_MAX_ORDER"
    "n < 2 ^ PAL_ALLOC_MAX_ORDER" "\<And>x. x \<noteq> block_ptr a n \<Longrightarrow> hdr_mem a' x = hdr_mem a x" "base a' = base a"
  shows "hdrs_ok a' B u"
proof -
  have "block_hdr a' n' = block_hdr a n'" if "(n', k') \<in> B" for n' k'
    using assms(2) [OF that] block_ptr_inj [of n' n a] assms(3-5) by (simp add: block_hdr_def block_ptr_def)
  then show ?thesis using assms(1) unfolding hdrs_ok_def by auto
qed

lemma hdrs_ok_set:
  assumes "hdrs_ok a B u" "\<And>n' k'. (n', k') \<in> B \<Longrightarrow> n' \<noteq> n \<and> n' < 2 ^ PAL_ALLOC_MAX_ORDER"
    "n < 2 ^ PAL_ALLOC_MAX_ORDER"
  shows "hdrs_ok (a\<lparr>hdr_mem := (hdr_mem a)(block_ptr a n := h)\<rparr>) B u"
  by (rule hdrs_ok_other [OF assms]) simp_all

lemma list_idx_inj: "PAL_ALLOC_MIN_ORDER \<le> k \<Longrightarrow> PAL_ALLOC_MIN_ORDER \<le> j \<Longrightarrow> list_idx k = list_idx j \<longleftrightarrow> k = j"
  by (auto simp: list_idx_def)

lemma lists_ok_push:
  assumes "lists_ok a F" "(n, k) \<notin> F" "PAL_ALLOC_MIN_ORDER \<le> k" "k \<le> max_order a"
  shows "lists_ok (list_push k n a) (insert (n, k) F)"
  using assms unfolding lists_ok_def list_push_def by (auto simp: list_idx_inj)

lemma lists_ok_remove:
  assumes "lists_ok a F" "PAL_ALLOC_MIN_ORDER \<le> k" "k \<le> max_order a"
    "free_lists a' = (free_lists a)(list_idx k := xs)" "max_order a' = max_order a"
    "distinct xs" "set xs = {m. (m, k) \<in> F} - {n}"
  shows "lists_ok a' (F - {(n, k)})"
  using assms unfolding lists_ok_def by (auto simp: list_idx_inj)

text \<open>The fields the inner loops leave alone.\<close>

definition frame :: "pal_allocator \<Rightarrow> pal_allocator \<Rightarrow> bool" where
  "frame a a' \<longleftrightarrow> base a' = base a \<and> arena a' = arena a \<and> max_order a' = max_order a \<and>
    initialized a' = initialized a \<and> counts a' = counts a \<and> data a' = data a \<and> ptr_mem a' = ptr_mem a"

lemma frame_refl [simp]: "frame a a"
  by (simp add: frame_def)

lemma frame_trans: "frame a b \<Longrightarrow> frame b c \<Longrightarrow> frame a c"
  by (simp add: frame_def)

lemma geometry_frame: "frame a a' \<Longrightarrow> geometry a' = geometry a"
  by (simp add: frame_def geometry_def)

lemma op_frames [simp]:
  "frame a (set_hdr n k u a)" "frame a (set_order n k a)" "frame a (list_push k n a)"
  "frame a (a\<lparr>free_lists := l\<rparr>)" "frame a (a\<lparr>hdr_mem := h\<rparr>)"
  by (simp_all add: frame_def set_hdr_def set_order_def list_push_def)

lemma lists_ok_frame: "free_lists a' = free_lists a \<Longrightarrow> max_order a' = max_order a \<Longrightarrow> lists_ok a' F = lists_ok a F"
  by (simp add: lists_ok_def)

lemma hdrs_ok_frame: "hdr_mem a' = hdr_mem a \<Longrightarrow> base a' = base a \<Longrightarrow> hdrs_ok a' B u = hdrs_ok a B u"
  by (simp add: hdrs_ok_def block_hdr_def block_ptr_def)

text \<open>A block in hand: it is in neither set.\<close>

definition in_hand :: "pal_allocator \<Rightarrow> block set \<Rightarrow> block set \<Rightarrow> nat \<Rightarrow> nat \<Rightarrow> bool" where
  "in_hand a F U n k \<longleftrightarrow> arena_ok a (insert (n, k) (F \<union> U)) F U \<and> (n, k) \<notin> F \<union> U \<and>
    block_hdr a n = \<lparr>magic = PAL_ALLOC_MAGIC, order = k, used = False\<rparr>"

lemma in_hand_tiles:
  "in_hand a F U n k \<Longrightarrow> tiles PAL_ALLOC_MIN_ORDER (max_order a) (insert (n, k) (F \<union> U))"
  by (simp add: in_hand_def arena_ok_def)

lemma in_hand_block: "in_hand a F U n k \<Longrightarrow> PAL_ALLOC_MIN_ORDER \<le> k \<and> k \<le> max_order a \<and> 2 ^ k dvd n \<and>
    n + 2 ^ k \<le> 2 ^ max_order a \<and> n < 2 ^ PAL_ALLOC_MAX_ORDER"
  using arena_block [of a _ F U n k] unfolding in_hand_def by blast

lemma in_hand_other:
  assumes h: "in_hand a F U n k" and b: "(n', k') \<in> F \<union> U"
  shows "span (n, k) \<inter> span (n', k') = {}" "n' < 2 ^ PAL_ALLOC_MAX_ORDER" "n' \<noteq> n"
proof -
  have "(n', k') \<noteq> (n, k)" using h b by (auto simp: in_hand_def)
  then show "span (n, k) \<inter> span (n', k') = {}"
    using tiles_overlap [OF in_hand_tiles [OF h], of "(n, k)" "(n', k')"] b by blast
  then show "n' \<noteq> n" using span_start by blast
  show "n' < 2 ^ PAL_ALLOC_MAX_ORDER" using arena_block(5) [of a _ F U n' k'] h b unfolding in_hand_def by blast
qed

lemma in_hand_apart: "in_hand a F U n k \<Longrightarrow> x \<in> span (n, k) \<Longrightarrow> (x, j) \<notin> F \<union> U"
  using in_hand_other(1) [of a F U n k x j] span_start [of x j] by blast

section \<open>The loops\<close>

lemma pop_from_hand:
  assumes "arena_ok a (F \<union> U) F U" "PAL_ALLOC_MIN_ORDER \<le> cur" "pop_from cur a = (r, a')"
  shows "(r = None \<and> a' = a) \<or>
    (\<exists>n c. r = Some (n, c) \<and> cur \<le> c \<and> (n, c) \<in> F \<and> in_hand a' (F - {(n, c)}) U n c \<and> frame a a')"
  using assms
proof (induction cur a arbitrary: r a' rule: pop_from.induct)
  case (1 cur a)
  show ?case
  proof (cases "cur \<le> max_order a")
    case False
    then show ?thesis using 1(4) by (simp add: pop_from.simps)
  next
    case True
    have l: "distinct (free_lists a (list_idx cur))" "set (free_lists a (list_idx cur)) = {n. (n, cur) \<in> F}"
      using 1(2,3) True by (auto simp: arena_ok_def lists_ok_def)
    show ?thesis
    proof (cases "free_lists a (list_idx cur)")
      case Nil
      then have "list_pop cur a = (None, a)" by (simp add: list_pop_def)
      then have "pop_from (cur + 1) a = (r, a')" using 1(4) True by (subst (asm) pop_from.simps) simp
      then have "(r = None \<and> a' = a) \<or> (\<exists>n c. r = Some (n, c) \<and> cur + 1 \<le> c \<and> (n, c) \<in> F \<and>
          in_hand a' (F - {(n, c)}) U n c \<and> frame a a')"
        using True \<open>list_pop cur a = (None, a)\<close> 1(2,3) by (intro 1(1)) auto
      then show ?thesis by auto
    next
      case (Cons n ns)
      let ?a = "a\<lparr>free_lists := (free_lists a)(list_idx cur := ns)\<rparr>"
      have r: "r = Some (n, cur)" "a' = ?a" using 1(4) True Cons by (simp_all add: pop_from.simps list_pop_def)
      have n: "(n, cur) \<in> F" using l(2) Cons by auto
      have "set ns = {m. (m, cur) \<in> F} - {n}" using l Cons by auto
      then have "lists_ok ?a (F - {(n, cur)})"
        using 1(2,3) l(1) Cons True by (intro lists_ok_remove [of a]) (simp_all add: arena_ok_def)
      moreover have "insert (n, cur) (F - {(n, cur)} \<union> U) = F \<union> U" using n by auto
      ultimately have "in_hand ?a (F - {(n, cur)}) U n cur"
        using 1(2) n unfolding in_hand_def arena_ok_def
        by (auto simp: insert_absorb hdrs_ok_def block_hdr_def block_ptr_def geometry_def intro: lonely_mono)
      then show ?thesis using r n by (auto simp: frame_def)
    qed
  qed
qed

lemma split_step:
  assumes h: "in_hand a F U n (Suc k)" and k: "PAL_ALLOC_MIN_ORDER \<le> k"
  defines "m \<equiv> n + 2 ^ k"
  shows "in_hand (set_order n k (list_push k m (set_hdr m k False a))) (insert (m, k) F) U n k"
proof -
  let ?T = "insert (n, Suc k) (F \<union> U)" and ?a = "set_order n k (list_push k m (set_hdr m k False a))"
  note t = in_hand_tiles [OF h] and b = in_hand_block [OF h]
  have m: "m \<in> span (n, Suc k)" "n \<in> span (n, Suc k)" "m \<noteq> n" by (auto simp: m_def)
  have off: "(m, j) \<notin> F \<union> U" "(n, j) \<notin> F \<union> U" for j using in_hand_apart [OF h] m by blast+
  have mM: "m < 2 ^ PAL_ALLOC_MAX_ORDER"
  proof -
    have "m < n + 2 ^ Suc k" by (simp add: m_def)
    moreover have "(2::nat) ^ max_order a \<le> 2 ^ PAL_ALLOC_MAX_ORDER"
      using h by (intro power_increasing) (simp_all add: in_hand_def arena_ok_def geometry_def)
    ultimately show ?thesis using b by linarith
  qed
  have "?T - {(n, Suc k)} \<union> {(n, k), (m, k)} = insert (n, k) (insert (m, k) F \<union> U)" using off by auto
  then have tiles: "tiles PAL_ALLOC_MIN_ORDER (max_order a) (insert (n, k) (insert (m, k) F \<union> U))"
    using tiles_split [OF t _ k] m_def by (metis insertI1)
  have hdr: "hdrs_ok ?a B u" if "hdrs_ok a B u" "B \<subseteq> F \<union> U" for B u
  proof -
    have "n' \<noteq> n \<and> n' \<noteq> m \<and> n' < 2 ^ PAL_ALLOC_MAX_ORDER" if "(n', k') \<in> B" for n' k'
      using in_hand_other(2) [OF h, of n' k'] off that \<open>B \<subseteq> F \<union> U\<close> by blast
    then have B: "\<And>n' k'. (n', k') \<in> B \<Longrightarrow> n' \<noteq> m \<and> n' < 2 ^ PAL_ALLOC_MAX_ORDER"
      "\<And>n' k'. (n', k') \<in> B \<Longrightarrow> n' \<noteq> n \<and> n' < 2 ^ PAL_ALLOC_MAX_ORDER" by blast+
    have "hdrs_ok (set_hdr m k False a) B u"
      by (rule hdrs_ok_other [OF that(1) B(1) mM]) (simp_all add: set_hdr_def)
    then have "hdrs_ok (list_push k m (set_hdr m k False a)) B u"
      using hdrs_ok_frame [of "list_push k m (set_hdr m k False a)" "set_hdr m k False a"] by (simp add: list_push_def)
    then show ?thesis by (rule hdrs_ok_other [OF _ B(2)]) (use b in \<open>simp_all add: set_order_def\<close>)
  qed
  have new: "block_hdr ?a m = \<lparr>magic = PAL_ALLOC_MAGIC, order = k, used = False\<rparr>"
    "block_hdr ?a n = \<lparr>magic = PAL_ALLOC_MAGIC, order = k, used = False\<rparr>"
    using h b mM m(3) block_ptr_inj [of m n a]
    by (auto simp: block_hdr_def block_ptr_def set_hdr_def set_order_def list_push_def in_hand_def)
  have "2 ^ Suc k dvd n" using b by simp
  then have "m XOR 2 ^ k = n" using buddy_upper(2) by (simp add: m_def)
  then have "lonely (max_order a) (insert (m, k) F)"
    using h off by (intro lonely_insert) (auto simp: in_hand_def arena_ok_def)
  moreover have "lists_ok ?a (insert (m, k) F)"
    using lists_ok_push [of "set_hdr m k False a" F m k] h b off k
    by (auto simp: in_hand_def arena_ok_def lists_ok_def set_order_def set_hdr_def list_push_def)
  moreover have "hdrs_ok ?a F False" "hdrs_ok ?a U True" using hdr h by (auto simp: in_hand_def arena_ok_def)
  moreover have "geometry ?a" "max_order ?a = max_order a"
    using h by (simp_all add: in_hand_def arena_ok_def geometry_def set_order_def set_hdr_def list_push_def)
  ultimately show ?thesis using h off new tiles m(3)
    by (auto simp: in_hand_def arena_ok_def hdrs_ok_def)
qed

lemma split_block_hand:
  assumes "in_hand a F U n (k + d)" "PAL_ALLOC_MIN_ORDER \<le> k"
  shows "\<exists>F'. in_hand (split_block n k d a) F' U n k \<and> frame a (split_block n k d a)"
  using assms
proof (induction d arbitrary: a F)
  case 0
  then show ?case by auto
next
  case (Suc d)
  let ?a = "set_order n (k + d) (list_push (k + d) (n + 2 ^ (k + d)) (set_hdr (n + 2 ^ (k + d)) (k + d) False a))"
  have "in_hand ?a (insert (n + 2 ^ (k + d), k + d) F) U n (k + d)" using Suc.prems by (intro split_step) simp_all
  then obtain F' where F': "in_hand (split_block n k d ?a) F' U n k" "frame ?a (split_block n k d ?a)"
    using Suc.IH Suc.prems(2) by blast
  have "frame a ?a" by (simp add: frame_def set_hdr_def set_order_def list_push_def)
  then have "frame a (split_block n k d ?a)" using F'(2) by (rule frame_trans)
  then show ?case using F'(1) by (auto simp: Let_def)
qed

text \<open>The block in hand becomes used, or free.\<close>

lemma hand_used:
  assumes h: "in_hand a F U n k"
  shows "arena_ok (set_hdr n k True a) (F \<union> insert (n, k) U) F (insert (n, k) U)"
proof -
  let ?a = "set_hdr n k True a"
  note b = in_hand_block [OF h]
  have hdr: "hdrs_ok ?a B u" if "hdrs_ok a B u" "B \<subseteq> F \<union> U" for B u
    unfolding set_hdr_def
  proof (rule hdrs_ok_set [OF that(1)])
    show "n' \<noteq> n \<and> n' < 2 ^ PAL_ALLOC_MAX_ORDER" if "(n', k') \<in> B" for n' k'
      using in_hand_other(2,3) [OF h] that \<open>B \<subseteq> F \<union> U\<close> by blast
  qed (use b in blast)
  have "hdrs_ok ?a F False" "hdrs_ok ?a U True" using hdr h by (simp_all add: in_hand_def arena_ok_def)
  moreover have "block_hdr ?a n = \<lparr>magic = PAL_ALLOC_MAGIC, order = k, used = True\<rparr>"
    by (simp add: block_hdr_def set_hdr_def block_ptr_def)
  moreover have "lists_ok ?a F" "geometry ?a" "max_order ?a = max_order a"
    using h by (simp_all add: in_hand_def arena_ok_def lists_ok_def geometry_def set_hdr_def)
  ultimately show ?thesis using h by (auto simp: in_hand_def arena_ok_def)
qed

lemma hand_free:
  assumes h: "in_hand a F U n k" and l: "(n XOR 2 ^ k, k) \<notin> F"
  shows "arena_ok (list_push k n a) (insert (n, k) F \<union> U) (insert (n, k) F) U"
proof -
  have "lists_ok (list_push k n a) (insert (n, k) F)"
    using h in_hand_block [OF h] by (intro lists_ok_push) (auto simp: in_hand_def arena_ok_def)
  moreover have "lonely (max_order a) (insert (n, k) F)"
    using h l by (intro lonely_insert) (simp_all add: in_hand_def arena_ok_def)
  ultimately show ?thesis using h
    by (auto simp: in_hand_def arena_ok_def hdrs_ok_def geometry_def block_hdr_def block_ptr_def list_push_def)
qed

text \<open>A used block is taken back in hand.\<close>

lemma hand_back:
  assumes a: "arena_ok a (F \<union> U) F U" and b: "(n, k) \<in> U"
  shows "in_hand (a\<lparr>hdr_mem := (hdr_mem a)(block_ptr a n := (block_hdr a n)\<lparr>used := False\<rparr>)\<rparr>) F (U - {(n, k)}) n k"
proof -
  let ?a = "a\<lparr>hdr_mem := (hdr_mem a)(block_ptr a n := (block_hdr a n)\<lparr>used := False\<rparr>)\<rparr>"
  have t: "tiles PAL_ALLOC_MIN_ORDER (max_order a) (F \<union> U)" using a by (simp add: arena_ok_def)
  have n: "n' \<noteq> n" if "(n', k') \<in> F \<union> U" "(n', k') \<noteq> (n, k)" for n' k'
    using tiles_same_start [OF t, of n k k'] that b by auto
  have hdr: "hdrs_ok ?a B u" if "hdrs_ok a B u" "B \<subseteq> F \<union> U - {(n, k)}" for B u
  proof (rule hdrs_ok_set [OF that(1)])
    show "n' \<noteq> n \<and> n' < 2 ^ PAL_ALLOC_MAX_ORDER" if "(n', k') \<in> B" for n' k'
      using n arena_block(5) [OF a] that \<open>B \<subseteq> F \<union> U - {(n, k)}\<close> by blast
  qed (use arena_block(5) [OF a] b in blast)
  have "(n, k) \<notin> F" using a b by (auto simp: arena_ok_def)
  moreover have "insert (n, k) (F \<union> (U - {(n, k)})) = F \<union> U" using b by auto
  moreover have "hdrs_ok ?a F False" "hdrs_ok ?a (U - {(n, k)}) True"
    using a b hdr [of F False] hdr [of "U - {(n, k)}" True] by (auto simp: arena_ok_def hdrs_ok_def)
  moreover have "block_hdr ?a n = \<lparr>magic = PAL_ALLOC_MAGIC, order = k, used = False\<rparr>"
    using a b by (auto simp: arena_ok_def hdrs_ok_def block_hdr_def block_ptr_def)
  ultimately show ?thesis using a by (auto simp: in_hand_def arena_ok_def geometry_def lists_ok_def)
qed

text \<open>The buddy of the block in hand is a free block of the same order, or its order is smaller, or it is used.\<close>

lemma hand_buddy:
  assumes h: "in_hand a F U n k" and k: "k < max_order a"
  obtains j where "(n XOR 2 ^ k, j) \<in> F \<union> U" "j \<le> k" "n XOR 2 ^ k < 2 ^ max_order a"
proof -
  obtain j where j: "(n XOR 2 ^ k, j) \<in> insert (n, k) (F \<union> U)" "j \<le> k"
    using tiles_buddy [OF in_hand_tiles [OF h] _ k] by blast
  then have f: "(n XOR 2 ^ k, j) \<in> F \<union> U" using xor_pow2_neq by blast
  then have "(n XOR 2 ^ k) + 2 ^ j \<le> 2 ^ max_order a" using arena_block(4) h unfolding in_hand_def by blast
  moreover have "0 < (2::nat) ^ j" by simp
  ultimately have "n XOR 2 ^ k < 2 ^ max_order a" by linarith
  then show ?thesis using that f j(2) by blast
qed

lemma merge_step:
  assumes h: "in_hand a F U n k" and k: "k < max_order a"
  defines "b \<equiv> n XOR 2 ^ k"
  assumes b: "(b, k) \<in> F"
  defines "a' \<equiv> a\<lparr>free_lists := (free_lists a)(list_idx k := remove1 b (free_lists a (list_idx k)))\<rparr>"
  shows "in_hand (a'\<lparr>hdr_mem := (hdr_mem a')(block_ptr a' (min n b) := (block_hdr a' (min n b))\<lparr>order := k + 1, used := False\<rparr>)\<rparr>)
    (F - {(b, k)}) U (min n b) (Suc k)" (is "in_hand ?a ?F U ?m (Suc k)")
proof -
  note hb = in_hand_block [OF h]
  obtain m where m: "2 ^ Suc k dvd m" "m = ?m" and nb: "n = m \<and> b = m + 2 ^ k \<or> n = m + 2 ^ k \<and> b = m"
    unfolding b_def using buddy_pair [of k n] hb by metis
  let ?T = "insert (n, k) (F \<union> U)"
  note t = in_hand_tiles [OF h]
  have U: "F \<inter> U = {}" using h by (simp add: in_hand_def arena_ok_def)
  have bT: "(b, k) \<in> ?T" using b by simp
  have off: "n' \<noteq> ?m" if "(n', k') \<in> ?F \<union> U" for n' k'
  proof -
    have "n' \<noteq> n" using in_hand_other(3) [OF h, of n' k'] that by blast
    moreover have "(n', k') \<noteq> (b, k)" using that b U by auto
    then have "n' \<noteq> b" using tiles_same_start [OF t, of b k k'] bT that by auto
    ultimately show ?thesis by (simp add: min_def)
  qed
  have "?T - {(m, k), (m + 2 ^ k, k)} \<union> {(m, Suc k)} = insert (?m, Suc k) (?F \<union> U)"
    using nb m(2) b h U by (auto simp: in_hand_def)
  moreover have "(m, k) \<in> ?T" "(m + 2 ^ k, k) \<in> ?T" using nb b by auto
  ultimately have tiles: "tiles PAL_ALLOC_MIN_ORDER (max_order a) (insert (?m, Suc k) (?F \<union> U))"
    using tiles_join [OF t _ _ m(1) k] by simp
  have mM: "?m < 2 ^ PAL_ALLOC_MAX_ORDER" using hb by linarith
  have hdr: "hdrs_ok ?a B u" if "hdrs_ok a B u" "B \<subseteq> ?F \<union> U" for B u
  proof (rule hdrs_ok_set)
    show "hdrs_ok a' B u" using that(1) by (simp add: a'_def hdrs_ok_def block_hdr_def block_ptr_def)
    show "n' \<noteq> ?m \<and> n' < 2 ^ PAL_ALLOC_MAX_ORDER" if "(n', k') \<in> B" for n' k'
      using off in_hand_other(2) [OF h] that \<open>B \<subseteq> ?F \<union> U\<close> by blast
  qed (rule mM)
  have "hdrs_ok ?a ?F False" "hdrs_ok ?a U True"
    using h hdr [of ?F False] hdr [of U True] by (auto simp: in_hand_def arena_ok_def hdrs_ok_def)
  moreover have "block_hdr a' ?m = \<lparr>magic = PAL_ALLOC_MAGIC, order = k, used = False\<rparr>"
    using h b by (auto simp: in_hand_def arena_ok_def hdrs_ok_def a'_def block_hdr_def block_ptr_def min_def)
  moreover have "lists_ok ?a ?F"
  proof (rule lists_ok_remove [of a F k])
    have "distinct (free_lists a (list_idx k))" "set (free_lists a (list_idx k)) = {m. (m, k) \<in> F}"
      using h hb by (simp_all add: in_hand_def arena_ok_def lists_ok_def)
    then show "distinct (remove1 b (free_lists a (list_idx k)))"
      "set (remove1 b (free_lists a (list_idx k))) = {m. (m, k) \<in> F} - {b}" by simp_all
  qed (use h hb in \<open>simp_all add: in_hand_def arena_ok_def a'_def\<close>)
  moreover have "lonely (max_order a) ?F" using h lonely_mono [of _ F ?F] by (simp add: in_hand_def arena_ok_def)
  moreover have "(?m, Suc k) \<notin> ?F \<union> U" using off by blast
  moreover have "geometry ?a" "max_order ?a = max_order a"
    using h by (simp_all add: in_hand_def arena_ok_def geometry_def a'_def)
  ultimately show ?thesis using tiles U by (auto simp: in_hand_def arena_ok_def block_hdr_def block_ptr_def)
qed

lemma merge_block_hand:
  assumes "in_hand a F U n k" "merge_block n k a = (n', k', a')"
  shows "\<exists>F'. in_hand a' F' U n' k' \<and> (n' XOR 2 ^ k', k') \<notin> F' \<and> frame a a'"
  using assms
proof (induction "max_order a - k" arbitrary: n k a F rule: less_induct)
  case less
  note hand = less.prems(1)
  note hb = in_hand_block [OF hand]
  let ?b = "n XOR 2 ^ k"
  show ?case
  proof (cases "k < max_order a")
    case False
    then have k: "k = max_order a" using hb by simp
    have "(?b, k) \<notin> F"
    proof
      assume "(?b, k) \<in> F"
      then have "?b + 2 ^ k \<le> 2 ^ max_order a" using arena_block(4) hand unfolding in_hand_def by blast
      then show False using k hb xor_pow2_neq [of n k] by simp
    qed
    then show ?thesis using less.prems k by (auto simp: merge_block.simps)
  next
    case True
    obtain j where j: "(?b, j) \<in> F \<union> U" "j \<le> k" "?b < 2 ^ max_order a" using hand_buddy [OF hand True] .
    have inv: "arena_ok a (insert (n, k) (F \<union> U)) F U" using hand by (simp add: in_hand_def)
    have u: "block_hdr a ?b = \<lparr>magic = PAL_ALLOC_MAGIC, order = j, used = (?b, j) \<in> U\<rparr>"
    proof (cases "(?b, j) \<in> U")
      case True
      then show ?thesis using inv by (auto simp: arena_ok_def hdrs_ok_def)
    next
      case False
      then show ?thesis using inv j(1) by (auto simp: arena_ok_def hdrs_ok_def)
    qed
    have fits: "\<not> arena a \<le> of_nat ?b" using arena_fits j(3) inv by (simp add: arena_ok_def)
    have same: "j' = j" if "(?b, j') \<in> F \<union> U" for j'
      using tiles_same_start [OF in_hand_tiles [OF hand]] that j(1) by blast
    show ?thesis
    proof (cases "(?b, k) \<in> F")
      case False
      then have "used (block_hdr a ?b) \<or> order (block_hdr a ?b) \<noteq> k" using u j(1) by auto
      then have "merge_block n k a = (n, k, a)" by (subst merge_block.simps) (auto simp: Let_def)
      then show ?thesis using less.prems False by auto
    next
      case bF: True
      let ?l = "a\<lparr>free_lists := (free_lists a)(list_idx k := remove1 ?b (free_lists a (list_idx k)))\<rparr>"
      let ?a' = "?l\<lparr>hdr_mem := (hdr_mem ?l)(block_ptr ?l (min n ?b) :=
        (block_hdr ?l (min n ?b))\<lparr>order := k + 1, used := False\<rparr>)\<rparr>"
      from bF have "j = k" "(?b, k) \<notin> U" using same inv by (auto simp: arena_ok_def)
      moreover have "list_remove k ?b a = (True, ?l)"
        using bF inv hb by (simp add: list_remove_def arena_ok_def lists_ok_def)
      moreover note merge_step [OF hand True bF]
      ultimately have "in_hand ?a' (F - {(?b, k)}) U (min n ?b) (Suc k)" "merge_block n k a = merge_block (min n ?b) (Suc k) ?a'"
        using True u fits by (simp_all add: merge_block.simps [of n k a] Let_def)
      moreover have "max_order ?a' - Suc k < max_order a - k" using True by simp
      moreover have "frame a ?a'" by (simp add: frame_def)
      ultimately obtain F' where "in_hand a' F' U n' k'" "(n' XOR 2 ^ k', k') \<notin> F'" "frame ?a' a'"
        using less.hyps [of ?a' "Suc k" "F - {(?b, k)}" "min n ?b"] less.prems(2) by auto
      then show ?thesis using frame_trans [OF \<open>frame a ?a'\<close>] by blast
    qed
  qed
qed

section \<open>Allocation and release\<close>

definition used_bytes :: "block set \<Rightarrow> nat" where
  "used_bytes U = (\<Sum>b \<in> U. 2 ^ snd b)"

definition pal_inv :: "pal_allocator \<Rightarrow> block set \<Rightarrow> bool" where
  "pal_inv a U \<longleftrightarrow> (\<exists>F. arena_ok a (F \<union> U) F U) \<and> bytes_in_use (counts a) = of_nat (used_bytes U)"

definition user_ptr :: "ptr \<Rightarrow> block \<Rightarrow> ptr" where
  "user_ptr b blk = b + of_nat (fst blk) + HDR_SIZE"

lemma pal_inv_finite: "pal_inv a U \<Longrightarrow> finite U"
  by (auto simp: pal_inv_def arena_ok_def dest: tiles_finite)

lemma pal_inv_block:
  assumes "pal_inv a U" "(n, k) \<in> U"
  shows "block_hdr a n = \<lparr>magic = PAL_ALLOC_MAGIC, order = k, used = True\<rparr>" "PAL_ALLOC_MIN_ORDER \<le> k"
    "k \<le> max_order a" "n + 2 ^ k \<le> 2 ^ max_order a" "n < 2 ^ PAL_ALLOC_MAX_ORDER"
proof -
  obtain F where F: "arena_ok a (F \<union> U) F U" using assms(1) by (auto simp: pal_inv_def)
  then show "block_hdr a n = \<lparr>magic = PAL_ALLOC_MAGIC, order = k, used = True\<rparr>"
    using assms(2) by (auto simp: arena_ok_def hdrs_ok_def)
  show "PAL_ALLOC_MIN_ORDER \<le> k" "k \<le> max_order a" "n + 2 ^ k \<le> 2 ^ max_order a" "n < 2 ^ PAL_ALLOC_MAX_ORDER"
    using arena_block [OF F, of n k] assms(2) by blast+
qed

lemma pal_inv_geometry: "pal_inv a U \<Longrightarrow> geometry a"
  by (auto simp: pal_inv_def arena_ok_def)

text \<open>Addresses in the arena do not wrap.\<close>

lemma unat_user_ptr:
  assumes "geometry a" "n + 2 ^ k \<le> 2 ^ max_order a" "PAL_ALLOC_MIN_ORDER \<le> k"
  shows "unat (user_ptr (base a) (n, k)) = unat (base a) + n + 16"
proof -
  have "(2::nat) ^ PAL_ALLOC_MIN_ORDER \<le> 2 ^ k" using assms(3) by (intro power_increasing) simp_all
  then have lt: "unat (base a) + n + 16 < 2 ^ 64" using assms(1,2) by (simp add: geometry_def)
  have "user_ptr (base a) (n, k) = of_nat (unat (base a) + n + 16)" by (simp add: user_ptr_def HDR_SIZE_def)
  then show ?thesis using lt by (simp add: unat_of_nat del: of_nat_add)
qed

lemma user_ptr_nonzero:
  "geometry a \<Longrightarrow> n + 2 ^ k \<le> 2 ^ max_order a \<Longrightarrow> PAL_ALLOC_MIN_ORDER \<le> k \<Longrightarrow> user_ptr (base a) (n, k) \<noteq> 0"
  using unat_user_ptr [of a n k] by (auto simp: unat_eq_0)

lemma alloc_locked_spec:
  assumes a: "arena_ok a (F \<union> U) F U" and r: "alloc_locked n a = (p, a')"
  shows "(p = 0 \<and> a' = a) \<or>
    (\<exists>m k F'. p = user_ptr (base a) (m, k) \<and> p \<noteq> 0 \<and> (m, k) \<notin> U \<and> arena_ok a' (F' \<union> insert (m, k) U) F' (insert (m, k) U) \<and>
      frame a a' \<and> unat ((if n = 0 then 1 else n) + HDR_SIZE) \<le> 2 ^ k)"
proof -
  define need where "need = (if n = 0 then 1 else n) + HDR_SIZE"
  define k where "k = max (ceil_log2_u64 need) PAL_ALLOC_MIN_ORDER"
  have eq: "alloc_locked n a =
    (if need > arena a \<or> k > max_order a then (0, a)
     else case pop_from k a of
            (None, a) \<Rightarrow> (0, a)
          | (Some (off, cur), a) \<Rightarrow> (block_ptr a off + HDR_SIZE, set_hdr off k True (split_block off k (cur - k) a)))"
    unfolding alloc_locked_def Let_def need_def [symmetric] k_def [symmetric] by simp
  show ?thesis
  proof (cases "need > arena a \<or> k > max_order a")
    case True
    then show ?thesis using r eq by simp
  next
    case False
    obtain q b where q: "pop_from k a = (q, b)" by fastforce
    have "PAL_ALLOC_MIN_ORDER \<le> k" by (simp add: k_def)
    then consider "q = None" "b = a" | m c where "q = Some (m, c)" "k \<le> c" "(m, c) \<in> F"
        "in_hand b (F - {(m, c)}) U m c" "frame a b"
      using pop_from_hand [OF a _ q] by blast
    then show ?thesis
    proof cases
      case 1
      then show ?thesis using r q False eq by simp
    next
      case 2
      then obtain F' where F': "in_hand (split_block m k (c - k) b) F' U m k" "frame b (split_block m k (c - k) b)"
        using split_block_hand [of b "F - {(m, c)}" U m k "c - k"] \<open>PAL_ALLOC_MIN_ORDER \<le> k\<close> by auto
      have p: "p = user_ptr (base a) (m, k)" "a' = set_hdr m k True (split_block m k (c - k) b)"
        using r q False 2 eq by (auto simp: user_ptr_def block_ptr_def frame_def)
      have "frame a a'" using 2(5) F'(2) frame_trans op_frames(1) p(2) by blast
      moreover have "(2::nat) ^ ceil_log2_u64 need \<le> 2 ^ k" by (intro power_increasing) (simp_all add: k_def)
      then have "unat need \<le> 2 ^ k" using ceil_log2_bound [of need] by linarith
      moreover have "p \<noteq> 0"
        using in_hand_block [OF F'(1)] 2(5) F'(2) a p(1) user_ptr_nonzero [of a m k]
        by (simp add: frame_def arena_ok_def)
      moreover have "(m, k) \<notin> U" using F'(1) by (simp add: in_hand_def)
      moreover have "arena_ok a' (F' \<union> insert (m, k) U) F' (insert (m, k) U)" using hand_used [OF F'(1)] p(2) by simp
      ultimately show ?thesis using p(1) unfolding need_def by blast
    qed
  qed
qed

lemma used_bytes_insert: "finite U \<Longrightarrow> (m, k) \<notin> U \<Longrightarrow> used_bytes (insert (m, k) U) = 2 ^ k + used_bytes U"
  by (simp add: used_bytes_def)

lemma used_bytes_remove: "finite U \<Longrightarrow> (m, k) \<in> U \<Longrightarrow> used_bytes U = 2 ^ k + used_bytes (U - {(m, k)})"
  by (simp add: used_bytes_def sum.remove)

lemma malloc_spec:
  assumes inv: "pal_inv a U" and r: "pal_allocator_malloc n a = (p, a')"
  shows "base a' = base a \<and> max_order a' = max_order a \<and>
    (p = 0 \<and> pal_inv a' U \<or>
     (\<exists>m k. p = user_ptr (base a) (m, k) \<and> p \<noteq> 0 \<and> (m, k) \<notin> U \<and> pal_inv a' (insert (m, k) U) \<and>
       unat ((if n = 0 then 1 else n) + HDR_SIZE) \<le> 2 ^ k))"
proof -
  obtain F where F: "arena_ok a (F \<union> U) F U" using inv by (auto simp: pal_inv_def)
  obtain q b where q: "alloc_locked n a = (q, b)" by fastforce
  have i: "initialized a" using pal_inv_geometry [OF inv] by (simp add: geometry_def)
  from alloc_locked_spec [OF F q] consider "q = 0" "b = a" | m k F' where "q = user_ptr (base a) (m, k)" "q \<noteq> 0"
      "(m, k) \<notin> U" "arena_ok b (F' \<union> insert (m, k) U) F' (insert (m, k) U)" "frame a b"
      "unat ((if n = 0 then 1 else n) + HDR_SIZE) \<le> 2 ^ k" by blast
  then show ?thesis
  proof cases
    case 1
    let ?c = "a\<lparr>counts := (counts a)\<lparr>failures := failures (counts a) + 1\<rparr>\<rparr>"
    have "(p, a') = (0, ?c)" using r q i 1 by (simp add: pal_allocator_malloc_def)
    moreover have "arena_ok ?c (F \<union> U) F U" using arena_ok_cong [of ?c a] F by simp
    ultimately show ?thesis using inv by (auto simp: pal_inv_def)
  next
    case 2
    have "hdr_mem b (q - HDR_SIZE) = \<lparr>magic = PAL_ALLOC_MAGIC, order = k, used = True\<rparr>"
      using 2(1,4,5) by (simp add: arena_ok_def block_hdr_def block_ptr_def user_ptr_def frame_def)
    then have o: "order (hdr_mem b (q - HDR_SIZE)) = k" by simp
    let ?c = "b\<lparr>counts := count_alloc (push_bit k 1) (counts b)\<rparr>"
    have pa: "p = q" "a' = ?c" using r q i 2(2) o by (simp_all add: pal_allocator_malloc_def)
    have "arena_ok ?c (F' \<union> insert (m, k) U) F' (insert (m, k) U)" using arena_ok_cong [of ?c b] 2(4) by simp
    moreover have "bytes_in_use (counts ?c) = of_nat (used_bytes (insert (m, k) U))"
      using inv 2(3,5) pal_inv_finite [OF inv]
      by (simp add: count_alloc_def Let_def pal_inv_def used_bytes_insert frame_def push_bit_eq_mult algebra_simps)
    ultimately have "pal_inv a' (insert (m, k) U)" using pa by (auto simp: pal_inv_def)
    moreover have "base a' = base a" "max_order a' = max_order a" using pa 2(5) by (simp_all add: frame_def)
    ultimately show ?thesis using pa(1) 2(1-3,6) by blast
  qed
qed

lemma free_spec:
  assumes inv: "pal_inv a U" and b: "(m, k) \<in> U"
  defines "a' \<equiv> pal_allocator_free (user_ptr (base a) (m, k)) a"
  shows "pal_inv a' (U - {(m, k)}) \<and> base a' = base a \<and> max_order a' = max_order a"
proof -
  obtain F where F: "arena_ok a (F \<union> U) F U" using inv by (auto simp: pal_inv_def)
  note g = pal_inv_geometry [OF inv] and blk = pal_inv_block [OF inv b]
  have p0: "user_ptr (base a) (m, k) \<noteq> 0" using user_ptr_nonzero [OF g blk(4,2)] .
  have h: "user_ptr (base a) (m, k) - HDR_SIZE = block_ptr a m" by (simp add: user_ptr_def block_ptr_def)
  have "valid_hdr a (block_ptr a m)" using blk(1) by (simp add: valid_hdr_def block_hdr_def)
  then have fh: "find_hdr a (user_ptr (base a) (m, k)) = Some (block_ptr a m)" by (simp add: find_hdr_def h)
  let ?c = "a\<lparr>counts := count_free (push_bit k 1) (counts a)\<rparr>"
  let ?h = "?c\<lparr>hdr_mem := (hdr_mem ?c)(block_ptr ?c m := (block_hdr ?c m)\<lparr>used := False\<rparr>)\<rparr>"
  have "arena_ok ?c (F \<union> U) F U" using arena_ok_cong [of ?c a] F by simp
  then have hand: "in_hand ?h F (U - {(m, k)}) m k" using hand_back b by blast
  obtain n' k' c where mb: "merge_block m k ?h = (n', k', c)" by (metis prod_cases3)
  obtain F' where F': "in_hand c F' (U - {(m, k)}) n' k'" "(n' XOR 2 ^ k', k') \<notin> F'" "frame ?h c"
    using merge_block_hand [OF hand mb] by blast
  have "unat (block_ptr a m - base a) = m" using blk(5) by (simp add: block_ptr_def unat_of_nat)
  then have a': "a' = list_push k' n' c"
    using p0 fh blk g mb
    by (simp add: a'_def pal_allocator_free_def free_locked_def geometry_def Let_def block_hdr_def block_ptr_def)
  have "frame ?h a'" using F'(3) a' frame_trans op_frames(3) by blast
  moreover have "bytes_in_use (counts ?h) = of_nat (used_bytes (U - {(m, k)}))"
    using inv used_bytes_remove [OF pal_inv_finite [OF inv] b]
    by (simp add: pal_inv_def count_free_def push_bit_eq_mult)
  moreover have "\<exists>F. arena_ok a' (F \<union> (U - {(m, k)})) F (U - {(m, k)})" using hand_free [OF F'(1,2)] a' by blast
  ultimately show ?thesis by (simp add: pal_inv_def frame_def)
qed

lemma init_spec:
  assumes r: "pal_allocator_init buf n a0 = (0, a)" and w: "unat buf + unat n \<le> 2 ^ 64"
  shows "pal_inv a {} \<and> unat buf \<le> unat (base a) \<and> unat (base a) + 2 ^ max_order a \<le> unat buf + unat n"
proof -
  define al where "al = (buf + 15) AND NOT 15"
  define k where "k = min (floor_log2_u64 (n - (al - buf))) PAL_ALLOC_MAX_ORDER"
  have r': "buf \<noteq> 0" "al - buf < n" "PAL_ALLOC_MIN_ORDER \<le> k"
    and a: "a = (list_push k 0 (set_hdr 0 k False ((pal_allocator_reset_stats
        (a0\<lparr>base := al, arena := push_bit k 1, max_order := k, free_lists := (\<lambda>_. [])\<rparr>))
        \<lparr>data := prefault_pages al (push_bit k 1) (data a0)\<rparr>)))\<lparr>initialized := True\<rparr>"
    using r unfolding pal_allocator_init_def Let_def al_def [symmetric] k_def [symmetric]
    by (auto simp: pal_allocator_reset_stats_def split: if_splits)
  have lt: "unat (al - buf) < unat n" using r'(2) by (simp add: word_less_nat_alt)
  have "unat (buf + (al - buf)) = (unat buf + unat (al - buf)) mod 2 ^ 64"
    using unat_word_ariths(1) [of buf "al - buf"] by simp
  then have al: "unat al = unat buf + unat (al - buf)" using lt w by simp
  then have al0: "al \<noteq> 0" using r'(1) by (auto simp: unat_eq_0)
  have al15: "al AND 15 = 0" by (simp add: al_def and.assoc)
  have d: "unat (n - (al - buf)) = unat n - unat (al - buf)" using r'(2) by (intro unat_sub) simp
  then have "n - (al - buf) \<noteq> 0" using lt by (metis unat_eq_0 diff_is_0_eq not_less)
  then have "2 ^ floor_log2_u64 (n - (al - buf)) \<le> unat n - unat (al - buf)" using floor_log2_bounds d by metis
  moreover have "(2::nat) ^ k \<le> 2 ^ floor_log2_u64 (n - (al - buf))" by (intro power_increasing) (simp_all add: k_def)
  ultimately have sz: "unat al + 2 ^ k \<le> unat buf + unat n" using al lt by linarith
  have "arena_ok a {(0, k)} {(0, k)} {}"
    using r'(3) al0 al15 sz w tiles_one [of PAL_ALLOC_MIN_ORDER k]
    by (auto simp: a arena_ok_def geometry_def hdrs_ok_def lists_ok_def lonely_def list_push_def set_hdr_def block_hdr_def
      block_ptr_def pal_allocator_reset_stats_def push_bit_eq_mult list_idx_def k_def xor_pow2_neq)
  then show ?thesis
    using sz al by (auto simp: pal_inv_def used_bytes_def a list_push_def set_hdr_def pal_allocator_reset_stats_def
      no_counts_def intro!: exI [of _ "{(0, k)}"])
qed

section \<open>Clients\<close>

text \<open>
  A client is a sequence of requests; it keeps the list of what it holds and releases
  only from that list.  The contract says what it may rely on: each request gives a new
  block, and the rooms of the blocks are disjoint.
\<close>

datatype client_op = Alloc "64 word" | Release nat

definition region :: "ptr \<times> 64 word \<Rightarrow> nat set" where
  "region x = {unat (fst x) ..< unat (fst x) + unat (snd x)}"

definition fits :: "client_op \<Rightarrow> bool" where
  "fits c \<longleftrightarrow> (case c of Alloc n \<Rightarrow> unat n + 16 < 2 ^ 64 | Release i \<Rightarrow> True)"

fun client ::
  "(64 word \<Rightarrow> 's \<Rightarrow> ptr \<times> 's) \<Rightarrow> (ptr \<Rightarrow> 's \<Rightarrow> 's) \<Rightarrow> client_op list \<Rightarrow>
    's \<times> (ptr \<times> 64 word) list \<Rightarrow> 's \<times> (ptr \<times> 64 word) list" where
  "client malloc free [] x = x"
| "client malloc free (Alloc n # ops) (s, live) =
    (case malloc n s of (p, s') \<Rightarrow> client malloc free ops (s', if p = 0 then live else (p, n) # live))"
| "client malloc free (Release i # ops) (s, live) =
    (if i < length live
     then client malloc free ops (free (fst (live ! i)) s, take i live @ drop (Suc i) live)
     else client malloc free ops (s, live))"

locale block_store =
  fixes ok :: "'s \<Rightarrow> 'b set \<Rightarrow> bool" and addr :: "'s \<Rightarrow> 'b \<Rightarrow> ptr" and room :: "'s \<Rightarrow> 'b \<Rightarrow> nat set"
    and area :: "'s \<Rightarrow> nat set" and malloc :: "64 word \<Rightarrow> 's \<Rightarrow> ptr \<times> 's" and free :: "ptr \<Rightarrow> 's \<Rightarrow> 's"
  assumes malloc_law: "ok s U \<Longrightarrow> malloc n s = (p, s') \<Longrightarrow> unat n + 16 < 2 ^ 64 \<Longrightarrow>
      addr s' = addr s \<and> room s' = room s \<and> area s' = area s \<and>
      (p = 0 \<and> ok s' U \<or> (\<exists>b. b \<notin> U \<and> p \<noteq> 0 \<and> p = addr s b \<and> ok s' (insert b U) \<and> region (p, n) \<subseteq> room s b))"
    and free_law: "ok s U \<Longrightarrow> b \<in> U \<Longrightarrow> ok (free (addr s b) s) (U - {b}) \<and>
      addr (free (addr s b) s) = addr s \<and> room (free (addr s b) s) = room s \<and> area (free (addr s b) s) = area s"
    and room_law: "ok s U \<Longrightarrow> b \<in> U \<Longrightarrow> c \<in> U \<Longrightarrow> b \<noteq> c \<Longrightarrow> room s b \<inter> room s c = {}"
    and area_law: "ok s U \<Longrightarrow> b \<in> U \<Longrightarrow> room s b \<subseteq> area s"
begin

definition holds_blocks :: "'s \<Rightarrow> (ptr \<times> 64 word) list \<Rightarrow> 'b list \<Rightarrow> bool" where
  "holds_blocks s live bs \<longleftrightarrow> ok s (set bs) \<and> distinct bs \<and>
    list_all2 (\<lambda>x b. fst x = addr s b \<and> region x \<subseteq> room s b) live bs"

lemma holds_release:
  assumes "holds_blocks s live bs" "i < length live"
  shows "holds_blocks (free (fst (live ! i)) s) (take i live @ drop (Suc i) live) (take i bs @ drop (Suc i) bs)"
proof -
  have l: "list_all2 (\<lambda>x b. fst x = addr s b \<and> region x \<subseteq> room s b) live bs"
    and ok: "ok s (set bs)" and d: "distinct bs"
    using assms(1) by (simp_all add: holds_blocks_def)
  have len: "length bs = length live" using list_all2_lengthD [OF l] by simp
  have i: "fst (live ! i) = addr s (bs ! i)" "bs ! i \<in> set bs" using l assms(2) len by (auto simp: list_all2_conv_all_nth)
  have bs: "bs = take i bs @ bs ! i # drop (Suc i) bs" using assms(2) len by (simp add: id_take_nth_drop)
  have "distinct (take i bs @ bs ! i # drop (Suc i) bs)" "set bs = set (take i bs @ bs ! i # drop (Suc i) bs)"
    using d bs by metis+
  then have "set bs - {bs ! i} = set (take i bs @ drop (Suc i) bs)" "distinct (take i bs @ drop (Suc i) bs)" by auto
  moreover have "list_all2 (\<lambda>x b. fst x = addr s b \<and> region x \<subseteq> room s b)
      (take i live @ drop (Suc i) live) (take i bs @ drop (Suc i) bs)"
    using l by (intro list_all2_appendI) auto
  ultimately show ?thesis using free_law [OF ok i(2)] i(1) by (simp add: holds_blocks_def)
qed

lemma client_holds:
  assumes "client malloc free ops (s, live) = (s', live')" "holds_blocks s live bs" "list_all fits ops"
  shows "\<exists>bs'. holds_blocks s' live' bs' \<and> area s' = area s"
  using assms
proof (induction ops arbitrary: s live bs)
  case (Cons c ops)
  show ?case
  proof (cases c)
    case (Alloc n)
    obtain p t where m: "malloc n s = (p, t)" by fastforce
    have ok: "ok s (set bs)" and f: "unat n + 16 < 2 ^ 64" using Cons.prems(2,3) Alloc by (auto simp: holds_blocks_def fits_def)
    note law = malloc_law [OF ok m f]
    have "\<exists>bs'. holds_blocks t (if p = 0 then live else (p, n) # live) bs'"
    proof (cases "p = 0")
      case True
      then have "holds_blocks t live bs" using law Cons.prems(2) by (auto simp: holds_blocks_def)
      then show ?thesis using True by auto
    next
      case False
      then obtain b where "b \<notin> set bs" "p = addr s b" "ok t (insert b (set bs))" "region (p, n) \<subseteq> room s b"
        using law by blast
      then have "holds_blocks t ((p, n) # live) (b # bs)" using law Cons.prems(2) by (simp add: holds_blocks_def)
      then show ?thesis using False by auto
    qed
    then obtain bs' where "holds_blocks t (if p = 0 then live else (p, n) # live) bs'" by blast
    then show ?thesis using Cons.IH [of t "if p = 0 then live else (p, n) # live" bs'] Cons.prems Alloc m law by auto
  next
    case (Release i)
    show ?thesis
    proof (cases "i < length live")
      case True
      have "fst (live ! i) = addr s (bs ! i)" "bs ! i \<in> set bs" "ok s (set bs)"
        using Cons.prems(2) True by (auto simp: holds_blocks_def list_all2_conv_all_nth)
      then have "area (free (fst (live ! i)) s) = area s" using free_law by simp
      then show ?thesis using Cons.IH [OF _ holds_release [OF Cons.prems(2) True]] Cons.prems(1,3) Release True by simp
    qed (use Cons Release in auto)
  qed
qed auto

lemma held_inside:
  assumes "holds_blocks s live bs" "i < length live"
  shows "region (live ! i) \<subseteq> area s"
proof -
  have "region (live ! i) \<subseteq> room s (bs ! i)" "bs ! i \<in> set bs" "ok s (set bs)"
    using assms by (auto simp: holds_blocks_def list_all2_conv_all_nth)
  then show ?thesis using area_law by blast
qed

lemma held_disjoint:
  assumes "holds_blocks s live bs" "i < j" "j < length live"
  shows "region (live ! i) \<inter> region (live ! j) = {}"
proof -
  have l: "length bs = length live" "region (live ! i) \<subseteq> room s (bs ! i)" "region (live ! j) \<subseteq> room s (bs ! j)"
    using assms by (auto simp: holds_blocks_def list_all2_conv_all_nth)
  then have "bs ! i \<noteq> bs ! j" "bs ! i \<in> set bs" "bs ! j \<in> set bs"
    using assms by (auto simp: holds_blocks_def nth_eq_iff_index_eq)
  then show ?thesis using room_law assms(1) l(2,3) by (fastforce simp: holds_blocks_def)
qed

end

text \<open>The payload of a block.\<close>

definition room :: "ptr \<Rightarrow> block \<Rightarrow> nat set" where
  "room b blk = {unat b + fst blk + 16 ..< unat b + fst blk + 2 ^ snd blk}"

lemma malloc_room:
  assumes inv: "pal_inv a' (insert (m, k) U)" and need: "unat ((if n = 0 then 1 else n) + HDR_SIZE) \<le> 2 ^ k"
    and n: "unat n + 16 < 2 ^ 64"
  shows "region (user_ptr (base a') (m, k), n) \<subseteq> room (base a') (m, k)"
proof -
  have blk: "m + 2 ^ k \<le> 2 ^ max_order a'" "PAL_ALLOC_MIN_ORDER \<le> k" using pal_inv_block [OF inv, of m k] by simp_all
  have p: "unat (user_ptr (base a') (m, k)) = unat (base a') + m + 16"
    using unat_user_ptr [OF pal_inv_geometry [OF inv] blk] .
  have "unat n + 16 \<le> 2 ^ k" if "n \<noteq> 0"
  proof -
    have "unat (n + HDR_SIZE) = unat n + 16" using n by (simp add: HDR_SIZE_def unat_word_ariths)
    then show ?thesis using need that by simp
  qed
  then show ?thesis by (cases "n = 0") (auto simp: region_def room_def p)
qed

definition arena_area :: "pal_allocator \<Rightarrow> nat set" where
  "arena_area a = {unat (base a) ..< unat (base a) + 2 ^ max_order a}"

interpretation PAL: block_store pal_inv "\<lambda>a. user_ptr (base a)" "\<lambda>a. room (base a)" arena_area
  pal_allocator_malloc pal_allocator_free
proof (unfold_locales, goal_cases)
  case (1 a U n p a')
  note m = malloc_spec [OF 1(1,2)]
  then show ?case using malloc_room [OF _ _ 1(3), of a'] by (fastforce simp: arena_area_def)
next
  case (2 a U b)
  then show ?case using free_spec [of a U "fst b" "snd b"] by (simp add: arena_area_def)
next
  case (3 a U b c)
  obtain F where "tiles PAL_ALLOC_MIN_ORDER (max_order a) (F \<union> U)" using 3(1) by (auto simp: pal_inv_def arena_ok_def)
  then have "span b \<inter> span c = {}" using 3(2-4) unfolding tiles_def by blast
  moreover have "x - unat (base a) \<in> span d" if "x \<in> room (base a) d" for x d
    using that by (auto simp: room_def span_def)
  ultimately show ?case by blast
next
  case (4 a U b)
  then show ?case using pal_inv_block(4) [of a U "fst b" "snd b"] by (auto simp: room_def arena_area_def)
qed

text \<open>When nothing is used, the arena is one block.\<close>

lemma all_free_single:
  assumes "pal_inv a {}"
  shows "free_lists a (list_idx (max_order a)) = [0]" "bytes_in_use (counts a) = 0"
    "PAL_ALLOC_MIN_ORDER \<le> k \<Longrightarrow> k < max_order a \<Longrightarrow> free_lists a (list_idx k) = []"
proof -
  obtain F where F: "arena_ok a (F \<union> {}) F {}" using assms by (auto simp: pal_inv_def)
  then have f: "F = {(0, max_order a)}" using lonely_single [of PAL_ALLOC_MIN_ORDER "max_order a" F]
    by (simp add: arena_ok_def)
  have l: "PAL_ALLOC_MIN_ORDER \<le> k \<and> k \<le> max_order a \<longrightarrow> distinct (free_lists a (list_idx k)) \<and>
      set (free_lists a (list_idx k)) = {n. (n, k) \<in> F}" for k using F by (simp add: arena_ok_def lists_ok_def)
  have "PAL_ALLOC_MIN_ORDER \<le> max_order a" using F by (simp add: arena_ok_def geometry_def)
  then have "distinct (free_lists a (list_idx (max_order a)))" "set (free_lists a (list_idx (max_order a))) = {0}"
    using l [of "max_order a"] by (simp_all add: f)
  then show "free_lists a (list_idx (max_order a)) = [0]" by (metis distinct_card list.size remove1.simps card_1_singleton_iff length_Suc_conv length_0_conv One_nat_def list.set_intros(1) singletonD)
  show "bytes_in_use (counts a) = 0" using assms by (simp add: pal_inv_def used_bytes_def)
  show "PAL_ALLOC_MIN_ORDER \<le> k \<Longrightarrow> k < max_order a \<Longrightarrow> free_lists a (list_idx k) = []" using l [of k] by (simp add: f)
qed

section \<open>Boundary requests\<close>

lemma floor_log2_unique: "2 ^ f \<le> unat v \<Longrightarrow> unat v < 2 ^ Suc f \<Longrightarrow> floor_log2_u64 v = f"
proof -
  assume f: "2 ^ f \<le> unat v" "unat v < 2 ^ Suc f"
  then have "v \<noteq> 0" by (auto simp: unat_eq_0)
  then have g: "2 ^ floor_log2_u64 v \<le> unat v" "unat v < 2 ^ Suc (floor_log2_u64 v)" using floor_log2_bounds by blast+
  have "(2::nat) ^ floor_log2_u64 v < 2 ^ Suc f" using f g by linarith
  then have "floor_log2_u64 v < Suc f" by (rule power_less_imp_less_exp [rotated]) simp
  moreover have "(2::nat) ^ f < 2 ^ Suc (floor_log2_u64 v)" using f g by linarith
  then have "f < Suc (floor_log2_u64 v)" by (rule power_less_imp_less_exp [rotated]) simp
  ultimately show ?thesis by simp
qed

lemma ceil_log2_small: "unat v \<le> 32 \<Longrightarrow> ceil_log2_u64 v \<le> PAL_ALLOC_MIN_ORDER"
proof (cases "v \<le> 1")
  case False
  assume v: "unat v \<le> 32"
  have "v \<noteq> 0" "v \<noteq> 1" using False by auto
  then have "v - 1 \<noteq> 0" "unat (v - 1) = unat v - 1" "0 < unat v" by (simp_all add: unat_eq_0 unat_minus_one unat_gt_0)
  then have "2 ^ floor_log2_u64 (v - 1) \<le> unat v - 1" using floor_log2_bounds by metis
  then have "(2::nat) ^ floor_log2_u64 (v - 1) < 2 ^ 5" using v \<open>0 < unat v\<close> by simp
  then have "floor_log2_u64 (v - 1) < 5" by (rule power_less_imp_less_exp [rotated]) simp
  then show ?thesis using False by (simp add: ceil_log2_u64_def)
qed (simp add: ceil_log2_u64_def)

text \<open>All requests whose size with the header is at most 32, modulo the word size, are the same.\<close>

lemma alloc_small:
  assumes "unat ((if n = 0 then 1 else n) + HDR_SIZE) \<le> 32" "32 \<le> arena a"
  shows "alloc_locked n a = (if PAL_ALLOC_MIN_ORDER > max_order a then (0, a)
     else case pop_from PAL_ALLOC_MIN_ORDER a of
            (None, a) \<Rightarrow> (0, a)
          | (Some (off, cur), a) \<Rightarrow> (block_ptr a off + HDR_SIZE,
              set_hdr off PAL_ALLOC_MIN_ORDER True (split_block off PAL_ALLOC_MIN_ORDER (cur - PAL_ALLOC_MIN_ORDER) a)))"
proof -
  define need where "need = (if n = 0 then 1 else n) + HDR_SIZE"
  have "unat need \<le> 32" using assms(1) by (simp add: need_def)
  then have k: "max (ceil_log2_u64 need) PAL_ALLOC_MIN_ORDER = PAL_ALLOC_MIN_ORDER"
    using ceil_log2_small by (simp add: max_def)
  have "unat need \<le> unat (arena a)" using \<open>unat need \<le> 32\<close> assms(2) by (simp add: word_le_nat_alt)
  then have "\<not> need > arena a" by (simp add: word_less_nat_alt)
  then show ?thesis unfolding alloc_locked_def Let_def need_def [symmetric] k by simp
qed

lemma default_init:
  assumes "buf \<noteq> 0" "buf AND 15 = 0"
  shows "\<exists>a. pal_allocator_init buf PAL_ALLOC_DEFAULT_SIZE a0 = (0, a) \<and> initialized a \<and> max_order a = 23 \<and>
    arena a = 8388608 \<and> base a = buf \<and> free_lists a = (\<lambda>_. [])(18 := [0])"
proof -
  have "buf + 15 = buf OR 15" using word_plus_and_or [of buf 15] assms(2) by simp
  then have "(buf + 15) AND NOT 15 = buf AND NOT 15" by (simp add: bit.conj_disj_distrib2)
  also have "\<dots> = (buf AND 15) OR (buf AND NOT 15)" using assms(2) by simp
  also have "\<dots> = buf AND (15 OR NOT 15)" by (simp only: bit.conj_disj_distrib)
  finally have al: "(buf + 15) AND NOT 15 = buf" by simp
  have "floor_log2_u64 8388608 = 23" by (rule floor_log2_unique) simp_all
  then show ?thesis using assms(1) unfolding pal_allocator_init_def Let_def al
    by (simp add: PAL_ALLOC_DEFAULT_SIZE_def pal_allocator_reset_stats_def list_push_def
      set_hdr_def list_idx_def push_bit_eq_mult)
qed

text \<open>A copy buffer of 4 MiB takes the whole default arena.\<close>

lemma ceil_copy_buffer: "ceil_log2_u64 4194320 = 23"
proof -
  have "floor_log2_u64 4194319 = 22" by (rule floor_log2_unique) simp_all
  moreover have "\<not> (4194320::64 word) \<le> 1" by (simp add: word_le_nat_alt)
  ultimately show ?thesis by (simp add: ceil_log2_u64_def)
qed

lemma first_copy_buffer:
  assumes "\<not> initialized a0" "buf \<noteq> 0" "buf AND 4095 = 0" "unat buf + 8388608 \<le> 2 ^ 64"
  shows "\<exists>a. pal_malloc buf 4194304 a0 = (buf + HDR_SIZE, a) \<and> initialized a \<and> max_order a = 23 \<and>
    arena a = 8388608 \<and> free_lists a = (\<lambda>_. [])"
proof -
  have "buf AND 15 = buf AND (4095 AND 15)" by simp
  also have "\<dots> = (buf AND 4095) AND 15" by (simp only: and.assoc)
  finally have "buf AND 15 = 0" using assms(3) by simp
  then obtain a where a: "pal_allocator_init buf PAL_ALLOC_DEFAULT_SIZE a0 = (0, a)" "initialized a" "max_order a = 23"
      "arena a = 8388608" "base a = buf" "free_lists a = (\<lambda>_. [])(18 := [0])"
    using default_init [OF assms(2)] by blast
  have "unat (buf + HDR_SIZE) = unat buf + 16" using assms(4) by (simp add: HDR_SIZE_def unat_word_ariths)
  then have nz: "buf + HDR_SIZE \<noteq> 0" by (metis add_is_0 unat_0 zero_neq_numeral)
  have "alloc_locked 4194304 a = (buf + HDR_SIZE, set_hdr 0 23 True (a\<lparr>free_lists := (\<lambda>_. [])\<rparr>))"
    using a ceil_copy_buffer by (simp add: alloc_locked_def HDR_SIZE_def Let_def pop_from.simps [of 23] list_pop_def list_idx_def
      block_ptr_def fun_upd_idem)
  then show ?thesis
    using assms(1) a nz
    by (auto simp: pal_malloc_def with_default_def pal_alloc_init_default_def pal_allocator_malloc_def set_hdr_def)
qed

section \<open>Properties\<close>

text \<open>
  C11: a client of the allocator never gets overlapping memory, as long as it requests no
  size that overflows when the 16 bytes of the header are added (\<open>fits\<close>: the size is below
  \<open>2 ^ 64 - 16\<close>; larger requests wrap and are served with too small a block, see below).  Whatever
  else it requests and releases, in whatever order, the regions it holds lie in the buffer the
  allocator was given and are pairwise disjoint.
\<close>

theorem alloc_client_safe:
  assumes "pal_allocator_init buf len a0 = (0, a)" "unat buf + unat len \<le> 2 ^ 64"
    and "list_all fits ops" "client pal_allocator_malloc pal_allocator_free ops (a, []) = (a', live)"
  shows "(\<forall>i < length live. region (live ! i) \<subseteq> {unat buf ..< unat buf + unat len}) \<and>
    (\<forall>i j. i < j \<and> j < length live \<longrightarrow> region (live ! i) \<inter> region (live ! j) = {})"
proof -
  note init = init_spec [OF assms(1,2)]
  have "PAL.holds_blocks a [] []" using init by (simp add: PAL.holds_blocks_def)
  from PAL.client_holds [OF assms(4) this assms(3)] obtain bs where
    bs: "PAL.holds_blocks a' live bs" "arena_area a' = arena_area a" by blast
  moreover have "arena_area a \<subseteq> {unat buf ..< unat buf + unat len}" using init by (auto simp: arena_area_def)
  ultimately have "region (live ! i) \<subseteq> {unat buf ..< unat buf + unat len}" if "i < length live" for i
    using PAL.held_inside [OF bs(1) that] by blast
  then show ?thesis using PAL.held_disjoint [OF bs(1)] by blast
qed

text \<open>
  C32: nothing is lost to fragmentation.  When the client has released everything, the arena is
  one free block again, all other lists are empty and the count of bytes in use is zero.
\<close>

theorem alloc_all_freed:
  assumes "pal_allocator_init buf len a0 = (0, a)" "unat buf + unat len \<le> 2 ^ 64"
    and "list_all fits ops" "client pal_allocator_malloc pal_allocator_free ops (a, []) = (a', [])"
  shows "free_lists a' (list_idx (max_order a')) = [0] \<and> bytes_in_use (counts a') = 0 \<and>
    (\<forall>k. PAL_ALLOC_MIN_ORDER \<le> k \<and> k < max_order a' \<longrightarrow> free_lists a' (list_idx k) = [])"
proof -
  have "PAL.holds_blocks a [] []" using init_spec [OF assms(1,2)] by (simp add: PAL.holds_blocks_def)
  from PAL.client_holds [OF assms(4) this assms(3)] have "pal_inv a' {}" by (auto simp: PAL.holds_blocks_def)
  then show ?thesis using all_free_single by blast
qed

text \<open>
  C38: the size computation wraps.  A request within 16 bytes of the largest value of \<open>size_t\<close>
  is served like a request for one byte, with a block of 32 bytes.
\<close>

theorem malloc_size_wraps:
  assumes "2 ^ 64 - 16 \<le> unat n" "32 \<le> arena a"
  shows "pal_allocator_malloc n a = pal_allocator_malloc 1 a"
proof -
  have n: "n \<noteq> 0" using assms(1) by (auto simp: unat_eq_0)
  have lt: "unat n < 2 ^ 64" using unsigned_less [of n] by simp
  have "unat (n + HDR_SIZE) = (unat n + 16) mod 2 ^ 64" by (simp add: HDR_SIZE_def unat_word_ariths)
  also have "\<dots> = unat n + 16 - 2 ^ 64" using assms(1) lt by (simp add: mod_if)
  also have "\<dots> \<le> 32" using lt by simp
  finally have "unat ((if n = 0 then 1 else n) + HDR_SIZE) \<le> 32" using n by simp
  moreover have "unat ((if (1::64 word) = 0 then 1 else 1) + HDR_SIZE) \<le> 32" by (simp add: HDR_SIZE_def)
  ultimately have "alloc_locked n a = alloc_locked 1 a" using alloc_small [of n a] alloc_small [of 1 a] assms(2) by simp
  then show ?thesis by (simp add: pal_allocator_malloc_def)
qed

text \<open>
  C39: the default arena holds one copy buffer, not two.  With the default arena of 8 MiB the
  first request for a copy buffer of 4 MiB takes all of it, because the header pushes the block
  to the next power of two; the second one fails.
\<close>

theorem default_arena_one_copy_buffer:
  assumes "\<not> initialized a0" "buf \<noteq> 0" "buf AND 4095 = 0" "unat buf + 8388608 \<le> 2 ^ 64"
    and "pal_malloc buf 4194304 a0 = (p, a1)" "pal_malloc buf 4194304 a1 = (q, a2)"
  shows "p = buf + HDR_SIZE \<and> q = 0"
proof -
  obtain a where p: "pal_malloc buf 4194304 a0 = (buf + HDR_SIZE, a)" "initialized a" "max_order a = 23"
      "arena a = 8388608" "free_lists a = (\<lambda>_. [])"
    using first_copy_buffer [OF assms(1-4)] by blast
  have "alloc_locked 4194304 a = (0, a)"
    using p ceil_copy_buffer
    by (simp add: alloc_locked_def HDR_SIZE_def Let_def pop_from.simps [of 23] pop_from.simps [of 24] list_pop_def)
  then show ?thesis using p assms(5,6) by (simp add: pal_malloc_def with_default_def pal_allocator_malloc_def)
qed

section \<open>Witnesses\<close>

definition blank_allocator :: pal_allocator where
  "blank_allocator = \<lparr>base = 0, arena = 0, max_order = 0, initialized = False, free_lists = (\<lambda>_. []),
     hdr_mem = (\<lambda>_. \<lparr>magic = 0, order = 0, used = False\<rparr>), ptr_mem = (\<lambda>_. 0), data = (\<lambda>_. 0), counts = no_counts\<rparr>"

definition demo_arena :: pal_allocator where
  "demo_arena = snd (pal_allocator_init 4096 PAL_ALLOC_DEFAULT_SIZE blank_allocator)"

lemma demo_arena_init: "pal_allocator_init 4096 PAL_ALLOC_DEFAULT_SIZE blank_allocator = (0, demo_arena)"
proof -
  have "(4096::64 word) AND 15 = 0" by simp
  then show ?thesis using default_init [of 4096 blank_allocator] unfolding demo_arena_def by auto
qed

definition demo_ops :: "client_op list" where
  "demo_ops = [Alloc 100, Alloc 5000, Release 1, Alloc 7]"

theorem alloc_client_safe_witness:
  "\<exists>a live. client pal_allocator_malloc pal_allocator_free demo_ops (demo_arena, []) = (a, live) \<and>
     (\<forall>i j. i < j \<and> j < length live \<longrightarrow> region (live ! i) \<inter> region (live ! j) = {})"
proof -
  obtain a live where "client pal_allocator_malloc pal_allocator_free demo_ops (demo_arena, []) = (a, live)" by fastforce
  moreover have "list_all fits demo_ops" by (simp add: demo_ops_def fits_def)
  ultimately show ?thesis using alloc_client_safe [OF demo_arena_init, of demo_ops a live]
    by (auto simp: PAL_ALLOC_DEFAULT_SIZE_def)
qed

theorem malloc_size_wraps_witness:
  "pal_allocator_malloc (- 1) demo_arena = pal_allocator_malloc 1 demo_arena \<and> fst (pal_allocator_malloc 1 demo_arena) \<noteq> 0"
proof -
  have "(4096::64 word) AND 15 = 0" by simp
  then have d: "initialized demo_arena" "max_order demo_arena = 23" "arena demo_arena = 8388608" "base demo_arena = 4096"
      "free_lists demo_arena = (\<lambda>_. [])(18 := [0])"
    using default_init [of 4096 blank_allocator] unfolding demo_arena_def by auto
  have m: "2 ^ 64 - 16 \<le> unat (- 1 :: 64 word)" by (simp add: unsigned_minus_1_eq_mask mask_eq_exp_minus_1)
  have "list_pop k demo_arena = (None, demo_arena)" if "k < 23" for k
    using d that by (simp add: list_pop_def list_idx_def)
  then have "pop_from k demo_arena = pop_from (Suc k) demo_arena" if "k < 23" for k
    using that d by (simp add: pop_from.simps [of k])
  then have "pop_from 5 demo_arena = pop_from 23 demo_arena" by (simp add: numeral_eq_Suc)
  then have "fst (alloc_locked 1 demo_arena) = 4096 + HDR_SIZE"
    using d alloc_small [of 1 demo_arena]
    by (simp add: HDR_SIZE_def pop_from.simps [of 23] list_pop_def list_idx_def block_ptr_def)
  then have "fst (pal_allocator_malloc 1 demo_arena) \<noteq> 0"
    using d(1) by (auto simp: pal_allocator_malloc_def HDR_SIZE_def split: prod.splits)
  moreover have "pal_allocator_malloc (- 1) demo_arena = pal_allocator_malloc 1 demo_arena"
    using m d(3) by (intro malloc_size_wraps) simp_all
  ultimately show ?thesis by blast
qed

theorem default_arena_one_copy_buffer_witness:
  "\<exists>a1 a2. pal_malloc 4096 4194304 blank_allocator = (4112, a1) \<and> pal_malloc 4096 4194304 a1 = (0, a2)"
proof -
  obtain p a1 where a1: "pal_malloc 4096 4194304 blank_allocator = (p, a1)" by fastforce
  obtain q a2 where a2: "pal_malloc 4096 4194304 a1 = (q, a2)" by fastforce
  have b: "\<not> initialized blank_allocator" "(4096::64 word) \<noteq> 0" "(4096::64 word) AND 4095 = 0"
    "unat (4096::64 word) + 8388608 \<le> 2 ^ 64" by (simp_all add: blank_allocator_def)
  have "p = 4096 + HDR_SIZE \<and> q = 0" using default_arena_one_copy_buffer [OF b a1 a2] .
  then show ?thesis using a1 a2 by (simp add: HDR_SIZE_def)
qed

theorem alloc_all_freed_witness:
  "\<exists>a. client pal_allocator_malloc pal_allocator_free [Alloc 1, Release 0] (demo_arena, []) = (a, []) \<and>
     free_lists a (list_idx (max_order a)) = [0]"
proof -
  obtain p a1 where "pal_allocator_malloc 1 demo_arena = (p, a1)" by fastforce
  then obtain a where c: "client pal_allocator_malloc pal_allocator_free [Alloc 1, Release 0] (demo_arena, []) = (a, [])"
    by (cases "p = 0") simp_all
  moreover have "list_all fits [Alloc 1, Release 0]" by (simp add: fits_def)
  ultimately show ?thesis using alloc_all_freed [OF demo_arena_init, of "[Alloc 1, Release 0]" a]
    by (auto simp: PAL_ALLOC_DEFAULT_SIZE_def)
qed

end
