(* ===== verification/Pal_Copy.thy ===== *)
theory Pal_Copy
  imports Copy_Pipe Ftp_Cmd_Stor Pal_Alloc
begin

text \<open>
  Model of the copy and move operations of \<^verbatim>\<open>src/src/pal_fileio.c\<close>, and of the thread that runs them for
  the commands \<^verbatim>\<open>CPTO\<close>, \<^verbatim>\<open>COPY\<close> and \<^verbatim>\<open>RNTO\<close> (\<open>ftp_copy_thread_func\<close> of \<^verbatim>\<open>src/src/ftp_commands.c\<close>).

  The buffers come from the allocator of \<open>Pal_Alloc\<close>.  Other threads use the same arena: \<open>env_others\<close> is what they do
  to it before each call.  The depth of a directory tree is limited by the code, so the two
  recursive functions recurse on the number of levels left.
\<close>

section \<open>Definitions\<close>

definition PAL_FILE_COPY_BUFFER_SIZE :: nat where "PAL_FILE_COPY_BUFFER_SIZE = 4194304"
definition PAL_MOVE_MAX_DEPTH :: nat where "PAL_MOVE_MAX_DEPTH = 64"

type_synonym 'w progress = "64 word \<Rightarrow> 'w st \<Rightarrow> (int \<times> 'w st) ret"

text \<open>The address of the default arena, the other users of the arena, and the progress callback.\<close>

record 'w copy_env =
  env_buf :: ptr
  env_others :: "pal_allocator \<Rightarrow> pal_allocator"
  env_cb :: "'w progress option"

record copy_state =
  heap :: pal_allocator
  tmp_counter :: "64 word"
  cumulative :: "64 word"
  out_errno :: int

definition copy_malloc :: "'w copy_env \<Rightarrow> copy_state \<Rightarrow> ptr \<times> copy_state" where
  "copy_malloc E cs =
    (case pal_malloc (env_buf E) (of_nat PAL_FILE_COPY_BUFFER_SIZE) (env_others E (heap cs)) of
       (p, a) \<Rightarrow> (p, cs\<lparr>heap := a\<rparr>))"

definition copy_free :: "'w copy_env \<Rightarrow> ptr \<Rightarrow> copy_state \<Rightarrow> copy_state" where
  "copy_free E p cs = cs\<lparr>heap := pal_free p (env_others E (heap cs))\<rparr>"

text \<open>Report progress; the answer is whether to go on.\<close>

definition copy_progress :: "'w copy_env \<Rightarrow> nat \<Rightarrow> copy_state \<Rightarrow> 'w st \<Rightarrow> ((bool \<times> copy_state) \<times> 'w st) ret" where
  "copy_progress E n cs st =
    (case env_cb E of
       None \<Rightarrow> Some ((True, cs), st)
     | Some cb \<Rightarrow> do {
         let cs = cs\<lparr>cumulative := cumulative cs + of_nat n\<rparr>;
         (r, st) \<leftarrow> cb (cumulative cs) st;
         Some ((r \<ge> 0, cs), st) })"

subsection \<open>One file\<close>

text \<open>Write a whole buffer.  The result is the error, if any; a write of nothing means a full disk.\<close>

partial_function (option) copy_write ::
  "'w os \<Rightarrow> int \<Rightarrow> byte list \<Rightarrow> 'w st \<Rightarrow> (int option \<times> 'w st) ret" where
  "copy_write os fd bs st =
    (if bs = [] then Some (None, st)
     else do {
       (r, st) \<leftarrow> syscall os (Sys_write fd bs) st;
       if r_ret r > 0 then copy_write os fd (drop (nat (r_ret r)) bs) st
       else if r_ret r < 0 \<and> errno st = EINTR then copy_write os fd bs st
       else Some (Some (if r_ret r = 0 then ENOSPC else errno st), st) })"

partial_function (option) serial_loop ::
  "'w os \<Rightarrow> 'w copy_env \<Rightarrow> int \<Rightarrow> int \<Rightarrow> copy_state \<Rightarrow> 'w st \<Rightarrow> ((ftp_error \<times> copy_state) \<times> 'w st) ret" where
  "serial_loop os E src dst cs st = do {
     (r, st) \<leftarrow> syscall os (Sys_read src PAL_FILE_COPY_BUFFER_SIZE) st;
     if r_ret r > 0 then do {
       (err, st) \<leftarrow> copy_write os dst (r_data r) st;
       case err of
         Some e \<Rightarrow> Some ((FTP_ERR_FILE_WRITE, cs\<lparr>out_errno := e\<rparr>), st)
       | None \<Rightarrow> do {
           ((go, cs), st) \<leftarrow> copy_progress E (length (r_data r)) cs st;
           if go then serial_loop os E src dst cs st else Some ((FTP_ERR_UNKNOWN, cs), st) } }
     else if r_ret r = 0 then Some ((FTP_OK, cs), st)
     else if errno st = EINTR then serial_loop os E src dst cs st
     else Some ((FTP_ERR_FILE_READ, cs\<lparr>out_errno := errno st\<rparr>), st) }"

text \<open>The two threads; the reader has its own \<open>errno\<close>.  When both are blocked, the run never ends.\<close>

definition reader_step :: "'w os \<Rightarrow> int \<Rightarrow> copy_sys \<Rightarrow> 'w st \<Rightarrow> (copy_sys \<times> 'w st) ret" where
  "reader_step os src s st =
    (case rpc s of
       R_check \<Rightarrow> Some (reader_check s, st)
     | R_read i \<Rightarrow> do {
         let e = errno st;
         (r, st) \<leftarrow> syscall os (Sys_read src PAL_FILE_COPY_BUFFER_SIZE) st;
         Some (if r_ret r < 0 then (if errno st = EINTR then s else s\<lparr>rpc := R_fail (errno st)\<rparr>)
               else if r_ret r = 0 then s\<lparr>rpc := R_eof\<rparr>
               else reader_got i (r_data r) s, set_errno e st) }
     | R_got i n \<Rightarrow> Some (reader_hand i n s, st)
     | R_eof \<Rightarrow> Some (reader_stop s, st)
     | R_fail e \<Rightarrow> Some (reader_abort e s, st)
     | R_exit \<Rightarrow> Some (s, st))"

definition drain_step ::
  "'w os \<Rightarrow> 'w copy_env \<Rightarrow> int \<Rightarrow> copy_sys \<Rightarrow> copy_state \<Rightarrow> 'w st \<Rightarrow> ((copy_sys \<times> copy_state) \<times> 'w st) ret" where
  "drain_step os E dst s cs st =
    (case dpc s of
       D_check \<Rightarrow> Some ((drain_check s, cs), st)
     | D_write d n \<Rightarrow> do {
         (r, st) \<leftarrow> copy_write os dst (take n (cbuf (cpipe s) d)) st;
         Some ((drain_wrote d n r s, cs), st) }
     | D_wrote d n r \<Rightarrow>
         (case r of
            Some e \<Rightarrow> Some ((drain_failed s, cs), st)
          | None \<Rightarrow> do {
              ((go, cs), st) \<leftarrow> copy_progress E n cs st;
              Some ((if go then drain_release d s else drain_cancel s, cs), st) })
     | D_join \<Rightarrow> Some ((drain_end s, cs), st)
     | D_end \<Rightarrow> Some ((s, cs), st))"

partial_function (option) copy_pipe_loop ::
  "'w os \<Rightarrow> 'w copy_env \<Rightarrow> int \<Rightarrow> int \<Rightarrow> copy_sys \<Rightarrow> copy_state \<Rightarrow> 'w st \<Rightarrow> ((copy_sys \<times> copy_state) \<times> 'w st) ret" where
  "copy_pipe_loop os E src dst s cs st =
    (if dpc s = D_end then Some ((s, cs), st)
     else if reader_blocked s \<and> drain_blocked s then None
     else do {
       (r, st) \<leftarrow> syscall os Sys_sched st;
       if drain_blocked s \<or> r_ret r > 0 \<and> \<not> reader_blocked s then do {
         (s, st) \<leftarrow> reader_step os src s st;
         copy_pipe_loop os E src dst s cs st }
       else do {
         ((s, cs), st) \<leftarrow> drain_step os E dst s cs st;
         copy_pipe_loop os E src dst s cs st } })"

definition pipe_result :: "copy_sys \<Rightarrow> copy_state \<Rightarrow> ftp_error \<times> copy_state" where
  "pipe_result s cs =
    (case write_err s of
       Some e \<Rightarrow> (FTP_ERR_FILE_WRITE, cs\<lparr>out_errno := e\<rparr>)
     | None \<Rightarrow>
         if reader_err (cpipe s) \<noteq> 0 then (FTP_ERR_FILE_READ, cs\<lparr>out_errno := reader_err (cpipe s)\<rparr>)
         else if cancelled s then (FTP_ERR_UNKNOWN, cs)
         else (FTP_OK, cs))"

text \<open>The result of a transfer has the buffer that the clean-up releases.\<close>

definition serial_copy ::
  "'w os \<Rightarrow> 'w copy_env \<Rightarrow> int \<Rightarrow> int \<Rightarrow> copy_state \<Rightarrow> 'w st \<Rightarrow> ((ftp_error \<times> ptr \<times> copy_state) \<times> 'w st) ret" where
  "serial_copy os E src dst cs st = do {
     let (copy_buf, cs) = copy_malloc E cs;
     if copy_buf = 0 then Some ((FTP_ERR_OUT_OF_MEMORY, 0, cs), st)
     else do {
       ((err, cs), st) \<leftarrow> serial_loop os E src dst cs st;
       Some ((err, copy_buf, cs), st) } }"

definition copy_transfer ::
  "'w os \<Rightarrow> 'w copy_env \<Rightarrow> int \<Rightarrow> int \<Rightarrow> copy_state \<Rightarrow> 'w st \<Rightarrow> ((ftp_error \<times> ptr \<times> copy_state) \<times> 'w st) ret" where
  "copy_transfer os E src dst cs st = do {
     let (dbuf0, cs) = copy_malloc E cs;
     let (dbuf1, cs) = copy_malloc E cs;
     if dbuf0 \<noteq> 0 \<and> dbuf1 \<noteq> 0 then do {
       (r, st) \<leftarrow> syscall os Sys_reader_thread st;
       if r_ret r = 0 then do {
         ((s, cs), st) \<leftarrow> copy_pipe_loop os E src dst copy_pipe_init cs st;
         let (err, cs) = pipe_result s cs;
         Some ((err, 0, copy_free E dbuf1 (copy_free E dbuf0 cs)), st) }
       else serial_copy os E src dst (copy_free E dbuf1 (copy_free E dbuf0 cs)) st }
     else serial_copy os E src dst (copy_free E dbuf1 (copy_free E dbuf0 cs)) st }"

definition copy_tmp_path :: "string \<Rightarrow> nat \<Rightarrow> nat \<Rightarrow> string" where
  "copy_tmp_path dst pid n =
    (let name = ''.zftpd.'' @ show_nat pid @ ''.'' @ show_nat n @ ''.tmp''
     in if SLASH \<in> set dst then before_last SLASH dst @ ''/'' @ name else name)"

text \<open>The directory whose free space is looked up; an empty answer skips the check.\<close>

definition copy_space_dir :: "string \<Rightarrow> string" where
  "copy_space_dir dst =
    (if SLASH \<in> set dst \<and> before_last SLASH dst \<noteq> []
     then (if length (before_last SLASH dst) < FTP_PATH_MAX then before_last SLASH dst else [])
     else ''/'')"

definition copy_no_space :: "'w os \<Rightarrow> string \<Rightarrow> fstat \<Rightarrow> 'w st \<Rightarrow> (bool \<times> 'w st) ret" where
  "copy_no_space os dst s st =
    (if copy_space_dir dst = [] then Some (False, st)
     else do {
       (r, st) \<leftarrow> syscall os (Sys_statvfs (copy_space_dir dst)) st;
       Some (r_ret r = 0 \<and> st_size s > fst (r_vfs r) * snd (r_vfs r), st) })"

definition close_if :: "'w os \<Rightarrow> int \<Rightarrow> 'w st \<Rightarrow> (unit \<times> 'w st) ret" where
  "close_if os fd st =
    (if fd \<ge> 0 then do { (_, st) \<leftarrow> syscall os (Sys_close fd) st; Some ((), st) } else Some ((), st))"

definition copy_cleanup ::
  "'w os \<Rightarrow> 'w copy_env \<Rightarrow> ftp_error \<Rightarrow> ptr \<Rightarrow> int \<Rightarrow> int \<Rightarrow> string \<Rightarrow> copy_state \<Rightarrow> 'w st \<Rightarrow>
   ((ftp_error \<times> copy_state) \<times> 'w st) ret" where
  "copy_cleanup os E err copy_buf dst_fd src_fd tmp cs st = do {
     let cs = copy_free E copy_buf cs;
     (_, st) \<leftarrow> close_if os dst_fd st;
     (_, st) \<leftarrow> close_if os src_fd st;
     if err \<noteq> FTP_OK then do { (_, st) \<leftarrow> syscall os (Sys_unlink tmp) st; Some ((err, cs), st) }
     else Some ((err, cs), st) }"

text \<open>Hints to the page cache, the commit, and the clean-up.\<close>

definition copy_finish ::
  "'w os \<Rightarrow> 'w copy_env \<Rightarrow> string \<Rightarrow> string \<Rightarrow> ptr \<Rightarrow> int \<Rightarrow> int \<Rightarrow> copy_state \<Rightarrow> 'w st \<Rightarrow>
   ((ftp_error \<times> copy_state) \<times> 'w st) ret" where
  "copy_finish os E tmp dst copy_buf dst_fd src_fd cs st = do {
     (_, st) \<leftarrow> syscall os (Sys_fadvise src_fd) st;
     (_, st) \<leftarrow> syscall os (Sys_fadvise dst_fd) st;
     (r, st) \<leftarrow> syscall os (Sys_rename tmp dst) st;
     if r_ret r < 0
     then copy_cleanup os E FTP_ERR_FILE_WRITE copy_buf dst_fd src_fd tmp (cs\<lparr>out_errno := errno st\<rparr>) st
     else copy_cleanup os E FTP_OK copy_buf dst_fd src_fd tmp cs st }"

definition open_err :: "int \<Rightarrow> ftp_error" where
  "open_err e =
    (if e = ENOENT then FTP_ERR_NOT_FOUND
     else if e = EACCES \<or> e = EPERM then FTP_ERR_PERMISSION
     else FTP_ERR_FILE_OPEN)"

text \<open>From the open source on: the check for space, the temporary file, the transfer.\<close>

definition copy_opened ::
  "'w os \<Rightarrow> 'w copy_env \<Rightarrow> string \<Rightarrow> string \<Rightarrow> int \<Rightarrow> fstat \<Rightarrow> copy_state \<Rightarrow> 'w st \<Rightarrow>
   ((ftp_error \<times> copy_state) \<times> 'w st) ret" where
  "copy_opened os E tmp dst src_fd s cs st = do {
     (_, st) \<leftarrow> syscall os (Sys_fadvise src_fd) st;
     (full, st) \<leftarrow> copy_no_space os dst s st;
     if full then Some ((FTP_ERR_FILE_WRITE, cs\<lparr>out_errno := ENOSPC\<rparr>), st)
     else do {
       (r, st) \<leftarrow> syscall os (Sys_open tmp [O_WRONLY, O_CREAT, O_TRUNC, O_CLOEXEC] (unat (and (st_mode s) 0x1FF))) st;
       if r_ret r < 0 then
         copy_cleanup os E (if errno st = EACCES \<or> errno st = EPERM then FTP_ERR_PERMISSION else FTP_ERR_FILE_OPEN)
           0 (-1) src_fd tmp (cs\<lparr>out_errno := errno st\<rparr>) st
       else do {
         ((err, copy_buf, cs), st) \<leftarrow> copy_transfer os E src_fd (r_ret r) cs st;
         if err \<noteq> FTP_OK then copy_cleanup os E err copy_buf (r_ret r) src_fd tmp cs st
         else copy_finish os E tmp dst copy_buf (r_ret r) src_fd cs st } } }"

definition pal_file_copy_atomic_ex ::
  "'w os \<Rightarrow> 'w copy_env \<Rightarrow> string \<Rightarrow> string \<Rightarrow> copy_state \<Rightarrow> 'w st \<Rightarrow> ((ftp_error \<times> copy_state) \<times> 'w st) ret" where
  "pal_file_copy_atomic_ex os E src dst cs st = do {
     (s, st) \<leftarrow> syscall os (Sys_stat src) st;
     if r_ret s < 0 then
       Some ((if errno st = ENOENT then FTP_ERR_NOT_FOUND
              else if errno st = EACCES \<or> errno st = EPERM then FTP_ERR_PERMISSION
              else FTP_ERR_FILE_STAT, cs), st)
     else if \<not> is_reg_mode (st_mode (r_stat s)) then Some ((FTP_ERR_INVALID_PARAM, cs), st)
     else do {
       let n = tmp_counter cs;
       let cs = cs\<lparr>tmp_counter := n + 1\<rparr>;
       (p, st) \<leftarrow> syscall os Sys_getpid st;
       let tmp = copy_tmp_path dst (nat (r_ret p)) (unat n);
       if length tmp \<ge> FTP_PATH_MAX then Some ((FTP_ERR_PATH_TOO_LONG, cs), st)
       else do {
         (r, st) \<leftarrow> syscall os (Sys_open src [O_RDONLY] 0) st;
         if r_ret r < 0
         then copy_cleanup os E (open_err (errno st)) 0 (-1) (r_ret r) tmp (cs\<lparr>out_errno := errno st\<rparr>) st
         else copy_opened os E tmp dst (r_ret r) (r_stat s) cs st } } }"

subsection \<open>Trees\<close>

text \<open>The entries of a directory, until the action on one of them fails.\<close>

partial_function (option) each_entry ::
  "'w os \<Rightarrow> int \<Rightarrow> (string \<Rightarrow> 'c \<Rightarrow> 'w st \<Rightarrow> ((ftp_error \<times> 'c) \<times> 'w st) ret) \<Rightarrow> 'c \<Rightarrow> 'w st \<Rightarrow>
   ((ftp_error \<times> 'c) \<times> 'w st) ret" where
  "each_entry os dir action cs st = do {
     (d, st) \<leftarrow> syscall os (Sys_readdir dir) st;
     if r_ret d < 0 then Some ((FTP_OK, cs), st)
     else let name = cstring (r_str d) in
       if name = ''.'' \<or> name = ''..'' then each_entry os dir action cs st
       else do {
         ((err, cs), st) \<leftarrow> action name cs st;
         if err \<noteq> FTP_OK then Some ((err, cs), st) else each_entry os dir action cs st } }"

text \<open>What becomes of an entry of a tree that is removed; \<open>remove_dir\<close> is the recursive call.\<close>

definition remove_entry ::
  "('w os \<Rightarrow> string \<Rightarrow> 'w st \<Rightarrow> (ftp_error \<times> 'w st) ret) \<Rightarrow> 'w os \<Rightarrow> string \<Rightarrow> string \<Rightarrow> 'w st \<Rightarrow>
   (ftp_error \<times> 'w st) ret" where
  "remove_entry remove_dir os path name st = do {
     let child = path @ ''/'' @ name;
     if length child \<ge> FTP_PATH_MAX then Some (FTP_ERR_PATH_TOO_LONG, st)
     else do {
       (s, st) \<leftarrow> syscall os (Sys_stat child) st;
       if r_ret s < 0 then Some (FTP_ERR_FILE_STAT, st)
       else if is_dir_mode (st_mode (r_stat s)) then remove_dir os child st
       else do {
         (r, st) \<leftarrow> syscall os (Sys_unlink child) st;
         Some (if r_ret r \<noteq> 0 then FTP_ERR_FILE_WRITE else FTP_OK, st) } } }"

primrec pal_dir_remove_recursive :: "nat \<Rightarrow> 'w os \<Rightarrow> string \<Rightarrow> 'w st \<Rightarrow> (ftp_error \<times> 'w st) ret" where
  "pal_dir_remove_recursive 0 os path st = Some (FTP_ERR_PATH_TOO_LONG, st)"
| "pal_dir_remove_recursive (Suc k) os path st = do {
     (d, st) \<leftarrow> syscall os (Sys_opendir path) st;
     if r_ret d < 0 then Some (if errno st = ENOENT then FTP_OK else FTP_ERR_DIR_OPEN, st)
     else do {
       ((err, _), st) \<leftarrow> each_entry os (r_ret d) (\<lambda>name _ st. do {
           (err, st) \<leftarrow> remove_entry (pal_dir_remove_recursive k) os path name st;
           Some ((err, ()), st) }) () st;
       (_, st) \<leftarrow> syscall os (Sys_closedir (r_ret d)) st;
       if err \<noteq> FTP_OK then Some (err, st)
       else do {
         (r, st) \<leftarrow> syscall os (Sys_rmdir path) st;
         Some (if r_ret r < 0 then FTP_ERR_FILE_WRITE else FTP_OK, st) } } }"

definition levels :: nat where "levels = PAL_MOVE_MAX_DEPTH + 1"

text \<open>A regular file: copy it, then remove the source of a move.\<close>

definition copy_leaf ::
  "'w os \<Rightarrow> 'w copy_env \<Rightarrow> bool \<Rightarrow> string \<Rightarrow> string \<Rightarrow> copy_state \<Rightarrow> 'w st \<Rightarrow> ((ftp_error \<times> copy_state) \<times> 'w st) ret" where
  "copy_leaf os E keep_src src dst cs st = do {
     ((err, cs), st) \<leftarrow> pal_file_copy_atomic_ex os E src dst cs st;
     if err \<noteq> FTP_OK \<or> keep_src then Some ((err, cs), st)
     else do {
       (r, st) \<leftarrow> syscall os (Sys_unlink src) st;
       Some ((if r_ret r < 0 then FTP_ERR_FILE_WRITE else FTP_OK, cs), st) } }"

text \<open>After the entries: undo what this call created, or remove the source directory of a move.\<close>

definition copy_dir_end ::
  "'w os \<Rightarrow> bool \<Rightarrow> bool \<Rightarrow> string \<Rightarrow> string \<Rightarrow> ftp_error \<Rightarrow> copy_state \<Rightarrow> 'w st \<Rightarrow> ((ftp_error \<times> copy_state) \<times> 'w st) ret" where
  "copy_dir_end os keep_src created src dst err cs st =
    (if err \<noteq> FTP_OK then do {
       (_, st) \<leftarrow> (if created then pal_dir_remove_recursive levels os dst st else Some (FTP_OK, st));
       Some ((err, cs), st) }
     else if keep_src then Some ((FTP_OK, cs), st)
     else do {
       (r, st) \<leftarrow> syscall os (Sys_rmdir src) st;
       Some ((if r_ret r < 0 then FTP_ERR_FILE_WRITE else FTP_OK, cs), st) })"

primrec pal_copy_cross_device_r_ex ::
  "nat \<Rightarrow> 'w os \<Rightarrow> 'w copy_env \<Rightarrow> bool \<Rightarrow> string \<Rightarrow> string \<Rightarrow> copy_state \<Rightarrow> 'w st \<Rightarrow>
   ((ftp_error \<times> copy_state) \<times> 'w st) ret" where
  "pal_copy_cross_device_r_ex 0 os E keep_src src dst cs st = Some ((FTP_ERR_PATH_TOO_LONG, cs), st)"
| "pal_copy_cross_device_r_ex (Suc k) os E keep_src src dst cs st = do {
     (s, st) \<leftarrow> syscall os (Sys_stat src) st;
     if r_ret s < 0 then Some ((if errno st = ENOENT then FTP_ERR_NOT_FOUND else FTP_ERR_FILE_STAT, cs), st)
     else if is_reg_mode (st_mode (r_stat s)) then copy_leaf os E keep_src src dst cs st
     else if \<not> is_dir_mode (st_mode (r_stat s)) then Some ((FTP_OK, cs), st)
     else do {
       (m, st) \<leftarrow> syscall os (Sys_mkdir dst (unat (and (st_mode (r_stat s)) 0x1FF))) st;
       if r_ret m < 0 \<and> errno st \<noteq> EEXIST then Some ((FTP_ERR_FILE_WRITE, cs), st)
       else do {
         let created = (r_ret m \<ge> 0);
         (d, st) \<leftarrow> syscall os (Sys_opendir src) st;
         if r_ret d < 0 then do {
           (_, st) \<leftarrow> (if created then do { (_, st) \<leftarrow> syscall os (Sys_rmdir dst) st; Some ((), st) } else Some ((), st));
           Some ((FTP_ERR_DIR_OPEN, cs), st) }
         else do {
           ((err, cs), st) \<leftarrow> each_entry os (r_ret d) (\<lambda>name cs st.
             if length (src @ ''/'' @ name) \<ge> FTP_PATH_MAX \<or> length (dst @ ''/'' @ name) \<ge> FTP_PATH_MAX
             then Some ((FTP_ERR_PATH_TOO_LONG, cs), st)
             else pal_copy_cross_device_r_ex k os E keep_src (src @ ''/'' @ name) (dst @ ''/'' @ name) cs st) cs st;
           (_, st) \<leftarrow> syscall os (Sys_closedir (r_ret d)) st;
           copy_dir_end os keep_src created src dst err cs st } } } }"

definition pal_file_copy_recursive_ex ::
  "'w os \<Rightarrow> 'w copy_env \<Rightarrow> string \<Rightarrow> string \<Rightarrow> bool \<Rightarrow> copy_state \<Rightarrow> 'w st \<Rightarrow> ((ftp_error \<times> copy_state) \<times> 'w st) ret" where
  "pal_file_copy_recursive_ex os E src dst keep_src cs st =
    pal_copy_cross_device_r_ex levels os E keep_src src dst (cs\<lparr>cumulative := 0\<rparr>) st"

definition pal_file_copy_recursive ::
  "'w os \<Rightarrow> 'w copy_env \<Rightarrow> string \<Rightarrow> string \<Rightarrow> bool \<Rightarrow> copy_state \<Rightarrow> 'w st \<Rightarrow> ((ftp_error \<times> copy_state) \<times> 'w st) ret" where
  "pal_file_copy_recursive os E src dst keep_src cs st =
    pal_file_copy_recursive_ex os (E\<lparr>env_cb := None\<rparr>) src dst keep_src cs st"

text \<open>The background thread: run the copy, then tell the session that it is over.\<close>

definition ftp_copy_thread_func ::
  "'w os \<Rightarrow> 'w copy_env \<Rightarrow> string \<Rightarrow> string \<Rightarrow> bool \<Rightarrow> copy_state \<Rightarrow> 'w st \<Rightarrow> ((ftp_error \<times> copy_state) \<times> 'w st) ret" where
  "ftp_copy_thread_func os E src dst is_move cs st = do {
     (r, st) \<leftarrow> pal_file_copy_recursive_ex os (E\<lparr>env_cb := None\<rparr>) src dst (\<not> is_move) (cs\<lparr>out_errno := 0\<rparr>) st;
     Some (r, upd (\<lambda>s. s\<lparr>copy_in_progress := False\<rparr>) st) }"

section \<open>The transfer\<close>

lemma copy_write_spec:
  assumes sat: "os_sat os posix"
  shows "post (copy_write os fd bs st) (\<lambda>r. advances (\<lambda>t. list_all (writes fd) t \<and>
    (r = None \<longrightarrow> written_to fd t = bs)) st)"
proof (rule postI)
  fix r st' assume ret: "copy_write os fd bs st = Some (r, st')"
  let ?R = "\<lambda>fd bs st r. advances (\<lambda>t. list_all (writes fd) t \<and> (r = None \<longrightarrow> written_to fd t = bs)) st"
  let ?P = "\<lambda>os fd bs st y. os_sat os posix \<longrightarrow> ?R fd bs st (fst y) (snd y)"
  have "?P os fd bs st (r, st')"
  proof (rule copy_write.raw_induct [where P = ?P, OF _ ret], rule impI, goal_cases)
    case (1 loop os fd bs st y)
    have IH: "post (loop os fd bs st) (?R fd bs st)" for bs st
      using 1(1,3) by (fastforce simp: post_def)
    have "post (Some y) (?R fd bs st)"
      unfolding 1(2) [symmetric]
      apply (intro post_syscall_sat [OF 1(3)] wp post_mono [OF IH])
      subgoal by (rule advances_refl) simp
      subgoal by (erule advances_adv) (auto simp: writes_def posix_def min_def)
      subgoal by (erule advances_adv) (simp add: writes_def)
      subgoal by (rule advancesI) (simp add: writes_def)
      done
    then show ?case by (cases y) (simp add: post_def)
  qed
  then show "?R fd bs st r st'" using sat by simp
qed

lemma post_copy_write:
  assumes "os_sat os posix"
    and "\<And>r w e t. list_all (writes fd) t \<Longrightarrow> (r = None \<Longrightarrow> written_to fd t = bs) \<Longrightarrow> Q r (adv w e t st)"
  shows "post (copy_write os fd bs st) Q"
  by (rule post_mono [OF copy_write_spec [OF assms(1)]]) (auto elim!: advancesE intro: assms(2))

text \<open>A callback that moves no data and touches no file.\<close>

definition cb_ok :: "'w copy_env \<Rightarrow> bool" where
  "cb_ok E \<longleftrightarrow> (\<forall>cb n st. env_cb E = Some cb \<longrightarrow> post (cb n st) (\<lambda>_. advances (list_all quiet) st))"

lemma post_copy_progress:
  assumes "cb_ok E" "\<And>go cs w e t. list_all quiet t \<Longrightarrow> Q (go, cs) (adv w e t st)"
  shows "post (copy_progress E n cs st) Q"
proof (cases "env_cb E")
  case None
  then show ?thesis using assms(2) [of "[]" _ _ "world st" "errno st"] by (simp add: copy_progress_def post_def)
next
  case (Some cb)
  have cb: "post (cb m st) (\<lambda>_. advances (list_all quiet) st)" for m using assms(1) Some unfolding cb_ok_def by blast
  show ?thesis unfolding copy_progress_def Some option.case Let_def
    by (intro wp post_mono [OF cb]) (auto elim!: advancesE intro: assms(2))
qed

text \<open>
  \<open>eof fd t\<close>: the last read of \<open>fd\<close> that brought something was followed by one at the end of the file.
  \<open>moved_all\<close> is what a transfer does: on success everything up to the end of the source has been written.
\<close>

definition eof :: "int \<Rightarrow> event list \<Rightarrow> bool" where
  "eof fd t \<longleftrightarrow> (\<exists>t1 n r t2. t = t1 @ (Sys_read fd n, r) # t2 \<and> r_ret r = 0 \<and> read_from fd t2 = [])"

definition moved_all :: "int \<Rightarrow> int \<Rightarrow> bool \<Rightarrow> event list \<Rightarrow> bool" where
  "moved_all src dst b t \<longleftrightarrow> neutral t \<and> (b \<longrightarrow> written_to dst t = read_from src t \<and> eof src t)"

lemma eofI: "r_ret r = 0 \<Longrightarrow> eof fd (t @ [(Sys_read fd n, r)])"
  unfolding eof_def by (rule exI [of _ t], rule exI [of _ n], rule exI [of _ r], rule exI [of _ "[]"]) simp

lemma eof_prepend: "eof fd t \<Longrightarrow> eof fd (u @ t)"
  unfolding eof_def by (metis append_assoc)

lemma eof_append: "eof fd t \<Longrightarrow> read_from fd u = [] \<Longrightarrow> eof fd (t @ u)"
proof -
  assume "eof fd t" and u: "read_from fd u = []"
  then obtain t1 n r t2 where t: "t = t1 @ (Sys_read fd n, r) # t2" "r_ret r = 0" "read_from fd t2 = []"
    unfolding eof_def by blast
  then show ?thesis unfolding eof_def
    by - (rule exI [of _ t1], rule exI [of _ n], rule exI [of _ r], rule exI [of _ "t2 @ u"], use u in simp)
qed

lemma moved_all_trans:
  "neutral t \<Longrightarrow> written_to dst t = read_from src t \<Longrightarrow> moved_all src dst b u \<Longrightarrow> moved_all src dst b (t @ u)"
  by (auto simp: moved_all_def neutral_append eof_prepend)

lemma serial_round:
  assumes "0 < r_ret r" "list_all (writes dst) t" "written_to dst t = r_data r" "list_all quiet u"
    "moved_all src dst b v"
  shows "moved_all src dst b ((Sys_read src n, r) # t @ u @ v)"
proof -
  have "moved_all src dst b (((Sys_read src n, r) # t @ u) @ v)"
    using assms writes_only [OF assms(2), of src] quiet_moves [OF assms(4), of src] touchesD(6) [OF quiet_touches [OF assms(4)]]
    by (intro moved_all_trans) (simp_all add: neutral_Cons neutral_append writes_neutral quiet_moves)
  then show ?thesis by simp
qed

lemma moved_all_interrupted: "\<not> 0 < r_ret r \<Longrightarrow> moved_all src dst b t \<Longrightarrow> moved_all src dst b ((Sys_read src n, r) # t)"
  using moved_all_trans [of "[(Sys_read src n, r)]" dst src b t] by (simp add: neutral_Cons)

lemma moved_all_eof: "r_ret r = 0 \<Longrightarrow> moved_all src dst b [(Sys_read src n, r)]"
  using eofI [of r src "[]" n] by (simp add: moved_all_def neutral_Cons)

lemma moved_all_failed: "neutral t \<Longrightarrow> moved_all src dst False t"
  by (simp add: moved_all_def)

lemma serial_loop_spec:
  assumes ret: "serial_loop os E src dst cs st = Some (y, st')" and sat: "os_sat os posix" "cb_ok E"
  shows "advances (moved_all src dst (fst y = FTP_OK)) st st'"
proof -
  let ?R = "\<lambda>src dst st y. advances (moved_all src dst (fst y = FTP_OK)) st"
  let ?P = "\<lambda>os E src dst cs st y. os_sat os posix \<and> cb_ok E \<longrightarrow> ?R src dst st (fst y) (snd y)"
  have "?P os E src dst cs st (y, st')"
  proof (rule serial_loop.raw_induct [where P = ?P, OF _ ret], rule impI, goal_cases)
    case (1 loop os E src dst cs st y)
    have IH: "post (loop os E src dst cs st) (?R src dst st)" for cs st
      using 1(1,3) by (fastforce simp: post_def)
    have sat: "os_sat os posix" and cb: "cb_ok E" using 1(3) by auto
    have "post (Some y) (?R src dst st)"
      unfolding 1(2) [symmetric]
      apply (intro post_syscall_sat [OF sat] post_copy_write [OF sat] post_copy_progress [OF cb] wp post_mono [OF IH])
      apply (auto simp: neutral_Cons writes_neutral neutral_append quiet_neutral moved_all_eof
        intro!: advancesI moved_all_failed elim!: advances_adv intro: serial_round moved_all_interrupted)
      done
    then show ?case by (cases y) (simp add: post_def)
  qed
  then show ?thesis using sat by simp
qed

subsection \<open>Two threads\<close>

definition at_eof :: "copy_sys \<Rightarrow> bool" where
  "at_eof s \<longleftrightarrow> rpc s = R_eof \<or> rpc s = R_exit \<and> reader_err (cpipe s) = 0 \<and> \<not> broken s"

text \<open>What holds after the events \<open>t\<close> of the two threads.\<close>

definition pumped :: "int \<Rightarrow> int \<Rightarrow> copy_sys \<Rightarrow> event list \<Rightarrow> bool" where
  "pumped src dst s t \<longleftrightarrow> neutral t \<and> copy_inv (read_from src t) (written_to dst t) s \<and>
    (at_eof s \<longrightarrow> eof src t) \<and> (\<forall>e. rpc s = R_fail e \<longrightarrow> e \<noteq> 0) \<and> (dpc s = D_end \<longrightarrow> rpc s = R_exit)"

lemma pumped_init: "pumped src dst copy_pipe_init []"
  using copy_inv_init by (simp add: pumped_def at_eof_def copy_pipe_init_def)

lemma pumped_quiet: "pumped src dst s t \<Longrightarrow> list_all quiet u \<Longrightarrow> pumped src dst s (t @ u)"
  using quiet_moves [of u dst] touchesD(6) [OF quiet_touches [of u], of src]
  by (simp add: pumped_def neutral_append eof_append)

lemma pumped_same:
  assumes "pumped src dst s t" "copy_inv (read_from src t) (written_to dst t) s'"
    and "at_eof s' \<Longrightarrow> at_eof s" "\<And>e. rpc s' = R_fail e \<Longrightarrow> rpc s = R_fail e" "dpc s' = D_end \<Longrightarrow> rpc s' = R_exit"
  shows "pumped src dst s' t"
  using assms by (auto simp: pumped_def)

lemma pumped_check:
  assumes "pumped src dst s t" "rpc s = R_check" "\<not> reader_blocked s"
  shows "pumped src dst (reader_check s) t"
proof -
  have c: "copy_inv (read_from src t) (written_to dst t) s" using assms(1) by (simp add: pumped_def)
  have "\<not> at_eof (reader_check s)"
    using c assms(2) by (auto simp: at_eof_def reader_check_def copy_inv_def broken_def as_stor_def stor_inv_def prod_inv_def Let_def)
  then show ?thesis
    by (intro pumped_same [OF assms(1) copy_inv_check [OF c assms(2,3)]])
      (use assms(1,2) in \<open>auto simp: reader_check_def pumped_def split: if_splits\<close>)
qed

lemma pumped_hand:
  assumes "pumped src dst s t"
  shows "rpc s = R_got i n \<Longrightarrow> pumped src dst (reader_hand i n s) t"
    "rpc s = R_eof \<Longrightarrow> pumped src dst (reader_stop s) t"
    "rpc s = R_fail e \<Longrightarrow> pumped src dst (reader_abort e s) t"
  using assms copy_inv_hand [of "read_from src t" "written_to dst t" s i n]
    copy_inv_stop [of "read_from src t" "written_to dst t" s e]
  by (auto simp: pumped_def at_eof_def broken_def reader_hand_def reader_stop_def reader_abort_def)

lemma pumped_read:
  assumes "pumped src dst s t" "rpc s = R_read i" "posix (Sys_read src n) r"
  shows "pumped src dst
    (if r_ret r < 0 then (if r_errno r = EINTR then s else s\<lparr>rpc := R_fail (r_errno r)\<rparr>)
     else if r_ret r = 0 then s\<lparr>rpc := R_eof\<rparr> else reader_got i (r_data r) s) (t @ [(Sys_read src n, r)])"
proof -
  have c: "copy_inv (read_from src t) (written_to dst t) s" and n: "neutral t" and d: "dpc s \<noteq> D_end"
    using assms(1,2) by (auto simp: pumped_def)
  have dat: "0 < r_ret r \<Longrightarrow> r_data r \<noteq> []" "r_ret r < 0 \<Longrightarrow> r_errno r \<noteq> 0" using assms(3) by (auto simp: posix_def split: if_splits)
  note inv = copy_inv_read [OF c assms(2)]
  show ?thesis
    using c n d dat inv assms(2) eofI [of r src t n]
    by (auto simp: pumped_def neutral_append neutral_Cons at_eof_def reader_got_def)
qed

lemma pumped_write:
  assumes "pumped src dst s t" "dpc s = D_write d n" "list_all (writes dst) u"
    "r = None \<Longrightarrow> written_to dst u = take n (cbuf (cpipe s) d)"
  shows "pumped src dst (drain_wrote d n r s) (t @ u)"
proof -
  have c: "copy_inv (read_from src t) (written_to dst t) s" using assms(1) by (simp add: pumped_def)
  have "copy_inv (read_from src (t @ u)) (written_to dst (t @ u)) (drain_wrote d n r s)"
    using copy_inv_write [OF c assms(2)] assms(4) writes_only [OF assms(3), of src] by (cases r) auto
  moreover have "\<not> broken s" using copy_inv_write_full [OF c assms(2)] by simp
  ultimately show ?thesis
    using assms(1) writes_only [OF assms(3), of src] writes_neutral [OF assms(3)]
    by (auto simp: pumped_def neutral_append at_eof_def broken_def drain_wrote_def eof_append)
qed

lemma pumped_drain:
  assumes "pumped src dst s t"
  shows "dpc s = D_check \<Longrightarrow> \<not> drain_blocked s \<Longrightarrow> pumped src dst (drain_check s) t"
    "dpc s = D_wrote d n (Some e) \<Longrightarrow> pumped src dst (drain_failed s) t"
    "dpc s = D_wrote d n None \<Longrightarrow> pumped src dst (drain_release d s) t"
    "pumped src dst (drain_cancel s) t"
    "dpc s = D_join \<Longrightarrow> \<not> drain_blocked s \<Longrightarrow> pumped src dst (drain_end s) t"
proof -
  have c: "copy_inv (read_from src t) (written_to dst t) s" using assms by (simp add: pumped_def)
  note defs = at_eof_def broken_def drain_check_def drain_failed_def drain_release_def drain_cancel_def
    drain_end_def drain_blocked_def Let_def
  show "pumped src dst (drain_check s) t" if "dpc s = D_check" "\<not> drain_blocked s"
    by (rule pumped_same [OF assms copy_inv_drain_check [OF c that]]) (use that in \<open>auto simp: defs split: if_splits\<close>)
  show "pumped src dst (drain_failed s) t" if "dpc s = D_wrote d n (Some e)"
    by (rule pumped_same [OF assms copy_inv_drain_stop(1) [OF c that]]) (auto simp: defs)
  show "pumped src dst (drain_release d s) t" if "dpc s = D_wrote d n None"
    by (rule pumped_same [OF assms copy_inv_release [OF c that]]) (auto simp: defs)
  show "pumped src dst (drain_cancel s) t"
    by (rule pumped_same [OF assms copy_inv_drain_stop(2) [OF c]]) (auto simp: defs)
  show "pumped src dst (drain_end s) t" if "dpc s = D_join" "\<not> drain_blocked s"
    by (rule pumped_same [OF assms copy_inv_drain_stop(3) [OF c that(1)]]) (use that in \<open>auto simp: defs\<close>)
qed

lemma post_reader_step:
  assumes sat: "os_sat os posix" and s: "pumped src dst s t" "\<not> reader_blocked s"
  shows "post (reader_step os src s (adv w e t st)) (\<lambda>s'. advances (pumped src dst s') st)"
proof (cases "rpc s")
  case (R_read i)
  show ?thesis unfolding reader_step_def R_read reader_pc.case Let_def
    by (intro post_syscall_sat [OF sat] wp)
      (use pumped_read [OF s(1) R_read] in \<open>simp add: set_errno_def advancesI cong: if_cong\<close>)
qed (use s in \<open>auto simp: reader_step_def reader_blocked_def
  intro!: wp advancesI pumped_check pumped_hand\<close>)

lemma post_drain_step:
  assumes sat: "os_sat os posix" and cb: "cb_ok E" and s: "pumped src dst s t" "\<not> drain_blocked s"
  shows "post (drain_step os E dst s cs (adv w e t st)) (\<lambda>y. advances (pumped src dst (fst y)) st)"
proof (cases "dpc s")
  case (D_write d n)
  show ?thesis unfolding drain_step_def D_write drain_pc.case
    by (intro post_copy_write [OF sat] wp) (simp add: advancesI pumped_write [OF s(1) D_write])
next
  case (D_wrote d n r)
  then show ?thesis unfolding drain_step_def D_wrote drain_pc.case
    by (intro post_copy_progress [OF cb] wp)
      (use pumped_drain [OF s(1)] D_wrote in \<open>auto simp: advancesI pumped_quiet\<close>)
qed (use s in \<open>auto simp: drain_step_def drain_blocked_def intro!: wp advancesI pumped_drain\<close>)

lemma copy_pipe_loop_spec:
  assumes ret: "copy_pipe_loop os E src dst s cs (adv w e t st) = Some (y, st')"
    and sat: "os_sat os posix" "cb_ok E" "pumped src dst s t"
  shows "dpc (fst y) = D_end \<and> advances (pumped src dst (fst y)) st st'"
proof -
  let ?R = "\<lambda>src dst st y st'. dpc (fst y) = D_end \<and> advances (pumped src dst (fst y)) st st'"
  let ?P = "\<lambda>os E src dst s cs st1 y. \<forall>w e t st. st1 = adv w e t st \<and> os_sat os posix \<and> cb_ok E \<and> pumped src dst s t \<longrightarrow>
    ?R src dst st (fst y) (snd y)"
  have "?P os E src dst s cs (adv w e t st) (y, st')"
  proof (rule copy_pipe_loop.raw_induct [where P = ?P, OF _ ret], intro allI impI, goal_cases)
    case (1 loop os E src dst s cs st1 y w e t st)
    have sat: "os_sat os posix" and cb: "cb_ok E" and p: "pumped src dst s t" and st1: "st1 = adv w e t st" using 1(3) by auto
    have IH: "post (loop os E src dst s cs st1) (?R src dst st)" if "advances (pumped src dst s) st st1" for s cs st1
      using that 1(1) sat cb by (elim advancesE) (fastforce simp: post_def)
    have q: "pumped src dst s (t @ [(Sys_sched, r)])" for r
      by (rule pumped_quiet [OF p]) (simp add: quiet_def)
    have "post (Some y) (?R src dst st)"
      unfolding 1(2) [symmetric] st1
      apply (intro wp)
      subgoal using p by (simp add: advancesI)
      subgoal unfolding adv_adv by (rule post_mono [OF post_reader_step [OF sat q]]) (auto intro: IH)
      subgoal unfolding adv_adv by (rule post_mono [OF post_drain_step [OF sat cb q]]) (auto intro!: wp IH)
      done
    then show ?case by (cases y) (simp add: post_def)
  qed
  then show ?thesis using sat by simp
qed

lemma post_serial_copy:
  assumes "os_sat os posix" "cb_ok E"
    and "\<And>y w e t. moved_all src dst (fst y = FTP_OK) t \<Longrightarrow> Q y (adv w e t st)"
  shows "post (serial_copy os E src dst cs st) Q"
proof -
  have loop: "post (serial_loop os E src dst c st) (\<lambda>y. advances (moved_all src dst (fst y = FTP_OK)) st)" for c
    using serial_loop_spec assms(1,2) by (auto intro!: postI)
  have none: "Q (FTP_ERR_OUT_OF_MEMORY, 0, cs) st" for cs
    using assms(3) [of "(FTP_ERR_OUT_OF_MEMORY, 0, cs)" "[]" "world st" "errno st"] by (simp add: moved_all_failed)
  show ?thesis unfolding serial_copy_def Let_def
    by (cases "copy_malloc E cs") (auto intro!: wp post_mono [OF loop] none assms(3) elim!: advancesE)
qed

lemma pipe_result_moved:
  assumes "pumped src dst s t" "dpc s = D_end"
  shows "moved_all src dst (fst (pipe_result s cs) = FTP_OK) t"
proof -
  have "written_to dst t = read_from src t \<and> eof src t" if "write_err s = None" "reader_err (cpipe s) = 0" "\<not> cancelled s"
    using assms that copy_inv_end [of "read_from src t" "written_to dst t" s] by (auto simp: pumped_def at_eof_def broken_def)
  then show ?thesis using assms(1) by (auto simp: moved_all_def pipe_result_def pumped_def split: option.splits if_splits)
qed

lemma post_copy_transfer:
  assumes sat: "os_sat os posix" "cb_ok E"
    and Q: "\<And>y w e t. moved_all src dst (fst y = FTP_OK) t \<Longrightarrow> Q y (adv w e t st)"
  shows "post (copy_transfer os E src dst cs st) Q"
proof -
  let ?R = "\<lambda>y st'. dpc (fst y) = D_end \<and> advances (pumped src dst (fst y)) st st'"
  have loop: "post (copy_pipe_loop os E src dst copy_pipe_init c (adv w e [(Sys_reader_thread, r)] st)) ?R" for c w e r
    using copy_pipe_loop_spec [OF _ sat pumped_quiet [OF pumped_init]] by (auto intro!: postI simp: quiet_def)
  have later: "Q (err, b, c) (adv w e ((Sys_reader_thread, r) # t) st)"
    if "moved_all src dst (err = FTP_OK) t" for err b c w e r t
    by (rule Q) (use that moved_all_trans [of "[(Sys_reader_thread, r)]" dst src _ t] in \<open>simp add: neutral_Cons\<close>)
  have piped: "Q (err, b, c') st'"
    if "pipe_result s c = (err, c1)" "dpc s = D_end" "advances (pumped src dst s) st st'" for s c err c1 b c' st'
    using that(2,3) pipe_result_moved [of src dst s _ c] that(1) by (auto elim!: advancesE intro!: Q)
  show ?thesis unfolding copy_transfer_def Let_def
    by (cases "copy_malloc E cs"; cases "copy_malloc E (snd (copy_malloc E cs))")
      (auto intro!: wp post_mono [OF loop] post_serial_copy [OF sat] intro: Q later piped)
qed

section \<open>One file\<close>

definition cleanup_calls :: "ftp_error \<Rightarrow> int \<Rightarrow> int \<Rightarrow> string \<Rightarrow> syscall list" where
  "cleanup_calls err d s tmp =
    (if 0 \<le> d then [Sys_close d] else []) @ (if 0 \<le> s then [Sys_close s] else []) @
    (if err \<noteq> FTP_OK then [Sys_unlink tmp] else [])"

lemma post_copy_cleanup:
  assumes "\<And>cs' w e t. map fst t = cleanup_calls err d s tmp \<Longrightarrow> out_errno cs' = out_errno cs \<Longrightarrow> Q (err, cs') (adv w e t st)"
  shows "post (copy_cleanup os E err b d s tmp cs st) Q"
proof -
  have none: "Q (err, copy_free E b cs) st" if "err = FTP_OK" "d < 0" "s < 0"
    using that assms [of "[]" "copy_free E b cs" "world st" "errno st"] by (simp add: cleanup_calls_def copy_free_def)
  show ?thesis unfolding copy_cleanup_def close_if_def Let_def
    by (intro wp; (unfold adv_adv)?; (rule assms | rule none); simp add: cleanup_calls_def copy_free_def)
qed

text \<open>
  The calls of one copy: it opens the source for reading and the temporary file for writing,
  and commits the temporary file.  A copy is \<open>file_committed\<close> when all of the source was read and written before the
  rename; it is \<open>abandoned\<close> when nothing was renamed and the temporary file was unlinked.
\<close>

definition file_ev :: "string \<Rightarrow> string \<Rightarrow> string \<Rightarrow> event \<Rightarrow> bool" where
  "file_ev src dst tmp e \<longleftrightarrow>
    (case fst e of
       Sys_open p fl _ \<Rightarrow> p = src \<and> fl = [O_RDONLY] \<or> p = tmp \<and> fl = [O_WRONLY, O_CREAT, O_TRUNC, O_CLOEXEC]
     | Sys_rename p q \<Rightarrow> p = tmp \<and> q = dst
     | Sys_unlink p \<Rightarrow> p = tmp
     | _ \<Rightarrow> ev_paths e = [])"

definition renamed_into :: "string \<Rightarrow> string \<Rightarrow> int \<Rightarrow> event list \<Rightarrow> bool" where
  "renamed_into tmp dst fd t \<longleftrightarrow>
    (\<exists>p m b q c u. t = p @ (Sys_open tmp [O_WRONLY, O_CREAT, O_TRUNC, O_CLOEXEC] m, b) # q @ (Sys_rename tmp dst, c) # u \<and>
      0 \<le> r_ret b \<and> 0 \<le> r_ret c \<and> written_to (r_ret b) q = read_from fd q \<and> eof fd q \<and>
      list_all quiet p \<and> map fst u = [Sys_close (r_ret b), Sys_close fd])"

definition file_committed :: "string \<Rightarrow> string \<Rightarrow> event list \<Rightarrow> bool" where
  "file_committed src dst t \<longleftrightarrow>
    (\<exists>p a tmp q. t = p @ (Sys_open src [O_RDONLY] 0, a) # q \<and> list_all quiet p \<and> 0 \<le> r_ret a \<and>
      renamed_into tmp dst (r_ret a) q)"

definition abandoned :: "event list \<Rightarrow> bool" where
  "abandoned t \<longleftrightarrow>
    (\<forall>p q r. (Sys_rename p q, r) \<in> set t \<longrightarrow> r_ret r < 0) \<and>
    (\<forall>p m r. (Sys_open p [O_WRONLY, O_CREAT, O_TRUNC, O_CLOEXEC] m, r) \<in> set t \<longrightarrow> (\<exists>q. (Sys_unlink p, q) \<in> set t))"

text \<open>A descriptor may stay open only if there was not enough space.\<close>

definition no_space :: "ftp_error \<times> copy_state \<Rightarrow> bool" where
  "no_space y \<longleftrightarrow> fst y = FTP_ERR_FILE_WRITE \<and> out_errno (snd y) = ENOSPC"

lemma pathless_file_ev: "list_all (\<lambda>e. ev_paths e = []) t \<Longrightarrow> list_all (file_ev src dst tmp) t"
  by (induction t) (auto simp: file_ev_def split: syscall.splits)

lemma neutral_file:
  assumes "neutral t"
  shows "list_all (file_ev src dst tmp) t" "(Sys_rename p q, r) \<notin> set t" "(Sys_open p fl m, r) \<notin> set t"
  using assms by (auto simp: neutral_def intro!: pathless_file_ev) (auto simp: list_all_iff dest!: bspec)

lemma cleanup_facts:
  assumes "map fst t = cleanup_calls err d s tmp" "0 \<le> s"
  shows "bal h t = - of_bool (0 \<le> d \<and> h = Fd d) - of_bool (h = Fd s)" "list_all (file_ev src dst tmp) t"
    "(Sys_rename p q, r) \<notin> set t" "(Sys_open p fl m, r) \<notin> set t"
    "err \<noteq> FTP_OK \<Longrightarrow> \<exists>q. (Sys_unlink tmp, q) \<in> set t"
  using assms by (auto simp: cleanup_calls_def map_eq_Cons_conv file_ev_def split: if_splits)

definition opened_post :: "string \<Rightarrow> string \<Rightarrow> int \<Rightarrow> ftp_error \<times> copy_state \<Rightarrow> event list \<Rightarrow> bool" where
  "opened_post tmp dst fd y t \<longleftrightarrow> (\<forall>src. list_all (file_ev src dst tmp) t) \<and>
    (if fst y = FTP_OK then renamed_into tmp dst fd t else abandoned t) \<and>
    (no_space y \<or> (\<forall>h. bal h t = - of_bool (h = Fd fd)))"

lemma opened_failed:
  assumes "neutral t" "map fst u = cleanup_calls err (-1) fd tmp" "0 \<le> fd" "err \<noteq> FTP_OK" "r_ret b < 0"
  shows "opened_post tmp dst fd (err, cs) (t @ (Sys_open tmp [O_WRONLY, O_CREAT, O_TRUNC, O_CLOEXEC] m, b) # u)"
  using assms neutral_file [OF assms(1)] cleanup_facts [OF assms(2,3)] neutralD(1) [OF assms(1)]
  by (auto simp: opened_post_def abandoned_def file_ev_def)

lemma opened_broken:
  assumes "neutral t" "neutral v" "map fst u = cleanup_calls err (r_ret b) fd tmp" "0 \<le> fd" "err \<noteq> FTP_OK" "0 \<le> r_ret b"
    and "x = [] \<or> (\<exists>c. x = [(Sys_rename tmp dst, c)] \<and> r_ret c < 0)"
  shows "opened_post tmp dst fd (err, cs) (t @ (Sys_open tmp [O_WRONLY, O_CREAT, O_TRUNC, O_CLOEXEC] m, b) # v @ x @ u)"
  using assms neutral_file [OF assms(1)] neutral_file [OF assms(2)] cleanup_facts [OF assms(3,4)]
    neutralD(1) [OF assms(1)] neutralD(1) [OF assms(2)]
  by (auto simp: opened_post_def abandoned_def file_ev_def)

lemma opened_committed:
  assumes "list_all quiet t" "moved_all fd (r_ret b) True v" "list_all quiet x" "0 \<le> r_ret b" "0 \<le> r_ret c" "0 \<le> fd"
    and "map fst u = cleanup_calls FTP_OK (r_ret b) fd tmp"
  shows "opened_post tmp dst fd (FTP_OK, cs)
    (t @ (Sys_open tmp [O_WRONLY, O_CREAT, O_TRUNC, O_CLOEXEC] m, b) # v @ x @ (Sys_rename tmp dst, c) # u)"
proof -
  have n: "neutral t" "neutral (v @ x)"
    using assms(1-3) by (auto simp: moved_all_def neutral_append quiet_neutral)
  have "written_to (r_ret b) (v @ x) = read_from fd (v @ x)" "eof fd (v @ x)"
    using assms(2,3) quiet_moves [OF assms(3), of "r_ret b"] touchesD(6) [OF quiet_touches [OF assms(3)], of fd]
    by (auto simp: moved_all_def eof_append)
  then have "renamed_into tmp dst fd (t @ (Sys_open tmp [O_WRONLY, O_CREAT, O_TRUNC, O_CLOEXEC] m, b) # (v @ x) @ (Sys_rename tmp dst, c) # u)"
    unfolding renamed_into_def using assms(1,4-7)
    by - (rule exI [of _ t], rule exI [of _ m], rule exI [of _ b], rule exI [of _ "v @ x"], rule exI [of _ c], rule exI [of _ u],
        simp add: cleanup_calls_def)
  then show ?thesis
    using neutral_file [OF n(1)] neutral_file [OF n(2)] cleanup_facts [OF assms(7,6)] neutralD(1) [OF n(1)] neutralD(1) [OF n(2)] assms(4)
    by (auto simp: opened_post_def file_ev_def)
qed

lemma post_copy_no_space:
  assumes "\<And>b w e t. list_all quiet t \<Longrightarrow> Q b (adv w e t st)"
  shows "post (copy_no_space os dst s st) Q"
  using assms [of "[]" _ "world st" "errno st"] unfolding copy_no_space_def
  by (intro wp) (simp_all add: assms quiet_def)

lemma post_copy_opened:
  assumes sat: "os_sat os posix" "cb_ok E" "0 \<le> fd"
  shows "post (copy_opened os E tmp dst fd s cs st) (\<lambda>y. advances (opened_post tmp dst fd y) st)"
  unfolding copy_opened_def copy_finish_def
  apply (intro post_copy_transfer [OF sat(1,2)] post_copy_cleanup post_copy_no_space wp)
  apply (simp_all add: sat(3))
  subgoal for r b wa e t
    by (rule advancesI) (use neutral_file [of "(Sys_fadvise fd, r) # t"] in
      \<open>auto simp: opened_post_def no_space_def abandoned_def quiet_neutral neutral_Cons\<close>)
  subgoal for r b t ra cs' wa ea ta
    using opened_failed [of "(Sys_fadvise fd, r) # t" ta _ fd tmp ra] sat(3)
    by (auto simp: neutral_Cons quiet_neutral split: if_splits intro!: advancesI)
  subgoal for r b t ra y ta err ba copy_buf cs cs' wg eb tb
    by (rule advancesI) (use opened_broken [of "(Sys_fadvise fd, r) # t" ta tb err ra fd tmp "[]"] sat(3) in
      \<open>auto simp: neutral_Cons quiet_neutral moved_all_def\<close>)
  subgoal for r b t ra y ta err ba copy_buf cs rb rc rd cs' wg eb tb
    by (rule advancesI) (use opened_broken [of "(Sys_fadvise fd, r) # t" "ta @ [(Sys_fadvise fd, rb), (Sys_fadvise (r_ret ra), rc)]"
        tb FTP_ERR_FILE_WRITE ra fd tmp "[(Sys_rename tmp dst, rd)]" dst] sat(3) in
      \<open>auto simp: neutral_Cons neutral_append quiet_neutral moved_all_def\<close>)
  subgoal for r b t ra y ta err ba copy_buf cs rb rc rd cs' wg eb tb
    by (rule advancesI) (use opened_committed [of "(Sys_fadvise fd, r) # t" fd ra ta
        "[(Sys_fadvise fd, rb), (Sys_fadvise (r_ret ra), rc)]" rd tb tmp dst] sat(3) in \<open>auto simp: quiet_def\<close>)
  done

definition copied_post :: "string \<Rightarrow> string \<Rightarrow> ftp_error \<times> copy_state \<Rightarrow> event list \<Rightarrow> bool" where
  "copied_post src dst y t \<longleftrightarrow> (\<exists>pid n. list_all (file_ev src dst (copy_tmp_path dst pid n)) t) \<and>
    (if fst y = FTP_OK then file_committed src dst t else abandoned t) \<and>
    (no_space y \<or> (\<forall>h. bal h t = 0))"

lemma copied_early: "neutral t \<Longrightarrow> err \<noteq> FTP_OK \<Longrightarrow> copied_post src dst (err, cs) t"
  using neutral_file [of t] neutralD(1) [of t] by (auto simp: copied_post_def abandoned_def)

lemma copied_postI:
  assumes "list_all (file_ev src dst (copy_tmp_path dst pid n)) t" "fst y = FTP_OK \<Longrightarrow> file_committed src dst t"
    "fst y \<noteq> FTP_OK \<Longrightarrow> abandoned t" "no_space y \<or> (\<forall>h. bal h t = 0)"
  shows "copied_post src dst y t"
  using assms unfolding copied_post_def by auto

lemma copied_unopened:
  assumes "neutral t" "r_ret a < 0" "map fst u = cleanup_calls err (-1) (r_ret a) (copy_tmp_path dst pid n)" "err \<noteq> FTP_OK"
  shows "copied_post src dst (err, cs) (t @ (Sys_open src [O_RDONLY] 0, a) # u)"
  using assms neutral_file [OF assms(1)] neutralD(1) [OF assms(1)]
  by (intro copied_postI [of _ _ pid n]) (auto simp: abandoned_def cleanup_calls_def file_ev_def map_eq_Cons_conv)

lemma copied_opened:
  assumes "list_all quiet t" "0 \<le> r_ret a" "opened_post (copy_tmp_path dst pid n) dst (r_ret a) y u"
  shows "copied_post src dst y (t @ (Sys_open src [O_RDONLY] 0, a) # u)"
proof -
  have n: "neutral t" using assms(1) by (rule quiet_neutral)
  have "file_committed src dst (t @ (Sys_open src [O_RDONLY] 0, a) # u)" if "fst y = FTP_OK"
    unfolding file_committed_def using assms that
    by - (rule exI [of _ t], rule exI [of _ a], rule exI [of _ "copy_tmp_path dst pid n"], rule exI [of _ u],
        simp add: opened_post_def)
  moreover have "abandoned (t @ (Sys_open src [O_RDONLY] 0, a) # u)" if "fst y \<noteq> FTP_OK"
    using assms(3) that neutral_file [OF n] by (simp add: opened_post_def abandoned_def) blast
  ultimately show ?thesis
    using assms neutral_file [OF n] neutralD(1) [OF n]
    by (intro copied_postI [of _ _ pid n]) (auto simp: opened_post_def file_ev_def)
qed

lemma open_err_neq [simp]: "open_err e \<noteq> FTP_OK"
  by (simp add: open_err_def)

lemma post_copy_atomic:
  assumes sat: "os_sat os posix" "cb_ok E"
  shows "post (pal_file_copy_atomic_ex os E src dst cs st) (\<lambda>y. advances (copied_post src dst y) st)"
  unfolding pal_file_copy_atomic_ex_def Let_def
  apply (intro post_copy_cleanup post_mono [OF post_copy_opened [OF sat]] wp)
  subgoal by (auto intro!: advancesI copied_early simp: neutral_Cons)
  subgoal by (auto intro!: advancesI copied_early simp: neutral_Cons)
  subgoal by (auto intro!: advancesI copied_early simp: neutral_Cons)
  subgoal for s w p wa r wb cs' wc e t
    using copied_unopened [of "[(Sys_stat src, s), (Sys_getpid, p)]" r t "open_err (r_errno r)" dst "nat (r_ret p)" "unat (tmp_counter cs)" src cs']
    by (auto intro!: advancesI simp: neutral_Cons)
  subgoal by simp
  subgoal for s w p wa r wb y st'
    using copied_opened [of "[(Sys_stat src, s), (Sys_getpid, p)]" r dst "nat (r_ret p)" "unat (tmp_counter cs)" y _ src]
    by (auto elim!: advances_adv simp: quiet_def)
  done

section \<open>Trees\<close>

text \<open>
  \<open>in_tree p q\<close>: \<open>q\<close> is \<open>p\<close> or reached from it by names of directory entries.  \<open>tmp_in p q\<close>: \<open>q\<close> is the temporary name of
  a path of the tree.
\<close>

definition child_name :: "string \<Rightarrow> bool" where
  "child_name n \<longleftrightarrow> SLASH \<notin> set n \<and> n \<noteq> ''..''"

inductive in_tree :: "string \<Rightarrow> string \<Rightarrow> bool" where
  top: "in_tree p p"
| child: "in_tree p q \<Longrightarrow> child_name n \<Longrightarrow> in_tree p (q @ ''/'' @ n)"

definition tmp_in :: "string \<Rightarrow> string \<Rightarrow> bool" where
  "tmp_in p q \<longleftrightarrow> (\<exists>d pid n. in_tree p d \<and> q = copy_tmp_path d pid n)"

text \<open>
  What a copy of a tree may do: read in the source, create, replace and remove in the destination, and
  remove in the source only if it is a move.
\<close>

definition tree_ev :: "bool \<Rightarrow> string \<Rightarrow> string \<Rightarrow> event \<Rightarrow> bool" where
  "tree_ev keep_src src dst e \<longleftrightarrow>
    (case fst e of
       Sys_open p fl _ \<Rightarrow> in_tree src p \<and> fl = [O_RDONLY] \<or> tmp_in dst p
     | Sys_opendir p \<Rightarrow> in_tree src p \<or> in_tree dst p
     | Sys_mkdir p _ \<Rightarrow> in_tree dst p
     | Sys_rename p q \<Rightarrow> tmp_in dst p \<and> in_tree dst q
     | Sys_unlink p \<Rightarrow> tmp_in dst p \<or> in_tree dst p \<or> \<not> keep_src \<and> in_tree src p
     | Sys_rmdir p \<Rightarrow> in_tree dst p \<or> \<not> keep_src \<and> in_tree src p
     | _ \<Rightarrow> ev_paths e = [])"

lemma in_tree_trans: "in_tree q r \<Longrightarrow> in_tree p q \<Longrightarrow> in_tree p r"
  by (induction rule: in_tree.induct) (auto intro: in_tree.intros simp del: append_Cons)

lemma tree_ev_mono:
  assumes "tree_ev k src' dst' e" "in_tree src src'" "in_tree dst dst'"
  shows "tree_ev k src dst e"
proof -
  have s: "in_tree src p" if "in_tree src' p" for p using in_tree_trans [OF that assms(2)] .
  have d: "in_tree dst p" if "in_tree dst' p" for p using in_tree_trans [OF that assms(3)] .
  then have "tmp_in dst p" if "tmp_in dst' p" for p using that unfolding tmp_in_def by blast
  with s d show ?thesis using assms(1) by (cases "fst e") (auto simp: tree_ev_def)
qed

lemma file_tree_ev:
  assumes "file_ev src dst (copy_tmp_path dst pid n) e"
  shows "tree_ev k src dst e"
  using assms by (cases e) (auto simp: file_ev_def tree_ev_def tmp_in_def intro: in_tree.top split: syscall.splits)

lemma pathless_tree_ev: "ev_paths e = [] \<Longrightarrow> tree_ev k src dst e"
  by (cases e) (auto simp: tree_ev_def split: syscall.splits)

text \<open>The result of working on a tree.\<close>

definition tree_post :: "bool \<Rightarrow> string \<Rightarrow> string \<Rightarrow> ftp_error \<times> copy_state \<Rightarrow> event list \<Rightarrow> bool" where
  "tree_post keep_src src dst y t \<longleftrightarrow> list_all (tree_ev keep_src src dst) t \<and> (no_space y \<or> (\<forall>h. bal h t = 0))"
lemma each_entry_spec:
  assumes ret: "each_entry os dir action cs st = Some (y, st')" and sat: "os_sat os posix"
    and step: "\<And>name cs st. child_name name \<Longrightarrow> post (action name cs st) (\<lambda>y. advances (P y) st)"
    and join: "\<And>cs y t u. P (FTP_OK, cs) t \<Longrightarrow> P y u \<Longrightarrow> P y (t @ u)"
    and read: "\<And>cs r. P (FTP_OK, cs) [(Sys_readdir dir, r)]"
  shows "advances (P y) st st'"
proof -
  let ?A = "\<lambda>os dir action. os_sat os posix \<and> (\<forall>name cs st. child_name name \<longrightarrow> post (action name cs st) (\<lambda>y. advances (P y) st)) \<and>
    (\<forall>cs r. P (FTP_OK, cs) [(Sys_readdir dir, r)])"
  let ?P = "\<lambda>os dir action cs st y. ?A os dir action \<longrightarrow> advances (P (fst y)) st (snd y)"
  have "?P os dir action cs st (y, st')"
  proof (rule each_entry.raw_induct [where P = ?P, OF _ ret], rule impI, goal_cases)
    case (1 loop os dir action cs st y)
    have sat: "os_sat os posix" and step: "\<And>name cs st. child_name name \<Longrightarrow> post (action name cs st) (\<lambda>y. advances (P y) st)"
      and read: "\<And>cs r. P (FTP_OK, cs) [(Sys_readdir dir, r)]" using 1(3) by auto
    have IH: "post (loop os dir action cs st) (\<lambda>y. advances (P y) st)" for cs st
      using 1(1,3) by (fastforce simp: post_def)
    have more: "advances (P y) (adv w e [(Sys_readdir dir, r)] st) st'' \<Longrightarrow> advances (P y) st st''" for y w e r st st''
      by (erule advances_adv) (rule join [OF read])
    have child_name: "child_name (cstring (r_str r))" if "posix (Sys_readdir dir) r" "\<not> r_ret r < 0" "cstring (r_str r) \<noteq> ''..''" for r
      using that by (auto simp: child_name_def posix_def cstring_def dest: set_takeWhileD)
    have "post (Some y) (\<lambda>y. advances (P y) st)"
      unfolding 1(2) [symmetric] Let_def
      apply (intro post_syscall_sat [OF sat] wp)
      subgoal by (rule advancesI) (rule read)
      subgoal by (rule post_mono [OF IH]) (rule more)
      subgoal for r w
        apply (rule post_mono [OF step])
        subgoal using child_name by auto
        subgoal for y s
          apply (drule more)
          apply (erule advancesE)
          apply (cases y)
          apply (auto intro!: wp advancesI post_mono [OF IH] join elim!: advances_adv)
          done
        done
      done
    then show ?case by (cases y) (simp add: post_def)
  qed
  then show ?thesis using sat step read by simp
qed

lemma tree_post_join:
  "tree_post k src dst (FTP_OK, cs) t \<Longrightarrow> tree_post k src dst y u \<Longrightarrow> tree_post k src dst y (t @ u)"
  by (auto simp: tree_post_def no_space_def)

lemma tree_post_mono:
  "tree_post k src' dst' y t \<Longrightarrow> in_tree src src' \<Longrightarrow> in_tree dst dst' \<Longrightarrow> tree_post k src dst y t"
  by (auto simp: tree_post_def list_all_iff intro: tree_ev_mono)

lemma tree_post_neutral: "neutral t \<Longrightarrow> tree_post k src dst y t"
  by (auto simp: tree_post_def neutral_def list_all_iff pathless_tree_ev)

lemma tree_post_call: "tree_ev k src dst e \<Longrightarrow> (\<And>h. ev_bal h e = 0) \<Longrightarrow> tree_post k src dst y [e]"
  by (simp add: tree_post_def)

lemma tree_ev_simps [simp]:
  "tree_ev k src dst (Sys_opendir p, r) \<longleftrightarrow> in_tree src p \<or> in_tree dst p"
  "tree_ev k src dst (Sys_mkdir p m, r) \<longleftrightarrow> in_tree dst p"
  "tree_ev k src dst (Sys_unlink p, r) \<longleftrightarrow> tmp_in dst p \<or> in_tree dst p \<or> \<not> k \<and> in_tree src p"
  "tree_ev k src dst (Sys_rmdir p, r) \<longleftrightarrow> in_tree dst p \<or> \<not> k \<and> in_tree src p"
  "tree_ev k src dst (Sys_stat p, r)" "tree_ev k src dst (Sys_readdir d, r)" "tree_ev k src dst (Sys_closedir d, r)"
  by (simp_all add: tree_ev_def)

text \<open>Removal of a tree stays in it and closes what it opens.\<close>

definition removed :: "string \<Rightarrow> event list \<Rightarrow> bool" where
  "removed path t \<longleftrightarrow> (\<forall>k src. list_all (tree_ev k src path) t) \<and> (\<forall>h. bal h t = 0)"

lemma removed_append: "removed p t \<Longrightarrow> removed p u \<Longrightarrow> removed p (t @ u)"
  by (simp add: removed_def)

lemma in_tree_child: "in_tree p q \<Longrightarrow> child_name n \<Longrightarrow> in_tree p (q @ SLASH # n)"
  using in_tree.child [of p q n] by simp

lemma removed_child:
  assumes "removed (path @ SLASH # name) t" "child_name name"
  shows "removed path t"
  using assms(1) tree_ev_mono [OF _ in_tree.top in_tree_child [OF in_tree.top assms(2)]]
  by (simp add: removed_def list_all_iff)

lemma post_dir_remove:
  assumes sat: "os_sat os posix"
  shows "post (pal_dir_remove_recursive k os path st) (\<lambda>_. advances (removed path) st)"
proof (induction k arbitrary: path st)
  case 0
  then show ?case by (auto intro!: wp advances_refl simp: removed_def)
next
  case (Suc k)
  have entry: "post (remove_entry (pal_dir_remove_recursive k) os path name st) (\<lambda>_. advances (removed path) st)"
    if "child_name name" for name st
    unfolding remove_entry_def Let_def
    apply (intro post_mono [OF Suc.IH] wp)
    apply simp_all
    subgoal by (rule advances_refl) (simp add: removed_def)
    subgoal by (rule advancesI) (simp add: removed_def)
    subgoal by (erule advances_adv) (rule removed_append, simp add: removed_def, erule removed_child, rule that)
    subgoal by (auto intro!: advancesI simp: removed_def in_tree_child in_tree.top that)
    done
  let ?f = "\<lambda>name (_ :: unit) st. do { (err, st) \<leftarrow> remove_entry (pal_dir_remove_recursive k) os path name st; Some ((err, ()), st) }"
  have "post (each_entry os d ?f () st) (\<lambda>_. advances (removed path) st)" for d st
    by (rule postI, rule each_entry_spec [OF _ sat, where P = "\<lambda>_. removed path"])
      (auto intro!: wp post_mono [OF entry] removed_append, simp add: removed_def)
  note entries = post_mono [OF this]
  show ?case unfolding pal_dir_remove_recursive.simps
    by (intro entries wp) (auto intro!: advancesI elim!: advancesE simp: removed_def in_tree.top)
qed

lemma tree_post_removed: "removed dst t \<Longrightarrow> tree_post k src dst y t"
  by (simp add: removed_def tree_post_def)

lemma copied_tree: "copied_post src dst y t \<Longrightarrow> tree_post k src dst y t"
  by (auto simp: copied_post_def tree_post_def list_all_iff intro: file_tree_ev)

lemma no_space_OK [simp]: "\<not> no_space (FTP_OK, cs)"
  by (simp add: no_space_def)

lemma tree_post_later:
  assumes "tree_post k src dst (FTP_OK, cs) t" "removed dst u \<or> \<not> k \<and> (\<exists>c r. u = [(c, r)] \<and> (c = Sys_unlink src \<or> c = Sys_rmdir src))"
  shows "tree_post k src dst y (t @ u)"
  using assms by (auto simp: tree_post_def removed_def in_tree.top)

lemma post_copy_leaf:
  assumes sat: "os_sat os posix" "cb_ok E"
  shows "post (copy_leaf os E k src dst cs st) (\<lambda>y. advances (tree_post k src dst y) st)"
proof -
  have "post (pal_file_copy_atomic_ex os E src dst cs st) (\<lambda>y. advances (tree_post k src dst y) st)"
    by (rule post_mono [OF post_copy_atomic [OF sat]]) (auto elim!: advancesE intro!: advancesI copied_tree)
  note atomic = post_mono [OF this]
  show ?thesis unfolding copy_leaf_def
    by (intro atomic wp) (auto elim!: advancesE intro!: advancesI tree_post_later)
qed

definition dir_ended :: "bool \<Rightarrow> string \<Rightarrow> string \<Rightarrow> event list \<Rightarrow> bool" where
  "dir_ended k src dst t \<longleftrightarrow> removed dst t \<or> \<not> k \<and> (\<exists>r. t = [(Sys_rmdir src, r)])"

lemma removed_Nil [simp]: "removed p []"
  by (simp add: removed_def)

lemma post_copy_dir_end:
  assumes sat: "os_sat os posix"
    and Q: "\<And>y w e t. dir_ended k src dst t \<Longrightarrow> (err \<noteq> FTP_OK \<Longrightarrow> y = (err, cs)) \<Longrightarrow> Q y (adv w e t st)"
  shows "post (copy_dir_end os k created src dst err cs st) Q"
proof -
  have none: "Q (err, cs) st"
    using Q [of "[]" "(err, cs)" "world st" "errno st"] by (simp add: dir_ended_def)
  show ?thesis unfolding copy_dir_end_def
    by (intro wp post_mono [OF post_dir_remove [OF sat]])
      (use none in \<open>auto elim!: advancesE intro!: Q simp: dir_ended_def\<close>)
qed

lemma tree_dir:
  assumes "tree_post k src dst (err, cs) t" "dir_ended k src dst u" "err \<noteq> FTP_OK \<Longrightarrow> y = (err, cs)" "0 \<le> r_ret d"
  shows "tree_post k src dst y ((Sys_stat src, a) # (Sys_mkdir dst m, b) # (Sys_opendir src, d) # t @ (Sys_closedir (r_ret d), c) # u)"
  using assms by (cases "err = FTP_OK") (auto simp: tree_post_def dir_ended_def removed_def in_tree.top)

lemma post_copy_tree:
  assumes sat: "os_sat os posix" "cb_ok E"
  shows "post (pal_copy_cross_device_r_ex n os E k src dst cs st) (\<lambda>y. advances (tree_post k src dst y) st)"
proof (induction n arbitrary: src dst cs st)
  case 0
  then show ?case by (auto intro!: wp advances_refl tree_post_neutral)
next
  case (Suc n)
  let ?f = "\<lambda>name cs st.
    if length (src @ ''/'' @ name) \<ge> FTP_PATH_MAX \<or> length (dst @ ''/'' @ name) \<ge> FTP_PATH_MAX
    then Some ((FTP_ERR_PATH_TOO_LONG, cs), st)
    else pal_copy_cross_device_r_ex n os E k (src @ ''/'' @ name) (dst @ ''/'' @ name) cs st"
  have entry: "post (?f name cs st) (\<lambda>y. advances (tree_post k src dst y) st)" if "child_name name" for name cs st
  proof -
    have "in_tree p (p @ ''/'' @ name)" for p by (rule in_tree.child [OF in_tree.top that])
    then have "tree_post k (src @ ''/'' @ name) (dst @ ''/'' @ name) y t \<Longrightarrow> tree_post k src dst y t" for y t
      by (blast intro: tree_post_mono)
    then show ?thesis
      by (intro wp post_mono [OF Suc.IH] advances_refl tree_post_neutral neutral_Nil) (auto elim!: advancesE intro!: advancesI)
  qed
  have "post (each_entry os d ?f cs st) (\<lambda>y. advances (tree_post k src dst y) st)" for d cs st
    apply (rule postI, erule each_entry_spec [OF _ sat(1), where P = "tree_post k src dst"])
    subgoal by (rule entry)
    subgoal by (rule tree_post_join)
    subgoal by (simp add: tree_post_neutral neutral_Cons)
    done
  note entries = post_mono [OF this]
  note leaf = post_mono [OF post_copy_leaf [OF sat]]
  show ?case unfolding pal_copy_cross_device_r_ex.simps Let_def
    apply (intro entries leaf post_copy_dir_end [OF sat(1)] wp)
    apply simp_all
    subgoal by (auto intro!: advancesI simp: tree_post_def)
    subgoal for r by (erule advances_adv) (use tree_post_join [of k src dst _ "[(Sys_stat src, r)]"] in \<open>simp add: tree_post_def\<close>)
    subgoal by (auto intro!: advancesI simp: tree_post_def)
    subgoal by (auto intro!: advancesI simp: tree_post_def in_tree.top)
    subgoal by (auto intro!: advancesI simp: tree_post_def in_tree.top)
    subgoal by (auto intro!: advancesI simp: tree_post_def in_tree.top)
    subgoal by (erule advancesE) (auto intro!: advancesI tree_dir)
    done
qed

section \<open>Confinement\<close>

definition copy_inside :: "string \<Rightarrow> event \<Rightarrow> bool" where
  "copy_inside root e \<longleftrightarrow>
    (\<forall>p \<in> set (ev_paths e). confined root p \<or> (\<exists>pid n. p = copy_tmp_path root pid n))"

lemma entry_components: "child_name n \<Longrightarrow> ''..'' \<notin> set (path_components n)"
  by (auto simp: child_name_def path_components_def split_on_single)

lemma confined_child:
  assumes "confined root p" "child_name n"
  shows "confined root (p @ ''/'' @ n)"
proof -
  have in_root: "ftp_path_is_within_root p root = 1" and nd: "no_dotdot p" using assms(1) by (auto simp: confined_def)
  have hd: "take 1 p = ''/''" "take 1 root = ''/''" using in_root by (auto simp: ftp_path_is_within_root_def split: if_splits)
  have "ftp_path_is_within_root (p @ SLASH # n) root = 1"
  proof (cases "length root = 1")
    case True
    then show ?thesis using hd by (cases p) (auto simp: ftp_path_is_within_root_def)
  next
    case False
    from within_root_split [OF in_root this] show ?thesis
      by cases (use within_root_extend [OF hd(2)] in auto)
  qed
  then show ?thesis
    using nd entry_components [OF assms(2)] by (auto simp: confined_def no_dotdot_def path_components_append_sep)
qed

lemma in_tree_confined: "in_tree p q \<Longrightarrow> confined root p \<Longrightarrow> confined root q"
  by (induction rule: in_tree.induct) (simp_all only: confined_child)

lemma tmp_child_name: "child_name (''.zftpd.'' @ show_nat pid @ ''.'' @ show_nat n @ ''.tmp'')"
proof -
  have "SLASH \<notin> set (show_nat k)" for k
    using show_nat_digits [of k] by (auto simp: list_all_iff isdigit_def char_code_def dest!: bspec)
  then show ?thesis by (auto simp: child_name_def)
qed

lemma tmp_in_confined:
  assumes "tmp_in dst p" "confined root dst"
  shows "confined root p \<or> (\<exists>pid n. p = copy_tmp_path root pid n)"
proof -
  obtain d pid n where d: "in_tree dst d" "p = copy_tmp_path d pid n" using assms(1) unfolding tmp_in_def by blast
  have c: "confined root d" using in_tree_confined [OF d(1) assms(2)] .
  show ?thesis
  proof (cases "d = root")
    case False
    then show ?thesis
      using sibling_inside [OF c False entry_components [OF tmp_child_name]] confined_slash [OF c] d(2)
      by (simp add: copy_tmp_path_def)
  qed (use d in blast)
qed

lemma tree_ev_inside: "tree_ev k src dst e \<Longrightarrow> confined root src \<Longrightarrow> confined root dst \<Longrightarrow> copy_inside root e"
  by (cases e)
    (auto simp: tree_ev_def copy_inside_def dest: in_tree_confined tmp_in_confined split: syscall.splits)

text \<open>The paths that a call creates, replaces or removes.\<close>

fun ev_changes :: "event \<Rightarrow> string list" where
  "ev_changes (c, r) =
    (case c of
       Sys_open p fl _ \<Rightarrow> if fl = [O_RDONLY] then [] else [p]
     | Sys_unlink p \<Rightarrow> [p] | Sys_rmdir p \<Rightarrow> [p] | Sys_mkdir p _ \<Rightarrow> [p] | Sys_rename p q \<Rightarrow> [p, q]
     | _ \<Rightarrow> [])"

lemma tree_ev_changes: "tree_ev True src dst e \<Longrightarrow> p \<in> set (ev_changes e) \<Longrightarrow> in_tree dst p \<or> tmp_in dst p"
  by (cases e) (auto simp: tree_ev_def split: syscall.splits if_splits)

lemma cb_ok_none [simp]: "cb_ok (E\<lparr>env_cb := None\<rparr>)"
  by (simp add: cb_ok_def)

section \<open>Properties\<close>

text \<open>
  C5: a copy of a file is all or nothing.  If it succeeds, everything up to the end of the source was read
  and written to a temporary file in the same order before that file was renamed to the destination, whether one
  thread copied or two.  If it fails, nothing was renamed and the temporary file was unlinked.
  Both descriptors are closed, unless the check for free space failed.
\<close>

theorem copy_atomic_all_or_nothing:
  assumes "os_sat os posix" "cb_ok E" "pal_file_copy_atomic_ex os E src dst cs st = Some ((err, cs'), st')"
  shows "\<exists>t. trace st' = trace st @ t \<and> (if err = FTP_OK then file_committed src dst t else abandoned t) \<and>
    ((\<forall>h. bal h t = 0) \<or> err = FTP_ERR_FILE_WRITE \<and> out_errno cs' = ENOSPC)"
  using postD [OF post_copy_atomic [OF assms(1,2)] assms(3)]
  by (elim advancesE) (auto simp: copied_post_def no_space_def simp del: if_split_asm)

text \<open>
  C6: the background thread of a copy or a move stays inside the root of the session, whatever the directories
  contain, if its source and its destination do.  The one exception is a temporary file next
  to the root when the destination is the root itself.
\<close>

theorem copy_thread_confined:
  assumes "os_sat os posix" "confined root src" "confined root dst"
    and "ftp_copy_thread_func os E src dst is_move cs st = Some (y, st')"
  shows "\<exists>t. trace st' = trace st @ t \<and> list_all (copy_inside root) t \<and>
    ((\<forall>h. bal h t = 0) \<or> fst y = FTP_ERR_FILE_WRITE \<and> out_errno (snd y) = ENOSPC) \<and> \<not> copy_in_progress (sess st')"
proof -
  have "post (ftp_copy_thread_func os E src dst is_move cs st) (\<lambda>y st'.
      (\<exists>t. trace st' = trace st @ t \<and> tree_post (\<not> is_move) src dst y t) \<and> \<not> copy_in_progress (sess st'))"
    unfolding ftp_copy_thread_func_def pal_file_copy_recursive_ex_def
    by (intro wp post_mono [OF post_copy_tree [OF assms(1) cb_ok_none]]) (auto elim!: advancesE)
  from postD [OF this assms(4)] show ?thesis
    by (auto simp: tree_post_def no_space_def list_all_iff intro: tree_ev_inside [OF _ assms(2,3)])
qed

text \<open>
  C13: a copy changes nothing but its destination.  Every path it creates, replaces or removes is in the
  tree of the destination or is the temporary name of such a path; this covers the roll-back after a failure.
\<close>

theorem copy_changes_destination_only:
  assumes "os_sat os posix" "cb_ok E" "pal_file_copy_recursive_ex os E src dst True cs st = Some (y, st')"
  shows "\<exists>t. trace st' = trace st @ t \<and> (\<forall>e \<in> set t. \<forall>p \<in> set (ev_changes e). in_tree dst p \<or> tmp_in dst p)"
  using postD [OF post_copy_tree [OF assms(1,2)] assms(3) [unfolded pal_file_copy_recursive_ex_def]]
  by (elim advancesE) (auto simp: tree_post_def list_all_iff simp del: ev_changes.simps dest: tree_ev_changes)

section \<open>Runs\<close>

definition stat_res :: "32 word \<Rightarrow> sysres" where
  "stat_res m = (io_res 0)\<lparr>r_stat := \<lparr>st_mode = m, st_size = 2, st_mtime = 0\<rparr>\<rparr>"

definition entry_res :: "string \<Rightarrow> sysres" where
  "entry_res n = (io_res 0)\<lparr>r_str := n\<rparr>"

text \<open>
  The answers to the copy of one file of two bytes.  The default arena is all free and nobody else uses it, so
  there is no second buffer and one thread copies.
\<close>

definition file_script :: "sysres list" where
  "file_script = [stat_res S_IFREG, io_res 7, io_res 5, io_res 0, io_res (-1), io_res 6,
     (io_res 2)\<lparr>r_data := [1, 2]\<rparr>, io_res 2, io_res 0, io_res 0, io_res 0, io_res 0, io_res 0, io_res 0]"

definition file_calls :: "syscall list" where
  "file_calls = [Sys_stat ''/srv/d/a'', Sys_getpid, Sys_open ''/srv/d/a'' [O_RDONLY] 0, Sys_fadvise 5,
     Sys_statvfs ''/srv/m'', Sys_open ''/srv/m/.zftpd.7.0.tmp'' [O_WRONLY, O_CREAT, O_TRUNC, O_CLOEXEC] 0,
     Sys_read 5 PAL_FILE_COPY_BUFFER_SIZE, Sys_write 6 [1, 2], Sys_read 5 PAL_FILE_COPY_BUFFER_SIZE, Sys_fadvise 5, Sys_fadvise 6,
     Sys_rename ''/srv/m/.zftpd.7.0.tmp'' ''/srv/m/a'', Sys_close 6, Sys_close 5]"

definition demo_env :: "sysres list copy_env" where
  "demo_env = \<lparr>env_buf = 4096, env_others = id, env_cb = None\<rparr>"

definition demo_copy :: copy_state where
  "demo_copy = \<lparr>heap = demo_arena, tmp_counter = 0, cumulative = 0, out_errno = 0\<rparr>"

definition arena_free :: "pal_allocator \<Rightarrow> bool" where
  "arena_free a \<longleftrightarrow> initialized a \<and> base a = 4096 \<and> max_order a = 23 \<and> arena a = 8388608 \<and> free_lists a = (\<lambda>_. [])(18 := [0])"

definition arena_taken :: "pal_allocator \<Rightarrow> bool" where
  "arena_taken a \<longleftrightarrow> initialized a \<and> base a = 4096 \<and> max_order a = 23 \<and> arena a = 8388608 \<and> free_lists a = (\<lambda>_. []) \<and>
    hdr_mem a 4096 = \<lparr>magic = PAL_ALLOC_MAGIC, order = 23, used = True\<rparr>"

lemma demo_arena_free: "arena_free demo_arena"
  using demo_arena_init default_init [of 4096 blank_allocator] by (auto simp: arena_free_def)

lemma malloc_free_arena:
  assumes "arena_free a"
  shows "\<exists>a'. pal_malloc 4096 4194304 a = (4112, a') \<and> arena_taken a'"
proof -
  have "alloc_locked 4194304 a = (4112, set_hdr 0 23 True (a\<lparr>free_lists := (\<lambda>_. [])\<rparr>))"
    using assms ceil_copy_buffer by (simp add: arena_free_def alloc_locked_def HDR_SIZE_def Let_def pop_from.simps [of 23]
      list_pop_def list_idx_def block_ptr_def fun_upd_idem)
  then show ?thesis
    using assms by (simp add: arena_free_def arena_taken_def pal_malloc_def with_default_def pal_allocator_malloc_def
      set_hdr_def block_ptr_def)
qed

lemma malloc_taken_arena:
  assumes "arena_taken a"
  shows "\<exists>a'. pal_malloc 4096 4194304 a = (0, a') \<and> arena_taken a'"
proof -
  have "alloc_locked 4194304 a = (0, a)"
    using assms ceil_copy_buffer by (simp add: arena_taken_def alloc_locked_def HDR_SIZE_def Let_def pop_from.simps [of 23]
      pop_from.simps [of 24] list_pop_def)
  then show ?thesis
    using assms by (simp add: arena_taken_def pal_malloc_def with_default_def pal_allocator_malloc_def)
qed

lemma free_taken_arena: "arena_taken a \<Longrightarrow> arena_free (pal_free 4112 a)"
  by (simp add: arena_taken_def arena_free_def pal_free_def pal_allocator_free_def free_locked_def find_hdr_def valid_hdr_def
    HDR_SIZE_def merge_block.simps [of 0 23] list_push_def list_idx_def Let_def)

text \<open>What the buffers of one copy leave of the arena.\<close>

definition file_heap :: "pal_allocator \<Rightarrow> pal_allocator" where
  "file_heap a =
    (let a = snd (pal_malloc 4096 4194304 (snd (pal_malloc 4096 4194304 a)));
         a = pal_free 0 (pal_free 4112 a)
     in pal_free 4112 (snd (pal_malloc 4096 4194304 a)))"

lemma free_null [simp]: "pal_free 0 a = a"
  by (simp add: pal_free_def pal_allocator_free_def)

lemma demo_transfer:
  assumes "arena_free (heap cs)"
  shows "\<exists>h. (\<forall>st. copy_transfer os demo_env src dst cs st =
      (do { ((err, cs), st) \<leftarrow> serial_loop os demo_env src dst (cs\<lparr>heap := h\<rparr>) st; Some ((err, 4112, cs), st) })) \<and>
    pal_free 4112 h = file_heap (heap cs)"
proof -
  obtain a1 where a1: "pal_malloc 4096 4194304 (heap cs) = (4112, a1)" "arena_taken a1" using malloc_free_arena [OF assms] by blast
  obtain a2 where a2: "pal_malloc 4096 4194304 a1 = (0, a2)" "arena_taken a2" using malloc_taken_arena [OF a1(2)] by blast
  obtain a3 where a3: "pal_malloc 4096 4194304 (pal_free 4112 a2) = (4112, a3)"
    using malloc_free_arena [OF free_taken_arena [OF a2(2)]] by blast
  show ?thesis
    by (rule exI [of _ a3])
      (simp add: copy_transfer_def serial_copy_def copy_malloc_def copy_free_def demo_env_def PAL_FILE_COPY_BUFFER_SIZE_def
        file_heap_def a1 a2 a3)
qed

lemma demo_free: "copy_free demo_env p cs = cs\<lparr>heap := pal_free p (heap cs)\<rparr>"
  by (simp add: copy_free_def demo_env_def)

lemma demo_cb [simp]: "env_cb demo_env = None" "Suc (Suc 0) \<le> PAL_FILE_COPY_BUFFER_SIZE"
  by (simp_all add: demo_env_def PAL_FILE_COPY_BUFFER_SIZE_def)

lemma demo_same [simp]: "demo_env\<lparr>env_cb := None\<rparr> = demo_env" "demo_copy\<lparr>out_errno := 0, cumulative := 0\<rparr> = demo_copy"
  by (simp_all add: demo_env_def demo_copy_def)

lemma demo_tmp: "copy_tmp_path ''/srv/m/a'' 7 0 = ''/srv/m/.zftpd.7.0.tmp''" "copy_space_dir ''/srv/m/a'' = ''/srv/m''"
  by code_simp+

lemma file_run:
  assumes "world st = file_script @ w" "tmp_counter cs = 0" "arena_free (heap cs)"
  shows "pal_file_copy_atomic_ex script_os demo_env ''/srv/d/a'' ''/srv/m/a'' cs st =
    Some ((FTP_OK, cs\<lparr>tmp_counter := 1, heap := file_heap (heap cs)\<rparr>), adv w 5 (zip file_calls file_script) st)"
proof -
  have free: "arena_free (heap (cs\<lparr>tmp_counter := 1\<rparr>))" using assms(3) by simp
  have "\<exists>h. (\<forall>st. copy_transfer script_os demo_env 5 6 (cs\<lparr>tmp_counter := 1\<rparr>) st =
      (do { ((err, cs), st) \<leftarrow> serial_loop script_os demo_env 5 6 (cs\<lparr>tmp_counter := 1, heap := h\<rparr>) st; Some ((err, 4112, cs), st) })) \<and>
    pal_free 4112 h = file_heap (heap cs)"
    using demo_transfer [OF free] by simp
  then obtain h where h: "\<And>st. copy_transfer script_os demo_env 5 6 (cs\<lparr>tmp_counter := 1\<rparr>) st =
      (do { ((err, cs), st) \<leftarrow> serial_loop script_os demo_env 5 6 (cs\<lparr>tmp_counter := 1, heap := h\<rparr>) st; Some ((err, 4112, cs), st) })"
    "pal_free 4112 h = file_heap (heap cs)" by blast
  show ?thesis
    using assms
    apply (simp add: pal_file_copy_atomic_ex_def file_script_def file_calls_def stat_res_def syscall_def posix_def is_reg_mode_def S_IFMT_def S_IFREG_def
      demo_tmp copy_opened_def copy_no_space_def h)
    apply (simp add: serial_loop.simps [of script_os demo_env 5 6] copy_write.simps [of script_os] syscall_def posix_def copy_progress_def Let_def
      copy_finish_def copy_cleanup_def close_if_def demo_free h)
    done
qed

text \<open>
  A move of a directory with the files \<^verbatim>\<open>a\<close> and \<^verbatim>\<open>b\<close>: the first one is moved, the second one cannot be
  examined, and the roll-back empties the destination.
\<close>

definition move_script :: "sysres list" where
  "move_script =
    [stat_res S_IFDIR, io_res 0, io_res 3, entry_res ''a'', stat_res S_IFREG] @ file_script @
    [io_res 0, entry_res ''b'', io_res (-1), io_res 0,
     io_res 4, entry_res ''a'', stat_res S_IFREG, io_res 0, io_res (-1), io_res 0, io_res 0]"

definition move_calls :: "syscall list" where
  "move_calls =
    [Sys_stat ''/srv/d'', Sys_mkdir ''/srv/m'' 0, Sys_opendir ''/srv/d'', Sys_readdir 3, Sys_stat ''/srv/d/a''] @ file_calls @
    [Sys_unlink ''/srv/d/a'', Sys_readdir 3, Sys_stat ''/srv/d/b'', Sys_closedir 3,
     Sys_opendir ''/srv/m'', Sys_readdir 4, Sys_stat ''/srv/m/a'', Sys_unlink ''/srv/m/a'', Sys_readdir 4, Sys_closedir 4, Sys_rmdir ''/srv/m'']"

lemma leaf_run:
  assumes "world st = file_script @ io_res 0 # w" "tmp_counter cs = 0" "arena_free (heap cs)"
  shows "copy_leaf script_os demo_env False ''/srv/d/a'' ''/srv/m/a'' cs st =
    Some ((FTP_OK, cs\<lparr>tmp_counter := 1, heap := file_heap (heap cs)\<rparr>),
      adv w 5 (zip file_calls file_script @ [(Sys_unlink ''/srv/d/a'', io_res 0)]) st)"
  using file_run [OF assms] by (simp add: copy_leaf_def syscall_def posix_def)

lemmas mode_defs = stat_res_def is_reg_mode_def is_dir_mode_def S_IFMT_def S_IFREG_def S_IFDIR_def

lemma remove_run:
  assumes "world st = [io_res 4, entry_res ''a'', stat_res S_IFREG, io_res 0, io_res (-1), io_res 0, io_res 0]"
  shows "pal_dir_remove_recursive (Suc k) script_os ''/srv/m'' st = Some (FTP_OK,
    adv [] 5 (zip [Sys_opendir ''/srv/m'', Sys_readdir 4, Sys_stat ''/srv/m/a'', Sys_unlink ''/srv/m/a'', Sys_readdir 4, Sys_closedir 4, Sys_rmdir ''/srv/m'']
      (world st)) st)"
  using assms
  by (simp add: each_entry.simps [of script_os] remove_entry_def syscall_def posix_def entry_res_def cstring_def mode_defs Let_def)

lemma rollback_run:
  assumes "world st = [io_res 4, entry_res ''a'', stat_res S_IFREG, io_res 0, io_res (-1), io_res 0, io_res 0]"
  shows "copy_dir_end script_os False True ''/srv/d'' ''/srv/m'' FTP_ERR_FILE_STAT cs st = Some ((FTP_ERR_FILE_STAT, cs),
    adv [] 5 (zip [Sys_opendir ''/srv/m'', Sys_readdir 4, Sys_stat ''/srv/m/a'', Sys_unlink ''/srv/m/a'', Sys_readdir 4, Sys_closedir 4, Sys_rmdir ''/srv/m'']
      (world st)) st)"
  using remove_run [OF assms, of 64] by (simp add: copy_dir_end_def levels_def PAL_MOVE_MAX_DEPTH_def)

lemma move_run:
  "pal_copy_cross_device_r_ex (Suc (Suc n)) script_os demo_env False ''/srv/d'' ''/srv/m'' demo_copy (start_st move_script s) =
    Some ((FTP_ERR_FILE_STAT, demo_copy\<lparr>tmp_counter := 1, heap := file_heap demo_arena\<rparr>), adv [] 5 (zip move_calls move_script) (start_st move_script s))"
proof -
  have len: "length file_calls = length file_script" by (simp add: file_calls_def file_script_def)
  show ?thesis
    apply (simp add: start_st_def move_script_def move_calls_def each_entry.simps [of script_os] syscall_def posix_def entry_res_def cstring_def mode_defs
      leaf_run demo_copy_def demo_arena_free rollback_run [unfolded entry_res_def mode_defs] len Let_def)
    done
qed

lemma copy_thread_run:
  "ftp_copy_thread_func script_os demo_env ''/srv/d'' ''/srv/m'' True demo_copy (start_st move_script zero_session) =
    Some ((FTP_ERR_FILE_STAT, demo_copy\<lparr>tmp_counter := 1, heap := file_heap demo_arena\<rparr>), upd (\<lambda>s. s\<lparr>copy_in_progress := False\<rparr>)
      (adv [] 5 (zip move_calls move_script) (start_st move_script zero_session)))"
  using move_run [of 63 zero_session]
  by (simp add: ftp_copy_thread_func_def pal_file_copy_recursive_ex_def levels_def PAL_MOVE_MAX_DEPTH_def)

text \<open>
  C40: a move across file systems can lose a file.  In the run of \<open>move_script\<close> the move fails, and yet the file \<^verbatim>\<open>a\<close> has
  been removed at the source, after it was copied, and then at the destination by the roll-back.
\<close>

theorem move_rollback_loses_file:
  "\<exists>y st. ftp_copy_thread_func script_os demo_env ''/srv/d'' ''/srv/m'' True demo_copy (start_st move_script zero_session) = Some (y, st) \<and>
     fst y = FTP_ERR_FILE_STAT \<and>
     subseq [(Sys_rename ''/srv/m/.zftpd.7.0.tmp'' ''/srv/m/a'', io_res 0), (Sys_unlink ''/srv/d/a'', io_res 0),
       (Sys_unlink ''/srv/m/a'', io_res 0)] (trace st)"
  using copy_thread_run by (simp add: start_st_def move_calls_def move_script_def file_calls_def file_script_def)

section \<open>Witnesses\<close>

definition file_st :: "sysres list st" where "file_st = start_st file_script zero_session"

lemma demo_cb_ok: "cb_ok demo_env"
  by (simp add: cb_ok_def)

theorem copy_atomic_all_or_nothing_witness:
  "\<exists>cs st t. pal_file_copy_atomic_ex script_os demo_env ''/srv/d/a'' ''/srv/m/a'' demo_copy file_st = Some ((FTP_OK, cs), st) \<and>
     trace st = t \<and> file_committed ''/srv/d/a'' ''/srv/m/a'' t"
proof -
  obtain cs st where r: "pal_file_copy_atomic_ex script_os demo_env ''/srv/d/a'' ''/srv/m/a'' demo_copy file_st = Some ((FTP_OK, cs), st)"
    using file_run [of file_st "[]" demo_copy] demo_arena_free by (auto simp: file_st_def start_st_def demo_copy_def)
  show ?thesis using r copy_atomic_all_or_nothing [OF script_os_posix demo_cb_ok r] by (auto simp: file_st_def start_st_def)
qed

theorem copy_changes_destination_only_witness:
  "\<exists>y st. pal_file_copy_recursive_ex script_os demo_env ''/srv/d/a'' ''/srv/m/a'' True demo_copy
     (start_st (stat_res S_IFREG # file_script) zero_session) = Some (y, st) \<and>
     (\<forall>e \<in> set (trace st). \<forall>p \<in> set (ev_changes e). in_tree ''/srv/m/a'' p \<or> tmp_in ''/srv/m/a'' p)"
proof -
  let ?st = "start_st (stat_res S_IFREG # file_script) zero_session"
  have "\<exists>y st. pal_copy_cross_device_r_ex (Suc n) script_os demo_env True ''/srv/d/a'' ''/srv/m/a'' demo_copy ?st = Some (y, st)" for n
    using file_run [of "adv file_script 0 [(Sys_stat ''/srv/d/a'', stat_res S_IFREG)] ?st" "[]" demo_copy] demo_arena_free
    by (simp add: syscall_def posix_def copy_leaf_def start_st_def demo_copy_def mode_defs)
  from this [of 64] obtain y st where
    r: "pal_file_copy_recursive_ex script_os demo_env ''/srv/d/a'' ''/srv/m/a'' True demo_copy ?st = Some (y, st)"
    by (auto simp: pal_file_copy_recursive_ex_def levels_def PAL_MOVE_MAX_DEPTH_def demo_copy_def)
  show ?thesis using r copy_changes_destination_only [OF script_os_posix demo_cb_ok r] by (auto simp: start_st_def simp del: ev_changes.simps)
qed

theorem copy_thread_confined_witness:
  "\<exists>y st. ftp_copy_thread_func script_os demo_env ''/srv/d'' ''/srv/m'' True demo_copy (start_st move_script zero_session) = Some (y, st) \<and>
     list_all (copy_inside ''/srv'') (trace st) \<and> 0 < length (trace st)"
proof -
  have c: "confined ''/srv'' ''/srv/d''" "confined ''/srv'' ''/srv/m''" by code_simp+
  show ?thesis
    using copy_thread_run copy_thread_confined [OF script_os_posix c copy_thread_run]
    by (auto simp: start_st_def move_calls_def move_script_def)
qed

end
