(* ===== verification/Spec2Isabelle.thy ===== *)
theory Spec2Isabelle
  imports Ftp_Crypto_Vectors Ftp_Server Pal_Copy
begin

text \<open>
  Verification of zftpd, an FTP daemon in C, for its generic POSIX build on Linux.

  \<^bold>\<open>The program.\<close>  \<^verbatim>\<open>src/src/ftp_server.c\<close> listens on a port, keeps a fixed pool of session slots
  and starts one thread per connection.  A session thread (\<^verbatim>\<open>ftp_session.c\<close>) reads command
  lines, parses them (\<^verbatim>\<open>ftp_protocol.c\<close>) and calls a handler (\<^verbatim>\<open>ftp_commands.c\<close>).  A handler
  resolves the paths of the client against the root of the session (\<^verbatim>\<open>ftp_path.c\<close>) and moves
  data between files (\<^verbatim>\<open>pal_fileio.c\<close>, \<^verbatim>\<open>pal_filesystem.c\<close>) and sockets (\<^verbatim>\<open>pal_network.c\<close>),
  through transfer buffers that all sessions share (\<^verbatim>\<open>ftp_buffer_pool.c\<close>).  After \<^verbatim>\<open>AUTH\<close> the data
  connection is encrypted (\<^verbatim>\<open>ftp_crypto.c\<close>).  Copies, and moves across file systems, run in a background
  thread of the session.  Large buffers come from a buddy allocator in a
  static arena (\<^verbatim>\<open>pal_alloc.c\<close>).

  \<^bold>\<open>How code becomes a definition.\<close>  The operating system is a parameter
  \<open>os :: 'w \<Rightarrow> syscall \<Rightarrow> sysres \<times> 'w\<close> over any type of worlds.  A C function that makes system calls
  maps a state \<open>st\<close> to \<open>Some\<close> of its result and the new state, or to \<open>None\<close> if it does not return.
  The state holds the world, \<open>errno\<close>, the trace of all calls with their results, the session
  record and the mask of the buffer pool.  As the world is arbitrary, statements that quantify over
  \<open>os\<close> cover whatever other threads and processes do to files and sockets between two calls.
  What the code relies on is a hypothesis: \<open>os_sat os posix\<close> says that a call returns what its
  manual page allows, for instance that \<open>recv\<close> does not return more bytes than asked for.
  Error codes are values of \<open>ftp_error\<close>; C integers that may wrap are words; sizes and
  lengths that are bounded by a buffer are natural numbers.

  \<^bold>\<open>Theories and the code they model.\<close>

  \<^item> \<open>Zf_Prelude\<close>: bytes, strings, decimal numbers, and the calculus of \<open>post\<close> with its rule
    collection \<open>wp\<close>, in which the rules of all operations are stated.
  \<^item> \<open>Ftp_Types\<close> (\<^verbatim>\<open>include/ftp_types.h\<close>, \<^verbatim>\<open>include/ftp_config.h\<close>): session record, error codes,
    replies, constants, system calls and the contract \<open>posix\<close>.
  \<^item> \<open>Ftp_Crypto\<close>, \<open>Ftp_Crypto_Vectors\<close> (\<^verbatim>\<open>ftp_crypto.c\<close>): ChaCha20, the streaming XOR, key derivation.
    The XOR refines the key stream as a function of the position, so encryption does not depend on
    buffer boundaries; after \<open>2 ^ 38\<close> bytes the counter has wrapped and the cipher starts over.  As a
    check of the transcription, the block function is evaluated on the test vector of RFC 8439.
  \<^item> \<open>Os_Trace\<close>, \<open>File_Trace\<close>: how a trace is read, as descriptors opened and closed, paths named,
    bytes moved.  The locale \<open>transfer\<close> is shared by the send loop and the write loop.
  \<^item> \<open>Pal_Fileio\<close>, \<open>Pal_Network\<close> (\<^verbatim>\<open>pal_fileio.c\<close>, \<^verbatim>\<open>pal_filesystem.c\<close>, \<^verbatim>\<open>pal_network.c\<close>): the platform layer.
    The loops return and deliver all bytes in order if no call fails.  A \<open>sockaddr_in\<close> has its port in network
    byte order, which \<open>PAL_HTONS\<close> and \<open>PAL_NTOHS\<close> swap; its address is the number whose most significant
    byte is the first byte in memory.
  \<^item> \<open>Ftp_Path\<close> (\<^verbatim>\<open>ftp_path.c\<close>): normalization equals dot resolution on lists of components; a
    resolved path is inside the root and has no dot-dot.
  \<^item> \<open>Ftp_Protocol\<close> (\<^verbatim>\<open>ftp_protocol.c\<close>): parsing of command lines and the format of replies.
  \<^item> \<open>Buffer_Pool\<close> (\<^verbatim>\<open>ftp_buffer_pool.c\<close>, \<^verbatim>\<open>pal_scratch.c\<close>): the two pools, as sequential operations and
    as interleaved atomic steps.  The locale \<open>slot_pool\<close> is interpreted on both.
  \<^item> \<open>Ftp_Session\<close>, \<open>Ftp_Session_Rules\<close> (\<^verbatim>\<open>ftp_session.c\<close>): life cycle, replies, data connection, rate
    limiter, line reader, with one rule per operation.
  \<^item> \<open>Ftp_Contract\<close>: the locale \<open>ftp_handler\<close>, the interface between handlers and dispatcher; each
    of the handlers is an interpretation.
  \<^item> \<open>Ftp_Cmd_Basic\<close>, \<open>Ftp_Cmd_Files\<close>, \<open>Ftp_Cmd_Data\<close>, \<open>Ftp_Cmd_List\<close>, \<open>Ftp_Cmd_Retr\<close>, \<open>Ftp_Cmd_Stor\<close>,
    \<open>Ftp_Cmd_Auth\<close> (\<^verbatim>\<open>ftp_commands.c\<close>): all handlers.  \<open>Zf_Calendar\<close> has the dates of listings, \<open>Stor_Pipe\<close>
    the two threads of an upload.
  \<^item> \<open>Ftp_Dispatch\<close> (\<^verbatim>\<open>ftp_protocol.c\<close>, \<^verbatim>\<open>ftp_session.c\<close>): command table, dispatcher, session thread.
    From greeting to clean-up a session opens and changes nothing outside its root, but for two names, and gives
    everything back.  One is \<^verbatim>\<open>/dev/urandom\<close>, read by \<^verbatim>\<open>AUTH\<close>.  The other is the temporary name of an upload to the
    root directory itself, which lies next to the root: \<open>Ftp_Cmd_Stor\<close> shows that this way out is real.
  \<^item> \<open>Ftp_Server\<close> (\<^verbatim>\<open>ftp_server.c\<close>): slots, start, shutdown; the accept thread and the session
    threads as a step relation.  Slots are exclusive and the counter is exact as long as no slot is allocated
    during a clean-up; otherwise two threads can share a slot and the counter stays wrong.  During shutdown the
    other threads may change the context before every read of it; what the session lock excludes is
    allowed there too.
  \<^item> \<open>Buddy_Tiling\<close>, \<open>Pal_Alloc\<close> (\<^verbatim>\<open>pal_alloc.c\<close>): the allocator, its tiling invariant, and the locale
    \<open>block_store\<close> that turns the contracts of malloc and free into statements about clients.
  \<^item> \<open>Copy_Pipe\<close>, \<open>Pal_Copy\<close> (\<^verbatim>\<open>pal_fileio.c\<close>, and \<open>ftp_copy_thread_func\<close> of \<^verbatim>\<open>ftp_commands.c\<close>): the copy of a file
    through a temporary name, by one thread or by a reader and a writer; the recursive copy, move and
    removal of trees; the background thread.  A copy of a file is all or nothing, the thread stays inside the
    root, a copy changes its destination only, and a failed move can lose files.  The invariant of the two
    threads is that of \<open>Stor_Pipe\<close>, through the map \<open>as_stor\<close>.

  \<^bold>\<open>Loops.\<close>  No fuel is used.  Loops with a measure are total functions.  Loops whose end depends on
  the system, such as a retry after \<open>EINTR\<close>, are partial functions, where \<open>None\<close> is the loop that
  never ends.  That the send loop and the write loop end is proved with a hypothesis that bounds
  the number of interruptions; that shutdown ends needs no hypothesis.  The statements on copies are about
  runs that return; the pipeline of a copy, like that of an upload, may stop with both threads waiting, and
  that run is \<open>None\<close>.  The recursion on trees is limited by the code: \<open>levels\<close> is
  \<open>PAL_MOVE_MAX_DEPTH + 1\<close>, the number of nested calls that pass its depth check.

  \<^bold>\<open>Concurrency.\<close>  Buffer pools, the upload pipe and the server are step relations whose steps are
  the atomic operations and critical sections of the code, in any interleaving.  Waiting on a condition
  variable is a guard: signals are not modelled, so lost wake-ups cannot be expressed.  The first use of the
  default arena is one step, although the code tests \<open>initialized\<close> before it takes the lock.  The two threads of a copy
  take turns as the system call \<open>Sys_sched\<close> decides, which covers every interleaving of their steps; other
  users of the arena act through \<open>env_others\<close> before each call of the allocator.  A handler that starts a
  background copy makes the system call \<open>Sys_copy_thread\<close>; what that thread does is \<open>ftp_copy_thread_func\<close>, on
  a state of its own, and for the session it is part of the world.  Sessions do not
  share other memory; their effect on each other through the file system is part of the world.

  \<^bold>\<open>Not modelled.\<close>  Logging and notifications, which have no effect on the modelled state.  The
  console variants of the platform layer and of the configuration, which need vendor
  headers.  The HTTP explorer (\<^verbatim>\<open>http_*.c\<close>), which is a separate server
  with a JSON interface and generated resources.  The unpackers (\<^verbatim>\<open>pkg_unpacker.c\<close>, \<^verbatim>\<open>exfat_unpacker.c\<close>),
  the event loop, the curl wrapper and \<^verbatim>\<open>main.c\<close>, which mostly call services outside this repository.
\<close>

end
